(* ===== verification/Prelude.thy ===== *)
theory Prelude
  imports Main "HOL-Library.Word" "HOL-Library.List_Lexorder" "HOL-Library.Sublist" "HOL-Library.AList"
begin

text \<open>
  Shared vocabulary of the development: Go's machine integers and byte slices, the errors
  the code returns, the big-endian integer codecs of \<open>encoding/binary\<close>, the readers of
  \<open>bytes\<close> and \<open>io\<close>, and the generic facts on byte strings, their order and their
  prefixes that the components use.

  A Go \<open>string\<close> or \<open>[]byte\<close> is a list of bytes; \<open>nil\<close> and the empty slice are both
  the empty list, since the code never tells them apart. Lists of bytes are ordered
  lexicographically (\<open>HOL-Library.List_Lexorder\<close>), which is the order of Go's string
  comparison and of RocksDB's default comparator.
\<close>

section \<open>Types\<close>

type_synonym byte = "8 word"
type_synonym bytes = "byte list"
type_synonym u16 = "16 word"
type_synonym u32 = "32 word"
type_synonym u64 = "64 word"

text \<open>The codes of gRPC statuses that the code tells apart; the others are numbers.\<close>

datatype grpc_code =
    Code_Unavailable
  | Code_DeadlineExceeded
  | Code_Internal
  | Code_NotFound
  | Code_FailedPrecondition
  | Code_other nat

text \<open>
  The errors that the modelled functions return. \<open>GoPanic\<close> stands for a run-time panic
  (a slice expression out of range), which the code does not recover from;
  \<open>ErrEngine\<close> and \<open>ErrRemote\<close> carry an error of RocksDB or of a remote service, and \<open>ErrStatus\<close>
  is a gRPC status. The text with which an error is wrapped is not represented.
\<close>

datatype err =
    ErrEOF
  | ErrUnexpectedEOF
  | GoPanic
  | ErrEngine string
  | ErrRemote string
  | ErrFieldKeyTooShort
  | ErrFieldKeyFormat
  | ErrFieldKeyPkLen
  | ErrStorageKeyTooShort
  | ErrFieldBatchTooShort
  | ErrFieldBatchVersion byte
  | ErrAttributeGroupTooShort
  | ErrPartitionExists u32
  | ErrPartitionNotFound u32
  | ErrEpochMismatch u64 u64
  | ErrNotWritable u32
  | ErrPartitionMismatch u32 u32
  | ErrCrcMismatch u32 u32
  | ErrLogClosed
  | ErrIndexedFileNotFound
  | ErrReplay u64 err
  | ErrNoReplicator u32
  | ErrJSON
  | ErrIO string
  | ErrFileClosed
  | ErrNodeNotFound string
  | ErrClusterState string
  | ErrNotEnoughNodes nat nat
  | ErrNodeNotOnline string
  | ErrText string
  | ErrStatus grpc_code err
  | ErrActiveMigration u32
  | ErrPendingMigration u32
  | ErrNotQueued u32
  | ErrContext string
  | ErrKeyNotFound
  | ErrTimeout
  | ErrNoAddrs
  | ErrClosed
  | ErrEmptyAddress nat

named_theorems codec_simps
  \<open>reading back what was written: the equations that run a decoder over an encoding\<close>
named_theorems view_simps
  \<open>the effect of a storage operation on the abstract contents of the database\<close>

section \<open>Big-endian integers\<close>

text \<open>
  \<open>be n x\<close> are the \<open>n\<close> low bytes of \<open>x\<close>, most significant first, and \<open>unbe\<close> is
  the number a byte string denotes. \<open>binary.BigEndian.PutUint32\<close> and its kin write
  \<open>be\<close> of the word's value, \<open>Uint32\<close> and its kin read the first bytes of a slice.
\<close>

fun be :: "nat \<Rightarrow> nat \<Rightarrow> bytes" where
  "be 0 x = []"
| "be (Suc n) x = be n (x div 256) @ [of_nat x]"

definition unbe :: "bytes \<Rightarrow> nat" where
  "unbe bs = foldl (\<lambda>a b. 256 * a + unat b) 0 bs"

definition PutUint16 :: "u16 \<Rightarrow> bytes" where
  "PutUint16 v = be 2 (unat v)"

definition PutUint32 :: "u32 \<Rightarrow> bytes" where
  "PutUint32 v = be 4 (unat v)"

definition PutUint64 :: "u64 \<Rightarrow> bytes" where
  "PutUint64 v = be 8 (unat v)"

definition Uint16 :: "bytes \<Rightarrow> u16" where
  "Uint16 bs = of_nat (unbe (take 2 bs))"

definition Uint32 :: "bytes \<Rightarrow> u32" where
  "Uint32 bs = of_nat (unbe (take 4 bs))"

definition Uint64 :: "bytes \<Rightarrow> u64" where
  "Uint64 bs = of_nat (unbe (take 8 bs))"

lemma unat_bound: "unat (w :: 'a :: len word) < 2 ^ LENGTH('a)"
  by (rule unsigned_less)

lemma length_be [simp]: "length (be n x) = n"
  by (induction n arbitrary: x) auto

lemma unbe_Nil [simp]: "unbe [] = 0"
  by (simp add: unbe_def)

lemma unbe_snoc [simp]: "unbe (bs @ [b]) = 256 * unbe bs + unat b"
  by (simp add: unbe_def)

lemma unbe_be: "unbe (be n x) = x mod 256 ^ n"
proof (induction n arbitrary: x)
  case 0
  show ?case by simp
next
  case (Suc n)
  have "unbe (be (Suc n) x) = 256 * (x div 256 mod 256 ^ n) + x mod 256"
    by (simp add: Suc.IH unat_of_nat)
  also have "\<dots> = x mod 256 ^ Suc n"
    by (simp add: mod_mult2_eq mult.commute)
  finally show ?case .
qed

lemma length_PutUint [simp]:
  "length (PutUint16 v) = 2" "length (PutUint32 w) = 4" "length (PutUint64 x) = 8"
  by (simp_all add: PutUint16_def PutUint32_def PutUint64_def)

lemma Uint16_PutUint16 [simp]: "Uint16 (PutUint16 v @ rest) = v"
  using unat_bound [of v] by (simp add: Uint16_def PutUint16_def unbe_be)

lemma Uint32_PutUint32 [simp]: "Uint32 (PutUint32 v @ rest) = v"
  using unat_bound [of v] by (simp add: Uint32_def PutUint32_def unbe_be)

lemma Uint64_PutUint64 [simp]: "Uint64 (PutUint64 v @ rest) = v"
  using unat_bound [of v] by (simp add: Uint64_def PutUint64_def unbe_be)

lemma PutUint32_inject [simp]: "PutUint32 v = PutUint32 w \<longleftrightarrow> v = w"
  by (metis Uint32_PutUint32)

section \<open>Byte strings: order and prefixes\<close>

text \<open>
  On strings of one length the lexicographic order is the order of the numbers they
  denote, so big-endian keys are scanned in numeric order.
\<close>

lemma unbe_Cons: "unbe (b # bs) = unat b * 256 ^ length bs + unbe bs"
proof -
  have "foldl (\<lambda>a b. 256 * a + unat b) a bs = a * 256 ^ length bs + unbe bs" for a :: nat
    unfolding unbe_def
  proof (induction bs arbitrary: a)
    case Nil
    show ?case by simp
  next
    case (Cons c bs)
    from Cons.IH [of "256 * a + unat c"] Cons.IH [of "unat c"] show ?case
      by (simp add: algebra_simps)
  qed
  from this [of "unat b"] show ?thesis
    by (simp add: unbe_def)
qed

lemma unbe_less: "unbe bs < 256 ^ length bs"
proof (induction bs)
  case Nil
  show ?case by simp
next
  case (Cons b bs)
  have "unat b \<le> 255"
    using unat_bound [of b] by simp
  then have "unat b * 256 ^ length bs \<le> 255 * 256 ^ length bs"
    by (rule mult_le_mono1)
  with Cons.IH have "unat b * 256 ^ length bs + unbe bs < 256 * 256 ^ length bs"
    by linarith
  then show ?case
    by (simp add: unbe_Cons)
qed

lemma less_iff_unbe: "length xs = length ys \<Longrightarrow> xs < ys \<longleftrightarrow> unbe xs < unbe ys"
proof (induction xs ys rule: list_induct2)
  case Nil
  show ?case by simp
next
  case (Cons x xs y ys)
  note len = \<open>length xs = length ys\<close>
  consider "unat x < unat y" | "unat x = unat y" | "unat y < unat x"
    by linarith
  then show ?case
  proof cases
    case 1
    then have "(unat x + 1) * 256 ^ length xs \<le> unat y * 256 ^ length xs"
      by (intro mult_le_mono1) simp
    with unbe_less [of xs] have "unbe (x # xs) < unbe (y # ys)"
      by (simp add: unbe_Cons len)
    with 1 show ?thesis
      by (simp add: word_less_nat_alt)
  next
    case 2
    then have "x = y"
      by (simp add: word_unat_eq_iff)
    with Cons.IH show ?thesis
      by (simp add: unbe_Cons len)
  next
    case 3
    then have "(unat y + 1) * 256 ^ length ys \<le> unat x * 256 ^ length ys"
      by (intro mult_le_mono1) simp
    with unbe_less [of ys] have "unbe (y # ys) < unbe (x # xs)"
      by (simp add: unbe_Cons len)
    with 3 show ?thesis
      by (auto simp: word_less_nat_alt word_unat_eq_iff)
  qed
qed

lemma PutUint32_less [simp]: "PutUint32 v < PutUint32 w \<longleftrightarrow> v < w"
proof -
  have "PutUint32 v < PutUint32 w \<longleftrightarrow> unbe (PutUint32 v) < unbe (PutUint32 w)"
    by (rule less_iff_unbe) simp
  then show ?thesis
    using unat_bound [of v] unat_bound [of w]
    by (simp add: PutUint32_def unbe_be word_less_nat_alt)
qed

lemma less_append [simp]: "ps @ xs < ps @ ys \<longleftrightarrow> xs < (ys :: 'a :: linorder list)"
  by (induction ps) auto

lemma le_append [simp]: "ps @ xs \<le> ps @ ys \<longleftrightarrow> xs \<le> (ys :: 'a :: linorder list)"
  by (induction ps) auto

lemma append_less_append_len:
  assumes "length ps = length qs" and "ps \<noteq> qs"
  shows "ps @ xs < qs @ ys \<longleftrightarrow> ps < (qs :: 'a :: linorder list)"
  using assms by (induction ps qs arbitrary: xs ys rule: list_induct2) auto

lemma prefix_le: "prefix p x \<Longrightarrow> p \<le> (x :: 'a :: linorder list)"
  by (auto elim!: prefixE simp: list_le_def) (metis less_append append_Nil2 Nil_less_Cons list.exhaust)

text \<open>
  The strings that extend \<open>p\<close> form an interval that starts at \<open>p\<close>: a scan that begins
  at \<open>p\<close> meets all of them before anything else.
\<close>

lemma prefix_convex:
  assumes "p \<le> x" and "x \<le> y" and "prefix p y"
  shows "prefix p (x :: 'a :: linorder list)"
  using assms
proof (induction p arbitrary: x y)
  case Nil
  show ?case by simp
next
  case (Cons a p)
  from Cons.prems(3) obtain y' where y: "y = a # y'" "prefix p y'"
    by (cases y) auto
  from Cons.prems(1) obtain b x' where x: "x = b # x'"
    by (cases x) auto
  from Cons.prems x y have "b = a" "p \<le> x'" "x' \<le> y'"
    by auto
  with Cons.IH [of x' y'] x y show ?case
    by simp
qed

lemma takeWhile_eq_filter_sorted:
  assumes "sorted xs" and "\<And>x y. x \<in> set xs \<Longrightarrow> y \<in> set xs \<Longrightarrow> x \<le> y \<Longrightarrow> P y \<Longrightarrow> P x"
  shows "takeWhile P xs = filter P xs"
  using assms
proof (induction xs)
  case Nil
  show ?case by simp
next
  case (Cons x xs)
  show ?case
  proof (cases "P x")
    case True
    have "takeWhile P xs = filter P xs"
      using Cons.prems by (intro Cons.IH) auto
    with True show ?thesis by simp
  next
    case False
    have "filter P xs = []"
      using Cons.prems False by (auto simp: filter_empty_conv)
    with False show ?thesis by simp
  qed
qed

section \<open>Readers\<close>

text \<open>
  A reader is the byte string it has not delivered yet. \<open>reader_Read n\<close> is
  \<open>bytes.Reader.Read\<close> into a fresh slice of \<open>n\<close> bytes: at the end of the data it
  returns \<open>io.EOF\<close>, even for \<open>n = 0\<close>; otherwise it delivers what there is and leaves
  the rest of the slice zero, with no error. \<open>reader_ReadFull n\<close> is \<open>io.ReadFull\<close>, which
  wants all \<open>n\<close> bytes; \<open>binary.Read\<close> of a fixed-size integer is built on it.
\<close>

definition reader_Read :: "nat \<Rightarrow> bytes \<Rightarrow> err + bytes \<times> bytes" where
  "reader_Read n bs =
     (if bs = [] then Inl ErrEOF
      else Inr (take n bs @ replicate (n - length bs) 0, drop n bs))"

definition reader_ReadFull :: "nat \<Rightarrow> bytes \<Rightarrow> err + bytes \<times> bytes" where
  "reader_ReadFull n bs =
     (if n \<le> length bs then Inr (take n bs, drop n bs)
      else if bs = [] then Inl ErrEOF else Inl ErrUnexpectedEOF)"

definition reader_ReadByte :: "bytes \<Rightarrow> err + byte \<times> bytes" where
  "reader_ReadByte bs = (case bs of [] \<Rightarrow> Inl ErrEOF | b # rest \<Rightarrow> Inr (b, rest))"

definition read_u16 :: "bytes \<Rightarrow> err + u16 \<times> bytes" where
  "read_u16 bs = map_sum id (map_prod Uint16 id) (reader_ReadFull 2 bs)"

definition read_u32 :: "bytes \<Rightarrow> err + u32 \<times> bytes" where
  "read_u32 bs = map_sum id (map_prod Uint32 id) (reader_ReadFull 4 bs)"

lemma read_u16_Put [simp, codec_simps]: "read_u16 (PutUint16 v @ rest) = Inr (v, rest)"
  using Uint16_PutUint16 [of v "[]"] by (simp add: read_u16_def reader_ReadFull_def)

lemma read_u32_Put [simp, codec_simps]: "read_u32 (PutUint32 v @ rest) = Inr (v, rest)"
  using Uint32_PutUint32 [of v "[]"] by (simp add: read_u32_def reader_ReadFull_def)

lemma reader_Read_append [codec_simps]:
  "xs @ rest \<noteq> [] \<Longrightarrow> length xs = n \<Longrightarrow> reader_Read n (xs @ rest) = Inr (xs, rest)"
  by (auto simp: reader_Read_def)

lemma reader_ReadFull_append [simp, codec_simps]:
  "length xs = n \<Longrightarrow> reader_ReadFull n (xs @ rest) = Inr (xs, rest)"
  by (auto simp: reader_ReadFull_def)

lemma reader_ReadFull_short: "length bs < n \<Longrightarrow> \<exists>e. reader_ReadFull n bs = Inl e"
  by (auto simp: reader_ReadFull_def)

lemma reader_ReadByte_Cons [simp, codec_simps]: "reader_ReadByte (b # rest) = Inr (b, rest)"
  by (simp add: reader_ReadByte_def)

text \<open>Lengths that fit their width survive the conversion to a word and back.\<close>

lemma unat_of_nat_u32 [simp]: "n < 2 ^ 32 \<Longrightarrow> unat (of_nat n :: u32) = n"
  by (simp add: unat_of_nat)

lemma unat_of_nat_u16 [simp]: "n < 2 ^ 16 \<Longrightarrow> unat (of_nat n :: u16) = n"
  by (simp add: unat_of_nat)

lemma of_nat_u32_gt_0 [simp]: "n < 2 ^ 32 \<Longrightarrow> (0 < (of_nat n :: u32)) = (0 < n)"
  by (simp add: word_less_nat_alt)

lemma PutUint32_ne [simp]: "PutUint32 v \<noteq> []"
  by (simp add: PutUint32_def flip: length_0_conv)

text \<open>Incrementing a counter that has not reached its largest value.\<close>

lemma unat_add_1: "w \<noteq> -1 \<Longrightarrow> unat (w + 1) = Suc (unat w)" for w :: "'a :: len word"
  by (metis add.commute add_eq_0_iff2 unatSuc)

lemma less_add_1: "w \<noteq> -1 \<Longrightarrow> w < w + 1" for w :: "'a :: len word"
  by (simp add: word_less_nat_alt unat_add_1)

section \<open>Codecs as an interface\<close>

text \<open>
  A self-delimiting codec: decoding an encoded value gives the value back and leaves the
  rest of the input. Repeating the decoder \<open>n\<close> times reads a counted sequence.
\<close>

fun decode_n :: "(bytes \<Rightarrow> err + 'a \<times> bytes) \<Rightarrow> nat \<Rightarrow> bytes \<Rightarrow> err + 'a list \<times> bytes" where
  "decode_n dec 0 bs = Inr ([], bs)"
| "decode_n dec (Suc n) bs =
     (case dec bs of
        Inl e \<Rightarrow> Inl e
      | Inr (x, rest) \<Rightarrow>
          (case decode_n dec n rest of
             Inl e \<Rightarrow> Inl e
           | Inr (xs, rest') \<Rightarrow> Inr (x # xs, rest')))"

locale codec =
  fixes enc :: "'a \<Rightarrow> bytes"
    and dec :: "bytes \<Rightarrow> err + 'a \<times> bytes"
    and valid :: "'a \<Rightarrow> bool"
  assumes decode_encode: "valid x \<Longrightarrow> dec (enc x @ rest) = Inr (x, rest)"
begin

lemma decode_n_encode:
  "\<forall>x \<in> set xs. valid x \<Longrightarrow>
   decode_n dec (length xs) (concat (map enc xs) @ rest) = Inr (xs, rest)"
  by (induction xs) (auto simp: decode_encode)

lemma encode_inject: "valid x \<Longrightarrow> valid y \<Longrightarrow> enc x = enc y \<Longrightarrow> x = y"
  using decode_encode [of x "[]"] decode_encode [of y "[]"] by simp

end

section \<open>Strings\<close>

text \<open>Decimal numbers, as \<open>fmt\<close> and \<open>strconv\<close> print them, and the bytes of a string.\<close>

fun digits :: "nat \<Rightarrow> string" where
  "digits n = (if n < 10 then [] else digits (n div 10)) @ [char_of (48 + n mod 10)]"

declare digits.simps [simp del]

fun parse_digits :: "nat \<Rightarrow> string \<Rightarrow> nat option" where
  "parse_digits n [] = Some n"
| "parse_digits n (c # cs) =
     (if (of_char c :: nat) < 48 \<or> 57 < (of_char c :: nat) then None
      else parse_digits (10 * n + (of_char c - 48)) cs)"

lemma parse_digits_append:
  "parse_digits n (s @ s') = (case parse_digits n s of None \<Rightarrow> None | Some n' \<Rightarrow> parse_digits n' s')"
  by (induction s arbitrary: n) auto

lemma parse_digits_digits: "parse_digits 0 (digits n) = Some n"
proof (induction n rule: digits.induct)
  case (1 n)
  have c: "of_char (char_of (48 + n mod 10) :: char) = 48 + n mod 10"
    by (simp add: of_char_of)
  show ?case
  proof (cases "n < 10")
    case True
    then show ?thesis
      using c by (simp add: digits.simps [of n])
  next
    case False
    then show ?thesis
      using 1 c by (simp add: digits.simps [of n] parse_digits_append)
  qed
qed

lemma digits_inject [simp]: "digits m = digits n \<longleftrightarrow> m = n"
  by (metis option.inject parse_digits_digits)

definition bytes_of :: "string \<Rightarrow> bytes" where
  "bytes_of s = map of_char s"

section \<open>Go maps as association lists\<close>

lemma update_new: "k \<notin> fst ` set xs \<Longrightarrow> AList.update k v xs = xs @ [(k, v)]"
  by (induction xs) auto

lemma delete_keys_subset:
  fixes xs :: "('k \<times> 'v) list"
  shows "set (AList.delete k xs) \<subseteq> set xs" "(i, v) \<in> set (AList.delete k xs) \<Longrightarrow> i \<noteq> k"
  "length (AList.delete k xs) \<le> length xs" "distinct (map fst xs) \<Longrightarrow> distinct (map fst (AList.delete k xs))"
  by (auto simp: AList.delete_eq distinct_map_filter)

end
