(* ===== verification/Keys.thy ===== *)
theory Keys
  imports Prelude
begin

text \<open>
  The layout of storage keys: partition keys (\<open>src/pkg/storage/partition.go\<close>), field keys
  (\<open>src/pkg/storage/field_storage.go\<close>) and the byte-string comparison of the export loops
  (\<open>src/pkg/storage/server.go\<close>). The lemmas show that the layouts are injective, that the
  parsers invert them, which regular keys coincide with a field key, and that the half-open
  range of a partition holds exactly the keys of that partition.
\<close>

section \<open>Partition keys\<close>

definition TotalPartitions :: nat where
  "TotalPartitions = 4096"

text \<open>\<open>CalculatePartition\<close>; \<open>xxhash.Sum64\<close> is the parameter \<open>sum64\<close>.\<close>

definition CalculatePartition :: "(bytes \<Rightarrow> u64) \<Rightarrow> bytes \<Rightarrow> u32" where
  "CalculatePartition sum64 key = ucast (sum64 key mod of_nat TotalPartitions)"

text \<open>The bytes \<open>'p'\<close>, \<open>':'\<close> and \<open>'f'\<close>.\<close>

definition PartitionKeyPrefix :: bytes where
  "PartitionKeyPrefix = [0x70, 0x3A]"

definition FieldKeyMarker :: byte where
  "FieldKeyMarker = 0x66"

definition MakePartitionKey :: "u32 \<Rightarrow> bytes \<Rightarrow> bytes" where
  "MakePartitionKey partitionID key = PartitionKeyPrefix @ PutUint32 partitionID @ key"

definition ParsePartitionKey :: "bytes \<Rightarrow> err + u32 \<times> bytes" where
  "ParsePartitionKey storageKey =
     (let prefixLen = length PartitionKeyPrefix + 4 in
      if length storageKey < prefixLen then Inl ErrStorageKeyTooShort
      else Inr (Uint32 (drop (length PartitionKeyPrefix) storageKey), drop prefixLen storageKey))"

definition ParsePartitionKeyEx :: "bytes \<Rightarrow> err + u32 \<times> bytes \<times> bool" where
  "ParsePartitionKeyEx storageKey =
     (let prefixLen = length PartitionKeyPrefix + 4 in
      if length storageKey < prefixLen then Inl ErrStorageKeyTooShort
      else
        let partitionID = Uint32 (drop (length PartitionKeyPrefix) storageKey) in
        if length storageKey > prefixLen + 1 \<and> storageKey ! prefixLen = 0x3A \<and>
           storageKey ! (prefixLen + 1) = FieldKeyMarker
        then Inr (partitionID, drop prefixLen storageKey, True)
        else Inr (partitionID, drop prefixLen storageKey, False))"

definition GetPartitionRange :: "u32 \<Rightarrow> bytes \<times> bytes" where
  "GetPartitionRange partitionID =
     (PartitionKeyPrefix @ PutUint32 partitionID, PartitionKeyPrefix @ PutUint32 (partitionID + 1))"

section \<open>Field keys\<close>

record FieldKey =
  fk_PartitionID :: u32
  fk_PrimaryKey :: bytes
  fk_FieldName :: bytes

definition FieldKey_Encode :: "FieldKey \<Rightarrow> bytes" where
  "FieldKey_Encode fk =
     [0x70, 0x3A] @ PutUint32 (fk_PartitionID fk) @ [0x3A, FieldKeyMarker] @
     PutUint32 (of_nat (length (fk_PrimaryKey fk))) @ fk_PrimaryKey fk @ fk_FieldName fk"

text \<open>
  The end of the primary key is the 32-bit sum \<open>12 + pkLen\<close>, which wraps around for a
  length field of \<open>2\<^sup>3\<^sup>2 - 12\<close> or more; the slice \<open>key[12 : 12+pkLen]\<close> then panics.
\<close>

definition DecodeFieldKey :: "bytes \<Rightarrow> err + FieldKey" where
  "DecodeFieldKey key =
     (if length key < 12 then Inl ErrFieldKeyTooShort
      else if key ! 0 \<noteq> 0x70 \<or> key ! 1 \<noteq> 0x3A \<or> key ! 6 \<noteq> 0x3A \<or> key ! 7 \<noteq> FieldKeyMarker
      then Inl ErrFieldKeyFormat
      else
        let partitionID = Uint32 (drop 2 key);
            pkLen = Uint32 (drop 8 key);
            pkEnd = unat (12 + pkLen)
        in if length key < pkEnd then Inl ErrFieldKeyPkLen
           else if pkEnd < 12 then Inl GoPanic
           else Inr \<lparr>fk_PartitionID = partitionID,
                     fk_PrimaryKey = take (pkEnd - 12) (drop 12 key),
                     fk_FieldName = drop pkEnd key\<rparr>)"

definition MakeFieldKey :: "u32 \<Rightarrow> bytes \<Rightarrow> bytes \<Rightarrow> bytes" where
  "MakeFieldKey partitionID pk fieldName =
     FieldKey_Encode \<lparr>fk_PartitionID = partitionID, fk_PrimaryKey = pk, fk_FieldName = fieldName\<rparr>"

definition GetFieldPrefix :: "u32 \<Rightarrow> bytes \<Rightarrow> bytes" where
  "GetFieldPrefix partitionID pk =
     [0x70, 0x3A] @ PutUint32 partitionID @ [0x3A, FieldKeyMarker] @
     PutUint32 (of_nat (length pk)) @ pk"

definition GetPartitionFieldPrefix :: "u32 \<Rightarrow> bytes" where
  "GetPartitionFieldPrefix partitionID =
     [0x70, 0x3A] @ PutUint32 partitionID @ [0x3A, FieldKeyMarker]"

section \<open>Comparison\<close>

fun compareBytes :: "bytes \<Rightarrow> bytes \<Rightarrow> int" where
  "compareBytes (a # as) (b # bs) =
     (if a < b then -1 else if a > b then 1 else compareBytes as bs)"
| "compareBytes [] [] = 0"
| "compareBytes [] (b # bs) = -1"
| "compareBytes (a # as) [] = 1"

section \<open>Lemmas\<close>

lemmas key_defs = MakePartitionKey_def PartitionKeyPrefix_def MakeFieldKey_def FieldKey_Encode_def
  GetFieldPrefix_def GetPartitionFieldPrefix_def

lemma length_PartitionKeyPrefix [simp]: "length PartitionKeyPrefix = 2"
  by (simp add: PartitionKeyPrefix_def)

lemma compareBytes_order:
  "(compareBytes a b < 0 \<longleftrightarrow> a < b) \<and> (compareBytes a b = 0 \<longleftrightarrow> a = b) \<and>
   (compareBytes a b > 0 \<longleftrightarrow> b < a)"
  by (induction a b rule: compareBytes.induct) auto

lemma compareBytes_ge [simp]: "0 \<le> compareBytes a b \<longleftrightarrow> b \<le> a"
  using compareBytes_order [of a b] by (auto simp: not_less [symmetric] simp del: not_less)

lemma ParsePartitionKey_Make [simp]: "ParsePartitionKey (MakePartitionKey p k) = Inr (p, k)"
  by (simp add: ParsePartitionKey_def MakePartitionKey_def)

lemma MakePartitionKey_inject [simp]:
  "MakePartitionKey p k = MakePartitionKey p' k' \<longleftrightarrow> p = p' \<and> k = k'"
  by (auto simp: MakePartitionKey_def)

lemma length_MakePartitionKey [simp]: "length (MakePartitionKey p k) = 6 + length k"
  by (simp add: MakePartitionKey_def)

lemma fst_GetPartitionRange: "fst (GetPartitionRange p) = MakePartitionKey p []"
  by (simp add: GetPartitionRange_def MakePartitionKey_def)

lemma MakePartitionKey_append: "MakePartitionKey p (k @ r) = MakePartitionKey p k @ r"
  by (simp add: MakePartitionKey_def)

lemma MakeFieldKey_prefix: "MakeFieldKey p pk f = GetFieldPrefix p pk @ f"
  by (simp add: key_defs)

lemma prefix_GetFieldPrefix_iff:
  "prefix (GetFieldPrefix p pk) key \<longleftrightarrow> (\<exists>f. key = MakeFieldKey p pk f)"
  by (auto simp: MakeFieldKey_prefix prefix_def)

lemma MakeFieldKey_partition:
  "MakeFieldKey p pk f =
   MakePartitionKey p ([0x3A, FieldKeyMarker] @ PutUint32 (of_nat (length pk)) @ pk @ f)"
  by (simp add: key_defs)

lemma MakeFieldKey_inject:
  assumes "length pk < 2 ^ 32" and "length pk' < 2 ^ 32"
  shows "MakeFieldKey p pk f = MakeFieldKey p' pk' f' \<longleftrightarrow> p = p' \<and> pk = pk' \<and> f = f'"
proof
  assume "MakeFieldKey p pk f = MakeFieldKey p' pk' f'"
  then have *: "p = p'"
    "PutUint32 (of_nat (length pk)) @ pk @ f = PutUint32 (of_nat (length pk')) @ pk' @ f'"
    by (simp_all add: MakeFieldKey_partition)
  then have "(of_nat (length pk) :: u32) = of_nat (length pk')" "pk @ f = pk' @ f'"
    by auto
  moreover from this(1) have "length pk = length pk'"
    using assms by (metis unat_of_nat_u32)
  ultimately show "p = p' \<and> pk = pk' \<and> f = f'"
    using * by simp
qed simp

lemma DecodeFieldKey_layout:
  assumes "length a = 4" and "length b = 4"
  shows "DecodeFieldKey ([0x70, 0x3A] @ a @ [0x3A, FieldKeyMarker] @ b @ rest) =
     (let pkEnd = unat (12 + Uint32 b) in
      if 12 + length rest < pkEnd then Inl ErrFieldKeyPkLen
      else if pkEnd < 12 then Inl GoPanic
      else Inr \<lparr>fk_PartitionID = Uint32 a, fk_PrimaryKey = take (pkEnd - 12) rest,
                fk_FieldName = drop (pkEnd - 12) rest\<rparr>)"
proof -
  obtain a0 a1 a2 a3 where a: "a = [a0, a1, a2, a3]"
    using assms(1) by (auto simp: numeral_eq_Suc length_Suc_conv)
  obtain b0 b1 b2 b3 where b: "b = [b0, b1, b2, b3]"
    using assms(2) by (auto simp: numeral_eq_Suc length_Suc_conv)
  show ?thesis
    unfolding a b by (simp add: DecodeFieldKey_def Let_def Uint32_def drop_Cons' numeral_eq_Suc)
qed

lemma unat_12_add:
  fixes w :: u32
  shows "unat (12 + w) = (if unat w < 2 ^ 32 - 12 then 12 + unat w else unat w - (2 ^ 32 - 12))"
proof -
  have u: "unat (12 + w) = (12 + unat w) mod 2 ^ 32"
    by (simp add: unat_word_ariths)
  have b: "unat w < 2 ^ 32"
    using unat_bound [of w] by simp
  show ?thesis
  proof (cases "unat w < 2 ^ 32 - 12")
    case True
    then show ?thesis
      by (simp add: u)
  next
    case False
    then have "(12 + unat w) mod 2 ^ 32 = (12 + unat w - 2 ^ 32) mod 2 ^ 32"
      by (intro le_mod_geq) simp
    also have "\<dots> = 12 + unat w - 2 ^ 32"
      using b by simp
    finally show ?thesis
      using False by (simp add: u)
  qed
qed

lemma unat_12_add_less: "unat (12 + w :: u32) < 12 \<longleftrightarrow> 2 ^ 32 - 12 \<le> unat w"
proof -
  have "unat w < 2 ^ 32"
    using unat_bound [of w] by simp
  then have "unat w - (2 ^ 32 - 12) < 12"
    by linarith
  then show ?thesis
    by (simp add: unat_12_add)
qed

lemma DecodeFieldKey_Make:
  assumes "length pk < 2 ^ 32 - 12"
  shows "DecodeFieldKey (MakeFieldKey p pk f) =
     Inr \<lparr>fk_PartitionID = p, fk_PrimaryKey = pk, fk_FieldName = f\<rparr>"
proof -
  have "MakeFieldKey p pk f =
      [0x70, 0x3A] @ PutUint32 p @ [0x3A, FieldKeyMarker] @ PutUint32 (of_nat (length pk)) @ pk @ f"
    by (simp add: key_defs)
  moreover have "Uint32 (PutUint32 x) = x" for x
    using Uint32_PutUint32 [of x "[]"] by simp
  ultimately show ?thesis
    using assms
    by (simp only: DecodeFieldKey_layout length_PutUint Let_def unat_12_add) simp
qed

text \<open>Every key of at least twelve bytes with the right marks splits along the layout.\<close>

lemma field_key_split:
  assumes "12 \<le> length key" and "key ! 0 = 0x70" and "key ! 1 = 0x3A" and "key ! 6 = 0x3A"
    and "key ! 7 = FieldKeyMarker"
  obtains a b rest where "length a = 4" and "length b = 4"
    and "key = [0x70, 0x3A] @ a @ [0x3A, FieldKeyMarker] @ b @ rest"
proof -
  have len: "length (take 12 key) = Suc (Suc (Suc (Suc (Suc (Suc (Suc (Suc (Suc (Suc (Suc (Suc 0)))))))))))"
    using assms(1) by simp
  then obtain k0 k1 a0 a1 a2 a3 k6 k7 b0 b1 b2 b3
    where t: "take 12 key = [k0, k1, a0, a1, a2, a3, k6, k7, b0, b1, b2, b3]"
    by (auto simp only: length_Suc_conv length_0_conv)
  then have key: "key = [k0, k1, a0, a1, a2, a3, k6, k7, b0, b1, b2, b3] @ drop 12 key"
    by (metis append_take_drop_id)
  have "key ! n = [k0, k1, a0, a1, a2, a3, k6, k7, b0, b1, b2, b3] ! n" if "n < 12" for n
    using that by (metis nth_take t)
  from this [of 0] this [of 1] this [of 6] this [of 7] assms
  have "k0 = 0x70" "k1 = 0x3A" "k6 = 0x3A" "k7 = FieldKeyMarker"
    by simp_all
  with key have "key = [0x70, 0x3A] @ [a0, a1, a2, a3] @ [0x3A, FieldKeyMarker] @ [b0, b1, b2, b3] @ drop 12 key"
    by simp
  then show thesis
    by (rule that [rotated 2]) simp_all
qed

lemma PutUint32_Uint32: "length b = 4 \<Longrightarrow> PutUint32 (Uint32 b) = b"
proof -
  assume len: "length b = 4"
  have be_unbe: "be (length bs) (unbe bs) = bs" for bs
  proof (induction bs rule: rev_induct)
    case Nil
    show ?case by simp
  next
    case (snoc x xs)
    have "(256 * unbe xs + unat x) div 256 = unbe xs"
      using unat_bound [of x] by simp
    moreover have "(of_nat (256 * unbe xs + unat x) :: byte) = x"
    proof -
      have "(of_nat 256 :: byte) = 0" and "(of_nat (unat x) :: byte) = x"
        by simp_all
      then show ?thesis
        by (simp only: of_nat_add of_nat_mult mult_zero_left add_0_left)
    qed
    ultimately show ?case
      using snoc by simp
  qed
  have "unat (Uint32 b) = unbe b"
    using unbe_less [of b] len by (simp add: Uint32_def unat_of_nat)
  then show ?thesis
    using be_unbe [of b] len by (simp add: PutUint32_def)
qed

section \<open>Properties\<close>

lemma interval_prefix:
  assumes len: "length s = length e" "length s \<le> length k"
    and succ: "unbe e = Suc (unbe s)"
  shows "s \<le> k \<and> k < e \<longleftrightarrow> prefix s k"
proof -
  define t where "t = take (length s) k"
  have lt: "length t = length s" and k: "k = t @ drop (length s) k"
    using len by (simp_all add: t_def)
  have le: "s \<le> k \<longleftrightarrow> s \<le> t"
  proof (cases "t = s")
    case True
    with k show ?thesis
      by (metis order_refl prefixI prefix_le)
  next
    case False
    with lt have "t < s \<longleftrightarrow> k < s"
      using append_less_append_len [of t s "drop (length s) k" "[]"] k by simp
    then show ?thesis
      by (metis not_less)
  qed
  have less: "k < e \<longleftrightarrow> t < e"
  proof (cases "t = e")
    case True
    with k show ?thesis
      by (metis less_irrefl not_less prefixI prefix_le)
  next
    case False
    with lt len show ?thesis
      using append_less_append_len [of t e "drop (length s) k" "[]"] k by simp
  qed
  have inj: "unbe t = unbe s \<Longrightarrow> t = s"
    using lt by (metis less_iff_unbe less_irrefl linorder_neqE)
  have "s \<le> t \<and> t < e \<longleftrightarrow> t = s"
    using less_iff_unbe [of t e] less_iff_unbe [of t s] lt len succ inj
    by (auto simp: not_less [symmetric] simp del: not_less)
  with le less k show ?thesis
    by (metis append_eq_conv_conj lt prefix_def)
qed

lemma partition_range_iff:
  assumes "GetPartitionRange partitionID = (start, stop)"
    and "partitionID \<noteq> -1" and "6 \<le> length key"
  shows "start \<le> key \<and> key < stop \<longleftrightarrow> (\<exists>k. key = MakePartitionKey partitionID k)"
proof -
  let ?P = PartitionKeyPrefix
  have s: "start = ?P @ PutUint32 partitionID" and e: "stop = ?P @ PutUint32 (partitionID + 1)"
    using assms(1) by (simp_all add: GetPartitionRange_def)
  have unbe_Put: "unbe (PutUint32 v) = unat v" for v
    using unat_bound [of v] by (simp add: PutUint32_def unbe_be)
  have suc: "unat (partitionID + 1) = Suc (unat partitionID)"
    using assms(2) by (rule unat_add_1)
  have "unbe stop = Suc (unbe start)"
    by (simp add: s e PartitionKeyPrefix_def unbe_Cons unbe_Put suc)
  then have "start \<le> key \<and> key < stop \<longleftrightarrow> prefix start key"
    by (rule interval_prefix [rotated 2]) (use assms(3) in \<open>simp_all add: s e\<close>)
  then show ?thesis
    by (auto simp: s prefix_def MakePartitionKey_def)
qed

text \<open>
  C30. A partition's half-open key range holds exactly the keys of that partition: a key of
  at least six bytes lies in the range of \<open>GetPartitionRange\<close> iff it is
  \<open>MakePartitionKey\<close> of that partition and some suffix. The one partition excluded is
  the largest 32-bit id, where the upper bound wraps around.
\<close>

theorem GetPartitionRange_exact:
  assumes "GetPartitionRange partitionID = (start, stop)"
    and "partitionID \<noteq> -1" and "6 \<le> length key"
  shows "start \<le> key \<and> key < stop \<longleftrightarrow> (\<exists>k. key = MakePartitionKey partitionID k)"
  using assms by (rule partition_range_iff)

theorem GetPartitionRange_exact_witness:
  "fst (GetPartitionRange 7) \<le> MakePartitionKey 7 [1] \<and>
   MakePartitionKey 7 [1] < snd (GetPartitionRange 7)"
proof -
  have "GetPartitionRange 7 = (fst (GetPartitionRange 7), snd (GetPartitionRange 7))"
    and "(7 :: u32) \<noteq> -1" and "6 \<le> length (MakePartitionKey 7 [1])"
    by simp_all
  from GetPartitionRange_exact [OF this] show ?thesis
    by blast
qed

text \<open>
  C32. \<open>DecodeFieldKey\<close> and \<open>FieldKey.Encode\<close> are inverse: decoding an encoded key whose
  primary key is shorter than \<open>2\<^sup>3\<^sup>2 - 12\<close> bytes gives the field key back, and every key
  that decodes is the encoding of its result.
\<close>

theorem FieldKey_roundtrip:
  "(length (fk_PrimaryKey fk) < 2 ^ 32 - 12 \<longrightarrow> DecodeFieldKey (FieldKey_Encode fk) = Inr fk) \<and>
   (DecodeFieldKey key = Inr fk \<longrightarrow> FieldKey_Encode fk = key)"
proof (intro conjI impI)
  assume "length (fk_PrimaryKey fk) < 2 ^ 32 - 12"
  from DecodeFieldKey_Make [OF this, of "fk_PartitionID fk" "fk_FieldName fk"]
  show "DecodeFieldKey (FieldKey_Encode fk) = Inr fk"
    by (cases fk) (simp add: MakeFieldKey_def)
next
  assume dec: "DecodeFieldKey key = Inr fk"
  then have "12 \<le> length key" "key ! 0 = 0x70" "key ! 1 = 0x3A" "key ! 6 = 0x3A"
    "key ! 7 = FieldKeyMarker"
    by (auto simp: DecodeFieldKey_def split: if_splits)
  then obtain a b rest where ab: "length a = 4" "length b = 4"
    and key: "key = [0x70, 0x3A] @ a @ [0x3A, FieldKeyMarker] @ b @ rest"
    by (rule field_key_split)
  define n where "n = unat (12 + Uint32 b)"
  from dec have n: "\<not> 12 + length rest < n" "\<not> n < 12"
    and fk: "fk = \<lparr>fk_PartitionID = Uint32 a, fk_PrimaryKey = take (n - 12) rest,
              fk_FieldName = drop (n - 12) rest\<rparr>"
    unfolding key DecodeFieldKey_layout [OF ab] Let_def n_def [symmetric]
    by (auto split: if_splits)
  have "n - 12 = unat (Uint32 b)"
    using n(2) unat_12_add_less [of "Uint32 b"] by (simp add: n_def unat_12_add)
  then have "(of_nat (length (take (n - 12) rest)) :: u32) = Uint32 b"
    using n by simp
  then show "FieldKey_Encode fk = key"
    by (simp add: fk key FieldKey_Encode_def PutUint32_Uint32 ab)
qed

theorem FieldKey_roundtrip_witness:
  "DecodeFieldKey (FieldKey_Encode \<lparr>fk_PartitionID = 5, fk_PrimaryKey = [1, 2], fk_FieldName = [3]\<rparr>) =
   Inr \<lparr>fk_PartitionID = 5, fk_PrimaryKey = [1, 2], fk_FieldName = [3]\<rparr>"
  using FieldKey_roundtrip [of "\<lparr>fk_PartitionID = 5, fk_PrimaryKey = [1, 2], fk_FieldName = [3]\<rparr>"]
  by simp

text \<open>
  Exactly which keys make \<open>DecodeFieldKey\<close> panic instead of returning an error: those
  with the marks of a field key and a length field of at least \<open>2\<^sup>3\<^sup>2 - 12\<close>, whatever
  follows. A regular key that a client chooses can have this form.
\<close>

theorem DecodeFieldKey_panics:
  "DecodeFieldKey key = Inl GoPanic \<longleftrightarrow>
   (\<exists>partitionID b rest. length b = 4 \<and> 2 ^ 32 - 12 \<le> unat (Uint32 b) \<and>
      key = MakePartitionKey partitionID ([0x3A, FieldKeyMarker] @ b @ rest))"
  (is "?panic \<longleftrightarrow> ?form")
proof -
  show ?thesis
  proof
    assume p: ?panic
    then have "12 \<le> length key" "key ! 0 = 0x70" "key ! 1 = 0x3A" "key ! 6 = 0x3A"
      "key ! 7 = FieldKeyMarker"
      by (auto simp: DecodeFieldKey_def split: if_splits)
    then obtain a b rest where ab: "length a = 4" "length b = 4"
      and key: "key = [0x70, 0x3A] @ a @ [0x3A, FieldKeyMarker] @ b @ rest"
      by (rule field_key_split)
    from p have "unat (12 + Uint32 b) < 12"
      unfolding key DecodeFieldKey_layout [OF ab] by (auto simp: Let_def split: if_splits)
    moreover have "key = MakePartitionKey (Uint32 a) ([0x3A, FieldKeyMarker] @ b @ rest)"
      by (simp add: key MakePartitionKey_def PartitionKeyPrefix_def PutUint32_Uint32 ab)
    ultimately show ?form
      using unat_12_add_less ab(2) by blast
  next
    assume ?form
    then obtain p b rest where b: "length b = 4" "2 ^ 32 - 12 \<le> unat (Uint32 b)"
      and key: "key = [0x70, 0x3A] @ PutUint32 p @ [0x3A, FieldKeyMarker] @ b @ rest"
      by (auto simp: MakePartitionKey_def PartitionKeyPrefix_def)
    from b(2) have "unat (12 + Uint32 b) < 12"
      by (simp only: unat_12_add_less)
    then show ?panic
      unfolding key by (simp only: DecodeFieldKey_layout [OF _ b(1)] length_PutUint Let_def) simp
  qed
qed

text \<open>
  A regular key and a field key coincide exactly when they are in the same partition
  and the client's key itself spells the tail of the field key, so the two name spaces
  overlap on the client keys that begin with \<open>":f"\<close> and a length; \<open>ParsePartitionKeyEx\<close>
  reports a regular key as a field key iff it begins with \<open>":f"\<close>.
\<close>

theorem regular_field_collision:
  "(MakePartitionKey p k = MakeFieldKey p' pk f \<longleftrightarrow>
      p = p' \<and> k = [0x3A, FieldKeyMarker] @ PutUint32 (of_nat (length pk)) @ pk @ f) \<and>
   ParsePartitionKeyEx (MakePartitionKey p k) =
      Inr (p, k, prefix [0x3A, FieldKeyMarker] k)"
proof -
  have "prefix [0x3A, FieldKeyMarker] k \<longleftrightarrow> length k > 1 \<and> k ! 0 = 0x3A \<and> k ! 1 = FieldKeyMarker"
    by (cases k; cases "tl k") auto
  then show ?thesis
    by (auto simp: MakeFieldKey_partition ParsePartitionKeyEx_def MakePartitionKey_def
        PartitionKeyPrefix_def nth_append Let_def)
qed

end
