(* ===== verification/Rocks.thy ===== *)
theory Rocks
  imports Prelude "HOL-Library.AList"
begin

text \<open>
  The storage engine. RocksDB itself (the package \<open>grocksdb\<close>) is not part of the
  repository: it is a parameter of every definition that uses it, a record of the
  operations the code calls over an abstract database state \<open>'db\<close>. The locale
  \<open>rocks_engine\<close> states what the code relies on: the operations act on an ordered finite
  map, a failed write leaves it as it was, and an iterator delivers the entries from the
  sought key on, in key order. The wrapper of \<open>src/pkg/storage/rocksdb.go\<close> is defined on
  top of it.
\<close>

section \<open>The engine's operations\<close>

datatype batch_op = BatchPut_op bytes bytes | BatchDelete_op bytes

text \<open>
  \<open>eng_Seek db k\<close> is a run of a fresh iterator: the entries that \<open>Seek(k)\<close> and repeated
  \<open>Next()\<close> deliver while \<open>Valid()\<close>, and the final \<open>Err()\<close>. Every write returns the
  state and the error it reported, if any.
\<close>

record 'db engine =
  eng_Get :: "'db \<Rightarrow> bytes \<Rightarrow> err + bytes option"
  eng_Put :: "'db \<Rightarrow> bytes \<Rightarrow> bytes \<Rightarrow> 'db \<times> err option"
  eng_Delete :: "'db \<Rightarrow> bytes \<Rightarrow> 'db \<times> err option"
  eng_Write :: "'db \<Rightarrow> batch_op list \<Rightarrow> 'db \<times> err option"
  eng_Seek :: "'db \<Rightarrow> bytes \<Rightarrow> (bytes \<times> bytes) list \<times> err option"

text \<open>
  \<open>iter.Err()\<close> after a loop that reads entries while \<open>P\<close> holds: the error of the run
  counts only if the loop consumed all of it.
\<close>

definition iter_Err :: "(bytes \<Rightarrow> bool) \<Rightarrow> (bytes \<times> bytes) list \<times> err option \<Rightarrow> err option" where
  "iter_Err P run = (if list_all (\<lambda>e. P (fst e)) (fst run) then snd run else None)"

type_synonym contents = "bytes \<rightharpoonup> bytes"

fun batch_step :: "batch_op \<Rightarrow> contents \<Rightarrow> contents" where
  "batch_step (BatchPut_op k v) m = m(k \<mapsto> v)"
| "batch_step (BatchDelete_op k) m = m(k := None)"

text \<open>The entries of a map from a key on, in key order.\<close>

definition entries_from :: "contents \<Rightarrow> bytes \<Rightarrow> (bytes \<times> bytes) list" where
  "entries_from m k = map (\<lambda>x. (x, the (m x))) (sorted_list_of_set {x \<in> dom m. k \<le> x})"

lemma map_fst_entries_from: "map fst (entries_from m k) = sorted_list_of_set {x \<in> dom m. k \<le> x}"
  by (simp add: entries_from_def comp_def)

lemma sorted_entries_from: "sorted (map fst (entries_from m k))"
  by (simp add: map_fst_entries_from)

lemma distinct_entries_from: "distinct (map fst (entries_from m k))"
  by (simp add: map_fst_entries_from)

lemma set_entries_from:
  assumes "finite (dom m)"
  shows "set (entries_from m k) = {(x, v). m x = Some v \<and> k \<le> x}"
proof -
  have "finite {x \<in> dom m. k \<le> x}"
    using assms by simp
  then show ?thesis
    by (force simp: entries_from_def)
qed

lemma map_of_entries_from:
  assumes "finite (dom m)"
  shows "map_of (entries_from m k) x = (if k \<le> x then m x else None)"
proof -
  have "map_of (entries_from m k) x = Some v \<longleftrightarrow> m x = Some v \<and> k \<le> x" for v
    using assms by (simp add: distinct_entries_from set_entries_from)
  then show ?thesis
    by (metis not_Some_eq)
qed

text \<open>
  A scan that stops at the first key outside a downward closed \<open>P\<close> has seen all keys in
  \<open>P\<close>. The keys with a given prefix are such a set.
\<close>

lemma entries_from_takeWhile:
  assumes "\<And>x y. x \<in> dom m \<Longrightarrow> y \<in> dom m \<Longrightarrow> k \<le> x \<Longrightarrow> x \<le> y \<Longrightarrow> P y \<Longrightarrow> P x"
  shows "takeWhile (\<lambda>e. P (fst e)) (entries_from m k) = filter (\<lambda>e. P (fst e)) (entries_from m k)"
proof -
  let ?S = "{x \<in> dom m. k \<le> x}"
  have S: "x \<in> set (sorted_list_of_set ?S) \<Longrightarrow> x \<in> dom m \<and> k \<le> x" for x
    by (cases "finite ?S") auto
  have "takeWhile P (sorted_list_of_set ?S) = filter P (sorted_list_of_set ?S)"
  proof (rule takeWhile_eq_filter_sorted)
    fix x y
    assume "x \<in> set (sorted_list_of_set ?S)" "y \<in> set (sorted_list_of_set ?S)" "x \<le> y" "P y"
    then show "P x"
      using S [of x] S [of y] by (intro assms [of x y]) simp_all
  qed simp
  then show ?thesis
    by (simp add: entries_from_def takeWhile_map filter_map comp_def)
qed

lemma entries_from_prefix:
  "takeWhile (\<lambda>e. prefix p (fst e)) (entries_from m p) =
   filter (\<lambda>e. prefix p (fst e)) (entries_from m p)"
  by (rule entries_from_takeWhile) (erule (2) prefix_convex)

lemma set_entries_from_prefix:
  assumes "finite (dom m)"
  shows "set (takeWhile (\<lambda>e. prefix p (fst e)) (entries_from m p)) =
         {(x, v). m x = Some v \<and> prefix p x}"
  using assms by (auto simp: entries_from_prefix set_entries_from dest: prefix_le)

section \<open>What the code relies on\<close>

locale rocks_engine =
  fixes eng :: "('db, 'x) engine_scheme"
    and view :: "'db \<Rightarrow> contents"
  assumes finite_view: "finite (dom (view db))"
    and Get_ok: "eng_Get eng db k = Inr r \<Longrightarrow> r = view db k"
    and Put_ok: "eng_Put eng db k v = (db', None) \<Longrightarrow> view db' = (view db)(k \<mapsto> v)"
    and Put_failed: "eng_Put eng db k v = (db', Some e) \<Longrightarrow> view db' = view db"
    and Delete_ok: "eng_Delete eng db k = (db', None) \<Longrightarrow> view db' = (view db)(k := None)"
    and Delete_failed: "eng_Delete eng db k = (db', Some e) \<Longrightarrow> view db' = view db"
    and Write_ok: "eng_Write eng db ops = (db', None) \<Longrightarrow> view db' = fold batch_step ops (view db)"
    and Write_failed: "eng_Write eng db ops = (db', Some e) \<Longrightarrow> view db' = view db"
    and Seek_ok: "eng_Seek eng db k = (es, None) \<Longrightarrow> es = entries_from (view db) k"
    and Seek_prefix: "eng_Seek eng db k = (es, er) \<Longrightarrow> prefix es (entries_from (view db) k)"

section \<open>The wrapper, \<open>src/pkg/storage/rocksdb.go\<close>\<close>

text \<open>\<open>Get\<close> returns the value and whether it was found; an absent key is no error.\<close>

definition RocksDB_Get :: "('db, 'x) engine_scheme \<Rightarrow> 'db \<Rightarrow> bytes \<Rightarrow> err + bytes option" where
  "RocksDB_Get eng db key = eng_Get eng db key"

definition RocksDB_Put :: "('db, 'x) engine_scheme \<Rightarrow> 'db \<Rightarrow> bytes \<Rightarrow> bytes \<Rightarrow> 'db \<times> err option" where
  "RocksDB_Put eng db key val = eng_Put eng db key val"

definition RocksDB_Delete :: "('db, 'x) engine_scheme \<Rightarrow> 'db \<Rightarrow> bytes \<Rightarrow> 'db \<times> err option" where
  "RocksDB_Delete eng db key = eng_Delete eng db key"

text \<open>\<open>KeyValueItem\<close> of \<open>types.go\<close>, and the atomic batch of puts.\<close>

record KeyValueItem =
  kv_Key :: bytes
  kv_Value :: bytes

definition RocksDB_BatchPut ::
    "('db, 'x) engine_scheme \<Rightarrow> 'db \<Rightarrow> KeyValueItem list \<Rightarrow> 'db \<times> err option" where
  "RocksDB_BatchPut eng db items =
     eng_Write eng db (map (\<lambda>item. BatchPut_op (kv_Key item) (kv_Value item)) items)"

lemmas RocksDB_defs = RocksDB_Get_def RocksDB_Put_def RocksDB_Delete_def RocksDB_BatchPut_def

lemma fold_batch_puts:
  "fold batch_step (map (\<lambda>item. BatchPut_op (kv_Key item) (kv_Value item)) items) m =
   m ++ map_of (rev (map (\<lambda>item. (kv_Key item, kv_Value item)) items))"
  by (induction items arbitrary: m) (auto simp: map_add_upd_left fun_eq_iff map_add_def split: option.splits)

lemma fold_batch_deletes:
  "fold batch_step (map BatchDelete_op ks) m = m |` (- set ks)"
  by (induction ks arbitrary: m) (auto simp: restrict_map_def fun_eq_iff)

context rocks_engine
begin

lemma Get_found [view_simps]: "RocksDB_Get eng db k = Inr r \<Longrightarrow> r = view db k"
  by (simp add: RocksDB_Get_def Get_ok)

lemma view_Put [view_simps]:
  "RocksDB_Put eng db k v = (db', e) \<Longrightarrow>
   view db' = (if e = None then (view db)(k \<mapsto> v) else view db)"
  by (cases e) (auto simp: RocksDB_Put_def Put_ok Put_failed)

lemma view_Delete [view_simps]:
  "RocksDB_Delete eng db k = (db', e) \<Longrightarrow>
   view db' = (if e = None then (view db)(k := None) else view db)"
  by (cases e) (auto simp: RocksDB_Delete_def Delete_ok Delete_failed)

lemma view_Write [view_simps]:
  "eng_Write eng db ops = (db', e) \<Longrightarrow>
   view db' = (if e = None then fold batch_step ops (view db) else view db)"
  by (cases e) (auto simp: Write_ok Write_failed)

lemma view_BatchPut [view_simps]:
  "RocksDB_BatchPut eng db items = (db', e) \<Longrightarrow>
   view db' = (if e = None
     then view db ++ map_of (rev (map (\<lambda>item. (kv_Key item, kv_Value item)) items))
     else view db)"
  by (auto simp: RocksDB_BatchPut_def view_Write fold_batch_puts)

text \<open>A scan without an error that stops at the first key outside \<open>P\<close> read the true entries.\<close>

lemma scan_ok:
  assumes "iter_Err P (eng_Seek eng db k) = None"
  shows "takeWhile (\<lambda>e. P (fst e)) (fst (eng_Seek eng db k)) =
         takeWhile (\<lambda>e. P (fst e)) (entries_from (view db) k)"
proof -
  obtain es e where run: "eng_Seek eng db k = (es, e)"
    by force
  show ?thesis
  proof (cases "list_all (\<lambda>e. P (fst e)) es")
    case True
    with assms run show ?thesis
      by (simp add: iter_Err_def flip: Seek_ok)
  next
    case False
    then obtain x where "x \<in> set es" "\<not> P (fst x)"
      by (auto simp: list_all_iff)
    moreover obtain r where "entries_from (view db) k = es @ r"
      using Seek_prefix [OF run] by (auto simp: prefix_def)
    ultimately show ?thesis
      using run by (simp add: takeWhile_append1)
  qed
qed

end

text \<open>Filling a Go map entry by entry.\<close>

lemma map_of_fold_update: "map_of (fold (\<lambda>(k, v). AList.update k v) kvs acc) = map_of acc ++ map_of (rev kvs)"
  by (induction kvs arbitrary: acc) (auto simp: update_conv' map_add_upd_left fun_eq_iff map_add_def split: option.splits)

lemma distinct_fold_update:
  "distinct (map fst acc) \<Longrightarrow> distinct (map fst (fold (\<lambda>(k, v). AList.update k v) kvs acc))"
  by (induction kvs arbitrary: acc) (auto simp: AList.distinct_update)

section \<open>An engine in memory\<close>

text \<open>
  An association list with the operations above is an engine: the contract can be met, and
  the closed evaluations of the development run on it. \<open>mem_engine None\<close> never fails;
  \<open>mem_engine (Some e)\<close> is read-only and reports \<open>e\<close> for every write.
\<close>

type_synonym mem = "(bytes \<times> bytes) list"

fun mem_apply :: "batch_op \<Rightarrow> mem \<Rightarrow> mem" where
  "mem_apply (BatchPut_op k v) db = AList.update k v db"
| "mem_apply (BatchDelete_op k) db = AList.delete k db"

definition mem_write :: "err option \<Rightarrow> mem \<Rightarrow> batch_op list \<Rightarrow> mem \<times> err option" where
  "mem_write fault db ops =
     (case fault of None \<Rightarrow> (fold mem_apply ops db, None) | Some e \<Rightarrow> (db, Some e))"

definition mem_seek :: "mem \<Rightarrow> bytes \<Rightarrow> (bytes \<times> bytes) list" where
  "mem_seek db k = map (\<lambda>x. (x, the (map_of db x))) (sort (remdups (filter ((\<le>) k) (map fst db))))"

definition mem_engine :: "err option \<Rightarrow> mem engine" where
  "mem_engine fault =
     \<lparr>eng_Get = (\<lambda>db k. Inr (map_of db k)),
      eng_Put = (\<lambda>db k v. mem_write fault db [BatchPut_op k v]),
      eng_Delete = (\<lambda>db k. mem_write fault db [BatchDelete_op k]),
      eng_Write = mem_write fault,
      eng_Seek = (\<lambda>db k. (mem_seek db k, None))\<rparr>"

lemma map_of_mem_apply: "map_of (mem_apply x db) = batch_step x (map_of db)"
  by (cases x) (simp_all add: update_conv' delete_conv')

lemma map_of_fold_mem_apply: "map_of (fold mem_apply ops db) = fold batch_step ops (map_of db)"
  by (induction ops arbitrary: db) (auto simp: map_of_mem_apply)

lemma mem_seek_entries: "mem_seek db k = entries_from (map_of db) k"
proof -
  have *: "set (filter ((\<le>) k) (map fst db)) = {x \<in> dom (map_of db). k \<le> x}"
    by (simp only: set_filter set_map dom_map_of_conv_image_fst)
  show ?thesis
    unfolding mem_seek_def entries_from_def * [symmetric] sorted_list_of_set_sort_remdups ..
qed

interpretation mem: rocks_engine "mem_engine fault" map_of
  by unfold_locales
    (auto simp: mem_engine_def mem_write_def map_of_fold_mem_apply mem_seek_entries
       finite_dom_map_of update_conv' delete_conv' split: option.splits)

lemma iter_Err_mem [simp]: "iter_Err P (eng_Seek (mem_engine fault) db k) = None"
  by (simp add: iter_Err_def mem_engine_def)

end
