(* ===== verification/Field_Storage.thy ===== *)
theory Field_Storage
  imports Keys Rocks
begin

text \<open>
  Field-level storage, \<open>src/pkg/storage/field_storage.go\<close>: the codec of field batches that
  goes into the command log, the operations of \<open>FieldStorage\<close> on the database, and
  attribute groups with their codec and \<open>GroupedFieldStorage\<close>.

  A Go map that is iterated or measured is an association list with distinct keys; the
  operations that range over one take the list in the order of the iteration.
\<close>

section \<open>Field batches\<close>

record FieldUpdate =
  fu_FieldName :: bytes
  fu_Value :: bytes
  fu_IsDelete :: bool

record FieldBatch =
  fb_PartitionID :: u32
  fb_PrimaryKey :: bytes
  fb_Updates :: "FieldUpdate list"

definition FieldBatchFormatVersion :: byte where
  "FieldBatchFormatVersion = 1"

definition FieldUpdate_encode :: "FieldUpdate \<Rightarrow> bytes" where
  "FieldUpdate_encode update =
     PutUint16 (of_nat (length (fu_FieldName update))) @ fu_FieldName update @
     [if fu_IsDelete update then 1 else 0] @
     PutUint32 (of_nat (length (fu_Value update))) @ fu_Value update"

definition FieldBatch_Encode :: "FieldBatch \<Rightarrow> bytes" where
  "FieldBatch_Encode fb =
     [FieldBatchFormatVersion] @ PutUint32 (fb_PartitionID fb) @
     PutUint32 (of_nat (length (fb_PrimaryKey fb))) @ fb_PrimaryKey fb @
     PutUint32 (of_nat (length (fb_Updates fb))) @
     concat (map FieldUpdate_encode (fb_Updates fb))"

text \<open>One round of the loop of \<open>decodeFieldBatchContent\<close>.\<close>

definition FieldUpdate_decode :: "bytes \<Rightarrow> err + FieldUpdate \<times> bytes" where
  "FieldUpdate_decode buf =
     (case read_u16 buf of Inl e \<Rightarrow> Inl e | Inr (fieldLen, buf) \<Rightarrow>
      (case reader_Read (unat fieldLen) buf of Inl e \<Rightarrow> Inl e | Inr (fieldBytes, buf) \<Rightarrow>
       (case reader_ReadByte buf of Inl e \<Rightarrow> Inl e | Inr (isDeleteByte, buf) \<Rightarrow>
        (case read_u32 buf of Inl e \<Rightarrow> Inl e | Inr (valueLen, buf) \<Rightarrow>
         (if valueLen > 0 then
            (case reader_Read (unat valueLen) buf of Inl e \<Rightarrow> Inl e | Inr (val, buf) \<Rightarrow>
               Inr (\<lparr>fu_FieldName = fieldBytes, fu_Value = val, fu_IsDelete = (isDeleteByte = 1)\<rparr>, buf))
          else
            Inr (\<lparr>fu_FieldName = fieldBytes, fu_Value = [], fu_IsDelete = (isDeleteByte = 1)\<rparr>, buf))))))"

definition decodeFieldBatchContent :: "bytes \<Rightarrow> err + FieldBatch" where
  "decodeFieldBatchContent buf =
     (case read_u32 buf of Inl e \<Rightarrow> Inl e | Inr (partitionID, buf) \<Rightarrow>
      (case read_u32 buf of Inl e \<Rightarrow> Inl e | Inr (pkLen, buf) \<Rightarrow>
       (case reader_Read (unat pkLen) buf of Inl e \<Rightarrow> Inl e | Inr (pk, buf) \<Rightarrow>
        (case read_u32 buf of Inl e \<Rightarrow> Inl e | Inr (count, buf) \<Rightarrow>
         (case decode_n FieldUpdate_decode (unat count) buf of Inl e \<Rightarrow> Inl e | Inr (updates, _) \<Rightarrow>
            Inr \<lparr>fb_PartitionID = partitionID, fb_PrimaryKey = pk, fb_Updates = updates\<rparr>)))))"

definition decodeFieldBatchV1 :: "bytes \<Rightarrow> err + FieldBatch" where
  "decodeFieldBatchV1 data =
     (if length data < 12 then Inl ErrFieldBatchTooShort else decodeFieldBatchContent data)"

definition decodeFieldBatchLegacy :: "bytes \<Rightarrow> err + FieldBatch" where
  "decodeFieldBatchLegacy data = decodeFieldBatchContent data"

definition DecodeFieldBatch :: "bytes \<Rightarrow> err + FieldBatch" where
  "DecodeFieldBatch data =
     (case data of
        [] \<Rightarrow> Inl ErrFieldBatchTooShort
      | version # rest \<Rightarrow>
          (if version = FieldBatchFormatVersion then decodeFieldBatchV1 rest
           else if 12 \<le> length data then decodeFieldBatchLegacy data
           else Inl (ErrFieldBatchVersion version)))"

text \<open>The sizes that the 16- and 32-bit length fields can hold.\<close>

definition FieldUpdate_fits :: "FieldUpdate \<Rightarrow> bool" where
  "FieldUpdate_fits u \<longleftrightarrow> length (fu_FieldName u) < 2 ^ 16 \<and> length (fu_Value u) < 2 ^ 32"

definition FieldBatch_fits :: "FieldBatch \<Rightarrow> bool" where
  "FieldBatch_fits fb \<longleftrightarrow> length (fb_PrimaryKey fb) < 2 ^ 32 \<and> length (fb_Updates fb) < 2 ^ 32 \<and>
     list_all FieldUpdate_fits (fb_Updates fb)"

section \<open>Field storage\<close>

text \<open>The operations of a \<open>FieldStorage\<close>: a database and the partition it writes to.\<close>

definition GetField :: "('db, 'x) engine_scheme \<Rightarrow> 'db \<Rightarrow> u32 \<Rightarrow> bytes \<Rightarrow> bytes \<Rightarrow> err + bytes option" where
  "GetField eng db partitionID pk fieldName =
     RocksDB_Get eng db (MakeFieldKey partitionID pk fieldName)"

definition SetField ::
    "('db, 'x) engine_scheme \<Rightarrow> 'db \<Rightarrow> u32 \<Rightarrow> bytes \<Rightarrow> bytes \<Rightarrow> bytes \<Rightarrow> 'db \<times> err option" where
  "SetField eng db partitionID pk fieldName val =
     RocksDB_Put eng db (MakeFieldKey partitionID pk fieldName) val"

definition DeleteField ::
    "('db, 'x) engine_scheme \<Rightarrow> 'db \<Rightarrow> u32 \<Rightarrow> bytes \<Rightarrow> bytes \<Rightarrow> 'db \<times> err option" where
  "DeleteField eng db partitionID pk fieldName =
     RocksDB_Delete eng db (MakeFieldKey partitionID pk fieldName)"

text \<open>A malformed key inside the scan is skipped; a panic of the decoder ends the call.\<close>

fun GetAllFields_loop ::
    "u32 \<Rightarrow> bytes \<Rightarrow> (bytes \<times> bytes) list \<Rightarrow> (bytes \<times> bytes) list \<Rightarrow> err + (bytes \<times> bytes) list" where
  "GetAllFields_loop partitionID pk [] fieldMap = Inr fieldMap"
| "GetAllFields_loop partitionID pk ((key, val) # es) fieldMap =
     (if \<not> prefix (GetFieldPrefix partitionID pk) key then Inr fieldMap
      else
        case DecodeFieldKey key of
          Inl e \<Rightarrow> if e = GoPanic then Inl GoPanic else GetAllFields_loop partitionID pk es fieldMap
        | Inr fk \<Rightarrow>
            if fk_PartitionID fk \<noteq> partitionID \<or> fk_PrimaryKey fk \<noteq> pk
            then GetAllFields_loop partitionID pk es fieldMap
            else GetAllFields_loop partitionID pk es (AList.update (fk_FieldName fk) val fieldMap))"

definition GetAllFields ::
    "('db, 'x) engine_scheme \<Rightarrow> 'db \<Rightarrow> u32 \<Rightarrow> bytes \<Rightarrow> err + (bytes \<times> bytes) list" where
  "GetAllFields eng db partitionID pk =
     (let pre = GetFieldPrefix partitionID pk; run = eng_Seek eng db pre in
      case GetAllFields_loop partitionID pk (fst run) [] of
        Inl e \<Rightarrow> Inl e
      | Inr fieldMap \<Rightarrow> (case iter_Err (prefix pre) run of Some e \<Rightarrow> Inl e | None \<Rightarrow> Inr fieldMap))"

definition SetFields ::
    "('db, 'x) engine_scheme \<Rightarrow> 'db \<Rightarrow> u32 \<Rightarrow> bytes \<Rightarrow> (bytes \<times> bytes) list \<Rightarrow> 'db \<times> err option" where
  "SetFields eng db partitionID pk fieldMap =
     eng_Write eng db
       (map (\<lambda>(fieldName, val). BatchPut_op (MakeFieldKey partitionID pk fieldName) val) fieldMap)"

definition field_op :: "u32 \<Rightarrow> bytes \<Rightarrow> FieldUpdate \<Rightarrow> batch_op" where
  "field_op partitionID pk update =
     (let key = MakeFieldKey partitionID pk (fu_FieldName update) in
      if fu_IsDelete update then BatchDelete_op key else BatchPut_op key (fu_Value update))"

definition ApplyFieldBatch ::
    "('db, 'x) engine_scheme \<Rightarrow> 'db \<Rightarrow> u32 \<Rightarrow> FieldBatch \<Rightarrow> 'db \<times> err option" where
  "ApplyFieldBatch eng db partitionID fb =
     eng_Write eng db (map (field_op partitionID (fb_PrimaryKey fb)) (fb_Updates fb))"

definition DeleteAllFields ::
    "('db, 'x) engine_scheme \<Rightarrow> 'db \<Rightarrow> u32 \<Rightarrow> bytes \<Rightarrow> 'db \<times> err option" where
  "DeleteAllFields eng db partitionID pk =
     (let pre = GetFieldPrefix partitionID pk;
          run = eng_Seek eng db pre;
          batch = map (\<lambda>e. BatchDelete_op (fst e)) (takeWhile (\<lambda>e. prefix pre (fst e)) (fst run))
      in case iter_Err (prefix pre) run of
           Some e \<Rightarrow> (db, Some e)
         | None \<Rightarrow> eng_Write eng db batch)"

text \<open>The flag of the result says whether the loop consumed the whole run of the iterator.\<close>

fun ListPrimaryKeys_loop ::
    "u32 \<Rightarrow> int \<Rightarrow> (bytes \<times> bytes) list \<Rightarrow> bytes list \<Rightarrow> err + bytes list \<times> bool" where
  "ListPrimaryKeys_loop partitionID limit [] pks = Inr (pks, True)"
| "ListPrimaryKeys_loop partitionID limit ((key, val) # es) pks =
     (if \<not> int (length pks) < limit then Inr (pks, False)
      else if \<not> prefix (GetPartitionFieldPrefix partitionID) key then Inr (pks, False)
      else
        case DecodeFieldKey key of
          Inl e \<Rightarrow> if e = GoPanic then Inl GoPanic else ListPrimaryKeys_loop partitionID limit es pks
        | Inr fk \<Rightarrow>
            ListPrimaryKeys_loop partitionID limit es
              (if fk_PrimaryKey fk \<in> set pks then pks else pks @ [fk_PrimaryKey fk]))"

definition ListPrimaryKeys ::
    "('db, 'x) engine_scheme \<Rightarrow> 'db \<Rightarrow> u32 \<Rightarrow> int \<Rightarrow> err + bytes list \<times> err option" where
  "ListPrimaryKeys eng db partitionID limit =
     (let run = eng_Seek eng db (GetPartitionFieldPrefix partitionID) in
      case ListPrimaryKeys_loop partitionID limit (fst run) [] of
        Inl e \<Rightarrow> Inl e
      | Inr (pks, exhausted) \<Rightarrow> Inr (pks, if exhausted then snd run else None))"

section \<open>Attribute groups\<close>

record AttributeGroup =
  ag_Name :: bytes
  ag_Fields :: "(bytes \<times> bytes) list"

text \<open>The fields in the order of \<open>sort.Strings\<close> on their names.\<close>

definition sorted_fields :: "(bytes \<times> bytes) list \<Rightarrow> (bytes \<times> bytes) list" where
  "sorted_fields fieldMap = map (\<lambda>n. (n, the (map_of fieldMap n))) (sort (map fst fieldMap))"

definition attr_encode :: "bytes \<times> bytes \<Rightarrow> bytes" where
  "attr_encode = (\<lambda>(name, val).
     PutUint16 (of_nat (length name)) @ name @ PutUint32 (of_nat (length val)) @ val)"

definition AttributeGroup_Encode :: "AttributeGroup \<Rightarrow> bytes" where
  "AttributeGroup_Encode ag =
     PutUint32 (of_nat (length (ag_Fields ag))) @
     concat (map attr_encode (sorted_fields (ag_Fields ag)))"

definition attr_decode :: "bytes \<Rightarrow> err + (bytes \<times> bytes) \<times> bytes" where
  "attr_decode buf =
     (case read_u16 buf of Inl e \<Rightarrow> Inl e | Inr (nameLen, buf) \<Rightarrow>
      (case reader_Read (unat nameLen) buf of Inl e \<Rightarrow> Inl e | Inr (name, buf) \<Rightarrow>
       (case read_u32 buf of Inl e \<Rightarrow> Inl e | Inr (valueLen, buf) \<Rightarrow>
        (case reader_Read (unat valueLen) buf of Inl e \<Rightarrow> Inl e | Inr (val, buf) \<Rightarrow>
           Inr ((name, val), buf)))))"

fun DecodeAttributeGroup_loop ::
    "nat \<Rightarrow> bytes \<Rightarrow> (bytes \<times> bytes) list \<Rightarrow> err + (bytes \<times> bytes) list" where
  "DecodeAttributeGroup_loop 0 buf fieldMap = Inr fieldMap"
| "DecodeAttributeGroup_loop (Suc n) buf fieldMap =
     (case attr_decode buf of
        Inl e \<Rightarrow> Inl e
      | Inr ((name, val), buf) \<Rightarrow> DecodeAttributeGroup_loop n buf (AList.update name val fieldMap))"

definition DecodeAttributeGroup :: "bytes \<Rightarrow> err + AttributeGroup" where
  "DecodeAttributeGroup data =
     (if length data < 4 then Inl ErrAttributeGroupTooShort
      else
        case read_u32 data of Inl e \<Rightarrow> Inl e | Inr (count, buf) \<Rightarrow>
          (case DecodeAttributeGroup_loop (unat count) buf [] of
             Inl e \<Rightarrow> Inl e
           | Inr fieldMap \<Rightarrow> Inr \<lparr>ag_Name = [], ag_Fields = fieldMap\<rparr>))"

definition GetGroup ::
    "('db, 'x) engine_scheme \<Rightarrow> 'db \<Rightarrow> u32 \<Rightarrow> bytes \<Rightarrow> bytes \<Rightarrow> err + AttributeGroup option" where
  "GetGroup eng db partitionID pk groupName =
     (case RocksDB_Get eng db (MakeFieldKey partitionID pk groupName) of
        Inl e \<Rightarrow> Inl e
      | Inr None \<Rightarrow> Inr None
      | Inr (Some data) \<Rightarrow>
          (case DecodeAttributeGroup data of
             Inl e \<Rightarrow> Inl e
           | Inr grp \<Rightarrow> Inr (Some (grp\<lparr>ag_Name := groupName\<rparr>))))"

definition SetGroup ::
    "('db, 'x) engine_scheme \<Rightarrow> 'db \<Rightarrow> u32 \<Rightarrow> bytes \<Rightarrow> AttributeGroup \<Rightarrow> 'db \<times> err option" where
  "SetGroup eng db partitionID pk grp =
     RocksDB_Put eng db (MakeFieldKey partitionID pk (ag_Name grp)) (AttributeGroup_Encode grp)"

definition UpdateGroupFields ::
    "('db, 'x) engine_scheme \<Rightarrow> 'db \<Rightarrow> u32 \<Rightarrow> bytes \<Rightarrow> bytes \<Rightarrow> (bytes \<times> bytes) list \<Rightarrow> bytes list \<Rightarrow>
     'db \<times> err option" where
  "UpdateGroupFields eng db partitionID pk groupName updates deletes =
     (case GetGroup eng db partitionID pk groupName of
        Inl e \<Rightarrow> (db, Some e)
      | Inr found \<Rightarrow>
          let grp = (case found of None \<Rightarrow> \<lparr>ag_Name = groupName, ag_Fields = []\<rparr> | Some g \<Rightarrow> g);
              updated = fold (\<lambda>(name, val). AList.update name val) updates (ag_Fields grp);
              remaining = fold AList.delete deletes updated
          in SetGroup eng db partitionID pk (grp\<lparr>ag_Fields := remaining\<rparr>))"

definition DeleteGroup ::
    "('db, 'x) engine_scheme \<Rightarrow> 'db \<Rightarrow> u32 \<Rightarrow> bytes \<Rightarrow> bytes \<Rightarrow> 'db \<times> err option" where
  "DeleteGroup eng db partitionID pk groupName =
     RocksDB_Delete eng db (MakeFieldKey partitionID pk groupName)"

section \<open>The codec of field batches\<close>

interpretation upd: codec FieldUpdate_encode FieldUpdate_decode FieldUpdate_fits
proof
  fix x rest
  assume "FieldUpdate_fits x"
  then show "FieldUpdate_decode (FieldUpdate_encode x @ rest) = Inr (x, rest)"
    by (cases x) (simp add: FieldUpdate_encode_def FieldUpdate_decode_def FieldUpdate_fits_def
        reader_Read_append)
qed

lemma decodeFieldBatchContent_Encode:
  assumes "FieldBatch_fits fb"
  shows "decodeFieldBatchContent (drop 1 (FieldBatch_Encode fb)) = Inr fb"
  using assms upd.decode_n_encode [of "fb_Updates fb" "[]"]
  by (cases fb) (simp add: FieldBatch_Encode_def decodeFieldBatchContent_def FieldBatch_fits_def
      reader_Read_append list_all_iff)

section \<open>Scans over the fields of a document\<close>

lemma DecodeFieldBatch_Encode:
  assumes "FieldBatch_fits fb"
  shows "DecodeFieldBatch (FieldBatch_Encode fb) = Inr fb"
proof -
  have "12 \<le> length (drop 1 (FieldBatch_Encode fb))"
    by (simp add: FieldBatch_Encode_def)
  then show ?thesis
    using decodeFieldBatchContent_Encode [OF assms]
    by (simp add: DecodeFieldBatch_def decodeFieldBatchV1_def FieldBatch_Encode_def)
qed

lemma GetAllFields_loop_takeWhile:
  "GetAllFields_loop p pk es fs =
   GetAllFields_loop p pk (takeWhile (\<lambda>e. prefix (GetFieldPrefix p pk) (fst e)) es) fs"
  by (induction p pk es fs rule: GetAllFields_loop.induct) (auto split: sum.splits)

lemma GetAllFields_loop_ok:
  assumes "length pk < 2 ^ 32 - 12"
    and "\<forall>e \<in> set es. prefix (GetFieldPrefix p pk) (fst e)" and "distinct (map fst es)"
  shows "\<exists>r. GetAllFields_loop p pk es fs = Inr r \<and>
     (\<forall>f. map_of r f = (case map_of es (MakeFieldKey p pk f) of Some v \<Rightarrow> Some v | None \<Rightarrow> map_of fs f))"
  using assms(2,3)
proof (induction es arbitrary: fs)
  case Nil
  show ?case
    by simp
next
  case (Cons e es)
  obtain f v where e: "e = (MakeFieldKey p pk f, v)"
    using Cons.prems(1) by (cases e) (auto simp: prefix_GetFieldPrefix_iff)
  have new: "map_of es (MakeFieldKey p pk f) = None"
    using Cons.prems(2) e by (simp add: map_of_eq_None_iff)
  have inj: "MakeFieldKey p pk f' = MakeFieldKey p pk f \<longleftrightarrow> f' = f" for f'
    by (simp add: MakeFieldKey_prefix)
  have "GetAllFields_loop p pk (e # es) fs = GetAllFields_loop p pk es (AList.update f v fs)"
    using Cons.prems(1) e assms(1) by (simp add: DecodeFieldKey_Make)
  moreover obtain r where "GetAllFields_loop p pk es (AList.update f v fs) = Inr r"
    and "\<And>f'. map_of r f' = (case map_of es (MakeFieldKey p pk f') of
                 Some v \<Rightarrow> Some v | None \<Rightarrow> map_of (AList.update f v fs) f')"
    using Cons.IH [of "AList.update f v fs"] Cons.prems by auto
  ultimately show ?case
    using new inj by (auto simp: e update_conv' split: option.splits)
qed

context rocks_engine
begin

lemma field_scan:
  assumes "iter_Err (prefix p) (eng_Seek eng db p) = None"
  defines "es \<equiv> takeWhile (\<lambda>e. prefix p (fst e)) (fst (eng_Seek eng db p))"
  shows "set es = {(k, v). view db k = Some v \<and> prefix p k}" and "distinct (map fst es)"
proof -
  show "set es = {(k, v). view db k = Some v \<and> prefix p k}"
    using assms(1) by (simp add: es_def scan_ok set_entries_from_prefix finite_view)
  show "distinct (map fst es)"
    using assms(1) distinct_entries_from [of "view db" p]
    by (simp add: es_def scan_ok entries_from_prefix distinct_map_filter)
qed

lemma GetAllFields_view:
  assumes pk: "length pk < 2 ^ 32 - 12"
  shows "(\<exists>e. iter_Err (prefix (GetFieldPrefix p pk)) (eng_Seek eng db (GetFieldPrefix p pk)) = Some e \<and>
            GetAllFields eng db p pk = Inl e) \<or>
         (\<exists>r. GetAllFields eng db p pk = Inr r \<and> (\<forall>f. map_of r f = view db (MakeFieldKey p pk f)))"
proof -
  let ?p = "GetFieldPrefix p pk"
  define run where "run = eng_Seek eng db ?p"
  define es where "es = takeWhile (\<lambda>e. prefix ?p (fst e)) (fst run)"
  have pre: "\<forall>e \<in> set es. prefix ?p (fst e)"
    by (auto simp: es_def dest: set_takeWhileD)
  have "sublist es (fst run)"
    by (simp add: es_def sublist_takeWhile)
  then have dist: "distinct (map fst es)"
    using Seek_prefix [of db ?p "fst run" "snd run"] distinct_entries_from [of "view db" ?p]
    by (auto simp: run_def sublist_def prefix_def)
  obtain r where r: "GetAllFields_loop p pk es [] = Inr r"
    "\<And>f. map_of r f = map_of es (MakeFieldKey p pk f)"
    using GetAllFields_loop_ok [OF pk pre dist, of "[]"] by (auto simp: option.case_eq_if)
  show ?thesis
  proof (cases "iter_Err (prefix ?p) run")
    case None
    then have "map_of es (MakeFieldKey p pk f) = Some v \<longleftrightarrow> view db (MakeFieldKey p pk f) = Some v" for f v
      using field_scan [of ?p db] dist by (auto simp: es_def run_def prefix_GetFieldPrefix_iff)
    then have "map_of es (MakeFieldKey p pk f) = view db (MakeFieldKey p pk f)" for f
      by (metis not_Some_eq)
    then show ?thesis
      using r None by (simp add: GetAllFields_def run_def es_def Let_def
          GetAllFields_loop_takeWhile [where es = "fst (eng_Seek eng db ?p)"])
  next
    case (Some e)
    then show ?thesis
      using r by (simp add: GetAllFields_def run_def es_def Let_def
          GetAllFields_loop_takeWhile [where es = "fst (eng_Seek eng db ?p)"])
  qed
qed

lemma GetAllFields_found:
  "GetAllFields eng db p pk = Inr r \<Longrightarrow> length pk < 2 ^ 32 - 12 \<Longrightarrow>
   map_of r f = view db (MakeFieldKey p pk f)"
  using GetAllFields_view [of pk p db] by auto

lemma DeleteAllFields_view:
  assumes "DeleteAllFields eng db p pk = (db', e)"
  shows "view db' k = (if e = None \<and> prefix (GetFieldPrefix p pk) k then None else view db k)"
proof (cases "iter_Err (prefix (GetFieldPrefix p pk)) (eng_Seek eng db (GetFieldPrefix p pk))")
  case None
  let ?p = "GetFieldPrefix p pk"
  let ?es = "takeWhile (\<lambda>e. prefix ?p (fst e)) (fst (eng_Seek eng db ?p))"
  have "eng_Write eng db (map BatchDelete_op (map fst ?es)) = (db', e)"
    using assms None by (simp add: DeleteAllFields_def Let_def comp_def)
  from view_Write [OF this] show ?thesis
    using field_scan(1) [OF None]
    by (force simp: fold_batch_deletes restrict_map_def simp del: map_map)
next
  case (Some x)
  with assms show ?thesis
    by (auto simp: DeleteAllFields_def Let_def)
qed

end

text \<open>The value of one field after a list of updates, as a reader expects it.\<close>

definition field_after :: "FieldUpdate list \<Rightarrow> bytes \<Rightarrow> bytes option \<Rightarrow> bytes option" where
  "field_after us f old =
     fold (\<lambda>u v. if fu_FieldName u = f then (if fu_IsDelete u then None else Some (fu_Value u)) else v)
       us old"

lemma fold_field_ops:
  "fold batch_step (map (field_op p pk) us) m (MakeFieldKey p pk f) =
   field_after us f (m (MakeFieldKey p pk f))"
  by (induction us arbitrary: m)
    (auto simp: field_after_def field_op_def Let_def MakeFieldKey_prefix)

lemma fold_field_ops_other:
  "\<not> prefix (GetFieldPrefix p pk) k \<Longrightarrow> fold batch_step (map (field_op p pk) us) m k = m k"
  by (induction us arbitrary: m) (auto simp: field_op_def Let_def prefix_GetFieldPrefix_iff)

section \<open>The codec of attribute groups\<close>

definition attr_fits :: "bytes \<times> bytes \<Rightarrow> bool" where
  "attr_fits = (\<lambda>(name, val). length name < 2 ^ 16 \<and> length val < 2 ^ 32)"

lemma attr_encode_ne [simp]: "attr_encode a \<noteq> []"
  by (simp add: attr_encode_def split: prod.splits)

lemma attr_decode_encode:
  "attr_fits a \<Longrightarrow> attr_decode (attr_encode a @ rest) =
     (if snd a = [] \<and> rest = [] then Inl ErrEOF else Inr (a, rest))"
  by (cases a) (auto simp: attr_decode_def attr_encode_def attr_fits_def reader_Read_append
      reader_Read_def [of _ "[]"])

lemma DecodeAttributeGroup_loop_encode:
  assumes "\<forall>a \<in> set as. attr_fits a" and "distinct (map fst (acc @ as))"
  shows "DecodeAttributeGroup_loop (length as) (concat (map attr_encode as)) acc =
     (if as \<noteq> [] \<and> snd (last as) = [] then Inl ErrEOF else Inr (acc @ as))"
  using assms
proof (induction as arbitrary: acc)
  case Nil
  show ?case
    by simp
next
  case (Cons a as)
  have ne: "concat (map attr_encode as) = [] \<longleftrightarrow> as = []"
    by (cases as) auto
  have "a = (fst a, snd a)"
    by simp
  moreover have "AList.update (fst a) (snd a) acc = acc @ [a]"
    using Cons.prems(2) by (auto simp: update_new)
  ultimately show ?case
    using Cons.IH [of "acc @ [a]"] Cons.prems attr_decode_encode [of a "concat (map attr_encode as)"]
    by (auto simp: ne simp del: concat_eq_Nil_conv split: prod.splits)
qed

lemma sorted_fields_props:
  assumes "distinct (map fst fs)"
  shows "set (sorted_fields fs) = set fs" and "map fst (sorted_fields fs) = sort (map fst fs)"
    and "map_of (sorted_fields fs) = map_of fs" and "length (sorted_fields fs) = length fs"
proof -
  show 1: "map fst (sorted_fields fs) = sort (map fst fs)"
    by (simp add: sorted_fields_def comp_def)
  show 2: "set (sorted_fields fs) = set fs"
    using assms by (force simp: sorted_fields_def)
  show "map_of (sorted_fields fs) = map_of fs"
    using assms 1 2 by (simp add: map_of_inject_set)
  show "length (sorted_fields fs) = length fs"
    by (simp add: sorted_fields_def)
qed

section \<open>Properties\<close>

text \<open>
  A field batch whose sizes fit the length fields survives the command log:
  \<open>DecodeFieldBatch\<close> gives back what \<open>FieldBatch.Encode\<close> wrote. The same bytes without
  the version byte, the legacy format, decode to the same batch for every partition id
  whose first byte is not the version number, in particular for all 4096 partitions.
\<close>

theorem FieldBatch_roundtrip:
  assumes "FieldBatch_fits fb"
  shows "DecodeFieldBatch (FieldBatch_Encode fb) = Inr fb \<and>
     (hd (PutUint32 (fb_PartitionID fb)) \<noteq> FieldBatchFormatVersion \<longrightarrow>
      DecodeFieldBatch (drop 1 (FieldBatch_Encode fb)) = Inr fb)"
proof (intro conjI impI)
  have content: "decodeFieldBatchContent (drop 1 (FieldBatch_Encode fb)) = Inr fb"
    by (rule decodeFieldBatchContent_Encode [OF assms])
  have len: "12 \<le> length (drop 1 (FieldBatch_Encode fb))"
    by (simp add: FieldBatch_Encode_def)
  show "DecodeFieldBatch (FieldBatch_Encode fb) = Inr fb"
    by (rule DecodeFieldBatch_Encode [OF assms])
  assume "hd (PutUint32 (fb_PartitionID fb)) \<noteq> FieldBatchFormatVersion"
  moreover have "drop 1 (FieldBatch_Encode fb) = hd (PutUint32 (fb_PartitionID fb)) #
      tl (drop 1 (FieldBatch_Encode fb))"
    by (cases "PutUint32 (fb_PartitionID fb)") (simp_all add: FieldBatch_Encode_def)
  ultimately show "DecodeFieldBatch (drop 1 (FieldBatch_Encode fb)) = Inr fb"
    using content len
    by (auto simp: DecodeFieldBatch_def decodeFieldBatchLegacy_def split: list.splits)
qed

theorem FieldBatch_roundtrip_witness:
  "let fb = \<lparr>fb_PartitionID = 300, fb_PrimaryKey = [],
             fb_Updates = [\<lparr>fu_FieldName = [], fu_Value = [], fu_IsDelete = True\<rparr>]\<rparr>
   in DecodeFieldBatch (FieldBatch_Encode fb) = Inr fb \<and>
      DecodeFieldBatch (drop 1 (FieldBatch_Encode fb)) = Inr fb"
proof -
  let ?fb = "\<lparr>fb_PartitionID = 300, fb_PrimaryKey = [],
     fb_Updates = [\<lparr>fu_FieldName = [], fu_Value = [], fu_IsDelete = True\<rparr>]\<rparr>"
  have "FieldBatch_fits ?fb" and "hd (PutUint32 (fb_PartitionID ?fb)) \<noteq> FieldBatchFormatVersion"
    by (simp add: FieldBatch_fits_def FieldUpdate_fits_def, code_simp)
  with FieldBatch_roundtrip [of ?fb] show ?thesis
    by simp
qed

text \<open>
  C28. \<open>GetAllFields\<close> returns either the error of the iterator or all fields of the
  document and nothing else: the value of each field is what the database stores under its
  field key. No entry of the scan is lost as malformed and no decoding panics.
\<close>

theorem GetAllFields_complete:
  assumes "rocks_engine eng view" and "length pk < 2 ^ 32 - 12"
  shows "case GetAllFields eng db partitionID pk of
           Inl e \<Rightarrow> iter_Err (prefix (GetFieldPrefix partitionID pk))
                       (eng_Seek eng db (GetFieldPrefix partitionID pk)) = Some e
         | Inr r \<Rightarrow> \<forall>f. map_of r f = view db (MakeFieldKey partitionID pk f)"
  using rocks_engine.GetAllFields_view [OF assms(1,2), of partitionID db] by auto

theorem GetAllFields_complete_witness:
  "case GetAllFields (mem_engine None) [(MakeFieldKey 1 [9] [2], [5]), ([0xFF], [])] 1 [9] of
     Inl e \<Rightarrow> False
   | Inr r \<Rightarrow> map_of r [2] = Some [5]"
  using GetAllFields_complete
    [OF mem.rocks_engine_axioms [of None], of "[9]" 1 "[(MakeFieldKey 1 [9] [2], [5]), ([0xFF], [])]"]
  by (auto split: sum.splits)

text \<open>
  C25. Reading after writing a document: when \<open>SetFields\<close> succeeds, the fields that
  \<open>GetAllFields\<close> returns for the document are the old ones overridden by the written
  ones, and the fields of every other document or partition are as before.
\<close>

theorem SetFields_GetAllFields:
  assumes eng: "rocks_engine eng view"
    and set: "SetFields eng db partitionID pk new = (db', None)" and "distinct (map fst new)"
    and len: "length pk < 2 ^ 32 - 12" "length pk' < 2 ^ 32 - 12"
    and before: "GetAllFields eng db partitionID' pk' = Inr old"
    and after: "GetAllFields eng db' partitionID' pk' = Inr result"
  shows "map_of result =
     (if partitionID' = partitionID \<and> pk' = pk then map_of old ++ map_of new else map_of old)"
proof
  fix f
  let ?ops = "map (\<lambda>(f, v). BatchPut_op (MakeFieldKey partitionID pk f) v)"
  have fold: "fold batch_step (?ops fs) m (MakeFieldKey partitionID' pk' f) =
      (if partitionID' = partitionID \<and> pk' = pk
       then case map_of (rev fs) f of Some v \<Rightarrow> Some v | None \<Rightarrow> m (MakeFieldKey partitionID' pk' f)
       else m (MakeFieldKey partitionID' pk' f))" for fs m
    using len by (induction fs arbitrary: m)
      (auto simp: MakeFieldKey_inject map_add_def split: option.splits)
  have "map_of (rev new) = map_of new"
    using assms(3) by (simp add: map_of_inject_set flip: rev_map)
  moreover have "map_of old f = view db (MakeFieldKey partitionID' pk' f)"
    "map_of result f = view db' (MakeFieldKey partitionID' pk' f)"
    using rocks_engine.GetAllFields_found [OF eng _ len(2)] before after by blast+
  moreover have "view db' = fold batch_step (?ops new) (view db)"
    using rocks_engine.Write_ok [OF eng] set by (simp add: SetFields_def)
  ultimately show "map_of result f =
     (if partitionID' = partitionID \<and> pk' = pk then map_of old ++ map_of new else map_of old) f"
    by (auto simp: fold map_add_def split: option.splits)
qed

theorem SetFields_GetAllFields_witness:
  "\<exists>db' result. SetFields (mem_engine None) [(MakeFieldKey 1 [9] [2], [5])] 1 [9] [([2], [6])] = (db', None) \<and>
     GetAllFields (mem_engine None) db' 1 [9] = Inr result \<and> map_of result = [[2] \<mapsto> [6]]"
proof -
  let ?k = "MakeFieldKey 1 [9] [2]"
  have 1: "SetFields (mem_engine None) [(?k, [5])] 1 [9] [([2], [6])] = ([(?k, [6])], None)"
    by code_simp
  have 2: "GetAllFields (mem_engine None) [(?k, [5])] 1 [9] = Inr [([2], [5])]"
    by code_simp
  have 3: "GetAllFields (mem_engine None) [(?k, [6])] 1 [9] = Inr [([2], [6])]"
    by code_simp
  show ?thesis
    using SetFields_GetAllFields [OF mem.rocks_engine_axioms 1 _ _ _ 2 3] 1 3 by simp
qed

text \<open>
  \<open>ApplyFieldBatch\<close> is atomic and exact: when the write fails nothing changes; when it
  succeeds every field of the document has the value the list of updates gives it in
  order, the last update of a field deciding, and every other key keeps its value.
\<close>

theorem ApplyFieldBatch_exact:
  assumes "rocks_engine eng view"
    and "ApplyFieldBatch eng db partitionID fb = (db', e)"
  shows "view db' (MakeFieldKey partitionID (fb_PrimaryKey fb) f) =
           (if e = None
            then field_after (fb_Updates fb) f (view db (MakeFieldKey partitionID (fb_PrimaryKey fb) f))
            else view db (MakeFieldKey partitionID (fb_PrimaryKey fb) f)) \<and>
         ((\<forall>f. key \<noteq> MakeFieldKey partitionID (fb_PrimaryKey fb) f) \<longrightarrow> view db' key = view db key)"
proof -
  have "view db' = (if e = None then fold batch_step
      (map (field_op partitionID (fb_PrimaryKey fb)) (fb_Updates fb)) (view db) else view db)"
    using rocks_engine.view_Write [OF assms(1)] assms(2) by (simp add: ApplyFieldBatch_def)
  then show ?thesis
    by (simp add: fold_field_ops fold_field_ops_other prefix_GetFieldPrefix_iff)
qed

theorem ApplyFieldBatch_exact_witness:
  "map_of (fst (ApplyFieldBatch (mem_engine None) [(MakeFieldKey 1 [9] [2], [5]), ([0xFF], [7])] 1
     \<lparr>fb_PartitionID = 1, fb_PrimaryKey = [9],
      fb_Updates = [\<lparr>fu_FieldName = [2], fu_Value = [8], fu_IsDelete = False\<rparr>,
                    \<lparr>fu_FieldName = [2], fu_Value = [], fu_IsDelete = True\<rparr>]\<rparr>)) (MakeFieldKey 1 [9] [2]) = None"
proof -
  let ?db = "[(MakeFieldKey 1 [9] [2], [5]), ([0xFF], [7])]"
  let ?fb = "\<lparr>fb_PartitionID = 1, fb_PrimaryKey = [9],
      fb_Updates = [\<lparr>fu_FieldName = [2], fu_Value = [8], fu_IsDelete = False\<rparr>,
                    \<lparr>fu_FieldName = [2], fu_Value = [], fu_IsDelete = True\<rparr>]\<rparr>"
  have "ApplyFieldBatch (mem_engine None) ?db 1 ?fb = (fst (ApplyFieldBatch (mem_engine None) ?db 1 ?fb), None)"
    by (simp add: ApplyFieldBatch_def mem_engine_def mem_write_def)
  from ApplyFieldBatch_exact [OF mem.rocks_engine_axioms this] show ?thesis
    by (simp add: field_after_def)
qed

text \<open>
  \<open>DeleteAllFields\<close> removes all fields of the document and no other key, and a failed
  call changes nothing.
\<close>

theorem DeleteAllFields_exact:
  assumes "rocks_engine eng view"
    and "DeleteAllFields eng db partitionID pk = (db', e)"
  shows "view db' key =
     (if e = None \<and> (\<exists>f. key = MakeFieldKey partitionID pk f) then None else view db key)"
  using rocks_engine.DeleteAllFields_view [OF assms, of key] by (simp add: prefix_GetFieldPrefix_iff)

theorem DeleteAllFields_exact_witness:
  "map_of (fst (DeleteAllFields (mem_engine None) [(MakeFieldKey 1 [9] [2], [5]), ([0xFF], [7])] 1 [9]))
     (MakeFieldKey 1 [9] [2]) = None"
proof -
  let ?db = "[(MakeFieldKey 1 [9] [2], [5]), ([0xFF], [7])]"
  have "DeleteAllFields (mem_engine None) ?db 1 [9] = (fst (DeleteAllFields (mem_engine None) ?db 1 [9]), None)"
    by (simp add: DeleteAllFields_def Let_def) (simp add: mem_engine_def mem_write_def)
  from DeleteAllFields_exact [OF mem.rocks_engine_axioms this] show ?thesis
    by auto
qed

text \<open>
  The codec of attribute groups, on every group that fits its length fields: decoding
  what \<open>AttributeGroup.Encode\<close> wrote gives the same fields back, except that a group whose
  last field in sorted order has an empty value cannot be read again: the decoder hits
  the end of the data when it reads the empty value and returns \<open>io.EOF\<close>.
\<close>

theorem AttributeGroup_roundtrip:
  assumes "distinct (map fst (ag_Fields ag))" and "length (ag_Fields ag) < 2 ^ 32"
    and "\<forall>a \<in> set (ag_Fields ag). attr_fits a"
  shows "map_of (sorted_fields (ag_Fields ag)) = map_of (ag_Fields ag) \<and>
     DecodeAttributeGroup (AttributeGroup_Encode ag) =
       (if ag_Fields ag \<noteq> [] \<and> snd (last (sorted_fields (ag_Fields ag))) = [] then Inl ErrEOF
        else Inr \<lparr>ag_Name = [], ag_Fields = sorted_fields (ag_Fields ag)\<rparr>)"
proof -
  let ?as = "sorted_fields (ag_Fields ag)"
  note props = sorted_fields_props [OF assms(1)]
  have "?as = [] \<longleftrightarrow> ag_Fields ag = []"
    using props(4) by (metis length_0_conv)
  moreover have "DecodeAttributeGroup_loop (length ?as) (concat (map attr_encode ?as)) [] =
     (if ?as \<noteq> [] \<and> snd (last ?as) = [] then Inl ErrEOF else Inr ?as)"
    using DecodeAttributeGroup_loop_encode [of ?as "[]"] assms props(1,2) by simp
  ultimately show ?thesis
    using assms(2) props(3,4) by (simp add: DecodeAttributeGroup_def AttributeGroup_Encode_def)
qed

theorem AttributeGroup_roundtrip_witness:
  "DecodeAttributeGroup (AttributeGroup_Encode \<lparr>ag_Name = [1], ag_Fields = [([2], []), ([1], [7])]\<rparr>) = Inl ErrEOF \<and>
   DecodeAttributeGroup (AttributeGroup_Encode \<lparr>ag_Name = [1], ag_Fields = [([2], [7]), ([1], [])]\<rparr>) =
     Inr \<lparr>ag_Name = [], ag_Fields = [([1], []), ([2], [7])]\<rparr>"
  using AttributeGroup_roundtrip [of "\<lparr>ag_Name = [1], ag_Fields = [([2], []), ([1], [7])]\<rparr>"]
    AttributeGroup_roundtrip [of "\<lparr>ag_Name = [1], ag_Fields = [([2], [7]), ([1], [])]\<rparr>"]
  by (simp add: attr_fits_def sorted_fields_def)

end
