(* ===== verification/Proto.thy ===== *)
theory Proto
  imports Prelude
begin

text \<open>
  The enumerations and messages of \<open>src/proto/rockskv.proto\<close> that the storage, metadata and
  compute services exchange. Names of nodes and addresses are strings; keys, values and
  field names are byte strings. An \<open>int64\<close> or \<open>int32\<close> field is a word read as signed.
\<close>

section \<open>Enumerations\<close>

datatype PartitionStatus = NORMAL | MIGRATING_OUT | MIGRATING_IN | OFFLINE

datatype MigrationState =
    MIGRATION_NONE | MIGRATION_PREPARING | MIGRATION_COPYING | MIGRATION_CATCHUP
  | MIGRATION_SWITCHING | MIGRATION_COMPLETE | MIGRATION_FAILED

datatype ErrorCode =
    OK | PARTITION_NOT_FOUND | PARTITION_MOVED | KEY_NOT_FOUND | INTERNAL_ERROR | NOT_PRIMARY
  | EPOCH_FENCED

text \<open>A value of this enumeration that the receiver does not know stays a number.\<close>

datatype ReplicationOpType = REP_OP_PUT | REP_OP_DELETE | REP_OP_FIELD_BATCH | REP_OP_unrecognized u32

datatype ClusterState = CLUSTER_PENDING | CLUSTER_INITIALIZING | CLUSTER_RUNNING

datatype NodeRole = STORAGE | COMPUTE | METADATA

datatype NodeStatus = NODE_ONLINE | NODE_OFFLINE | NODE_DRAINING | NODE_REMOVED

datatype MigrationPriority = PRIORITY_LOW | PRIORITY_NORMAL | PRIORITY_HIGH | PRIORITY_URGENT

text \<open>The numbers of the priorities, which the code compares.\<close>

fun priority_number :: "MigrationPriority \<Rightarrow> nat" where
  "priority_number PRIORITY_LOW = 0"
| "priority_number PRIORITY_NORMAL = 1"
| "priority_number PRIORITY_HIGH = 2"
| "priority_number PRIORITY_URGENT = 3"

text \<open>\<open>String()\<close> of the generated enumerations.\<close>

fun ErrorCode_String :: "ErrorCode \<Rightarrow> string" where
  "ErrorCode_String OK = ''OK''"
| "ErrorCode_String PARTITION_NOT_FOUND = ''PARTITION_NOT_FOUND''"
| "ErrorCode_String PARTITION_MOVED = ''PARTITION_MOVED''"
| "ErrorCode_String KEY_NOT_FOUND = ''KEY_NOT_FOUND''"
| "ErrorCode_String INTERNAL_ERROR = ''INTERNAL_ERROR''"
| "ErrorCode_String NOT_PRIMARY = ''NOT_PRIMARY''"
| "ErrorCode_String EPOCH_FENCED = ''EPOCH_FENCED''"

fun PartitionStatus_String :: "PartitionStatus \<Rightarrow> string" where
  "PartitionStatus_String NORMAL = ''NORMAL''"
| "PartitionStatus_String MIGRATING_OUT = ''MIGRATING_OUT''"
| "PartitionStatus_String MIGRATING_IN = ''MIGRATING_IN''"
| "PartitionStatus_String OFFLINE = ''OFFLINE''"

section \<open>Route tables\<close>

type_synonym NodeID = string

record pb_PartitionInfo =
  pbi_partition_id :: u32
  pbi_primary :: NodeID
  pbi_replica :: NodeID
  pbi_status :: PartitionStatus
  pbi_migration_target :: NodeID
  pbi_migration_state :: MigrationState
  pbi_epoch :: u64

record pb_RouteTable =
  pbt_partitions :: "pb_PartitionInfo list"
  pbt_version :: u64

record RouteUpdate =
  pbu_version :: u64
  pbu_partitions :: "pb_PartitionInfo list"

section \<open>Key-value service\<close>

record GetResponse =
  gr_value :: bytes
  gr_found :: bool

record GetAllFieldsResponse =
  gaf_fields :: "(bytes \<times> bytes) list"
  gaf_found :: bool

record BatchPutResponse =
  bpr_success :: bool
  bpr_count :: u32

section \<open>Storage service\<close>

record StorageGetRequest =
  sgq_key :: bytes
  sgq_partition_id :: u32

record StoragePutRequest =
  spq_key :: bytes
  spq_value :: bytes
  spq_partition_id :: u32
  spq_epoch :: u64

record StorageDeleteRequest =
  sdq_key :: bytes
  sdq_partition_id :: u32
  sdq_epoch :: u64

record StorageGetFieldRequest =
  sgf_primary_key :: bytes
  sgf_field_name :: bytes
  sgf_partition_id :: u32

record StorageDeleteFieldRequest =
  sdf_primary_key :: bytes
  sdf_field_name :: bytes
  sdf_partition_id :: u32
  sdf_epoch :: u64

record StorageGetAllFieldsRequest =
  saf_primary_key :: bytes
  saf_partition_id :: u32

record pb_KeyValue =
  pkv_key :: bytes
  pkv_value :: bytes
  pkv_found :: bool

record StorageBatchPutRequest =
  sbq_items :: "pb_KeyValue list"
  sbq_partition_id :: u32
  sbq_epoch :: u64

record StorageGetResponse =
  sgr_value :: bytes
  sgr_found :: bool
  sgr_error :: ErrorCode

text \<open>The response of every write of the storage service: a flag and an error code.\<close>

record StorageWriteResponse =
  swr_success :: bool
  swr_error :: ErrorCode

record FieldValue =
  fv_field_name :: bytes
  fv_value :: bytes
  fv_is_delete :: bool

record StorageSetFieldsRequest =
  ssf_primary_key :: bytes
  ssf_fields :: "FieldValue list"
  ssf_partition_id :: u32
  ssf_epoch :: u64

record StorageGetAllFieldsResponse =
  sga_fields :: "(bytes \<times> bytes) list"
  sga_found :: bool
  sga_error :: ErrorCode

record StorageBatchPutResponse =
  sbp_success :: bool
  sbp_count :: u32
  sbp_error :: ErrorCode

record ReplicationEntry =
  re_offset :: u64
  re_key :: bytes
  re_value :: bytes
  re_is_delete :: bool
  re_timestamp :: u64
  re_op_type :: ReplicationOpType

record SSTChunk =
  sst_data :: bytes
  sst_filename :: string
  sst_is_last :: bool
  sst_partition_id :: u32
  sst_total_size :: int

record ExportSSTRequest =
  esq_partition_id :: u32
  esq_bandwidth_limit :: int

record IngestSSTResponse =
  isr_success :: bool
  isr_keys_ingested :: int

text \<open>The text of an error message: empty, a literal, or that of an error value.\<close>

datatype error_message = NoMessage | Message string | ErrorText err

record ReplicateRequest =
  rq_partition_id :: u32
  rq_entries :: "ReplicationEntry list"
  rq_commit_offset :: u64

record ReplicateResponse =
  rr_success :: bool
  rr_last_applied_offset :: u64
  rr_error_message :: error_message

record GetReplicationStatusResponse =
  grs_partition_id :: u32
  grs_is_primary :: bool
  grs_current_offset :: u64
  grs_committed_offset :: u64
  grs_replication_lag :: u64
  grs_replica_addr :: string

lemma PartitionStatus_String_inject [simp]:
  "PartitionStatus_String a = PartitionStatus_String b \<longleftrightarrow> a = b"
  by (cases a; cases b) auto

end
