(* ===== verification/Partitions.thy ===== *)
theory Partitions
  imports Keys Rocks Proto
begin

text \<open>
  The partition manager of a storage node, \<open>src/pkg/storage/partition.go\<close>: the table of
  partitions, the reads and writes of a partition's keys, the update from a route table,
  and the export, import and clearing of a partition's data.

  The table is an association list. The gauge is the process-wide Prometheus gauge
  \<open>PartitionGauge\<close>, a counter per label. The methods are modelled as run one after the
  other: the two lookups of \<open>Put\<close>, \<open>Delete\<close> and \<open>BatchPut\<close> (\<open>HasPartition\<close>, then
  \<open>GetPartition\<close>) see the same table.
\<close>

section \<open>State\<close>

record Partition =
  p_ID :: u32
  p_Status :: PartitionStatus
  p_IsPrime :: bool
  p_Epoch :: u64

record 'db PartitionManager =
  pm_nodeID :: NodeID
  pm_partitions :: "(u32 \<times> Partition) list"
  pm_db :: 'db
  pm_gauge :: "string \<Rightarrow> int"

definition gauge_Inc :: "string \<Rightarrow> (string \<Rightarrow> int) \<Rightarrow> string \<Rightarrow> int" where
  "gauge_Inc l g = g(l := g l + 1)"

definition gauge_Dec :: "string \<Rightarrow> (string \<Rightarrow> int) \<Rightarrow> string \<Rightarrow> int" where
  "gauge_Dec l g = g(l := g l - 1)"

definition NewPartitionManager :: "NodeID \<Rightarrow> 'db \<Rightarrow> (string \<Rightarrow> int) \<Rightarrow> 'db PartitionManager" where
  "NewPartitionManager nodeID db gauge =
     \<lparr>pm_nodeID = nodeID, pm_partitions = [], pm_db = db, pm_gauge = gauge\<rparr>"

section \<open>The table of partitions\<close>

definition AddPartitionWithEpoch ::
    "u32 \<Rightarrow> bool \<Rightarrow> u64 \<Rightarrow> 'db PartitionManager \<Rightarrow> 'db PartitionManager \<times> err option" where
  "AddPartitionWithEpoch partitionID isPrimary epoch pm =
     (case map_of (pm_partitions pm) partitionID of
        Some _ \<Rightarrow> (pm, Some (ErrPartitionExists partitionID))
      | None \<Rightarrow>
          (pm\<lparr>pm_partitions := AList.update partitionID
                \<lparr>p_ID = partitionID, p_Status = NORMAL, p_IsPrime = isPrimary, p_Epoch = epoch\<rparr>
                (pm_partitions pm),
              pm_gauge := gauge_Inc ''normal'' (pm_gauge pm)\<rparr>, None))"

definition AddPartition ::
    "u32 \<Rightarrow> bool \<Rightarrow> 'db PartitionManager \<Rightarrow> 'db PartitionManager \<times> err option" where
  "AddPartition partitionID isPrimary pm =
     (case map_of (pm_partitions pm) partitionID of
        Some _ \<Rightarrow> (pm, Some (ErrPartitionExists partitionID))
      | None \<Rightarrow>
          (pm\<lparr>pm_partitions := AList.update partitionID
                \<lparr>p_ID = partitionID, p_Status = NORMAL, p_IsPrime = isPrimary, p_Epoch = 0\<rparr>
                (pm_partitions pm),
              pm_gauge := gauge_Inc ''normal'' (pm_gauge pm)\<rparr>, None))"

definition UpdatePartitionEpoch ::
    "u32 \<Rightarrow> u64 \<Rightarrow> 'db PartitionManager \<Rightarrow> 'db PartitionManager \<times> err option" where
  "UpdatePartitionEpoch partitionID epoch pm =
     (case map_of (pm_partitions pm) partitionID of
        None \<Rightarrow> (pm, Some (ErrPartitionNotFound partitionID))
      | Some part \<Rightarrow>
          if epoch > p_Epoch part
          then (pm\<lparr>pm_partitions := AList.update partitionID (part\<lparr>p_Epoch := epoch\<rparr>) (pm_partitions pm)\<rparr>, None)
          else (pm, None))"

definition ValidateEpoch :: "'db PartitionManager \<Rightarrow> u32 \<Rightarrow> u64 \<Rightarrow> err option" where
  "ValidateEpoch pm partitionID requestEpoch =
     (case map_of (pm_partitions pm) partitionID of
        None \<Rightarrow> Some (ErrPartitionNotFound partitionID)
      | Some part \<Rightarrow>
          if requestEpoch \<noteq> p_Epoch part
          then Some (ErrEpochMismatch requestEpoch (p_Epoch part)) else None)"

definition RemovePartition ::
    "u32 \<Rightarrow> 'db PartitionManager \<Rightarrow> 'db PartitionManager \<times> err option" where
  "RemovePartition partitionID pm =
     (case map_of (pm_partitions pm) partitionID of
        None \<Rightarrow> (pm, Some (ErrPartitionNotFound partitionID))
      | Some part \<Rightarrow>
          (pm\<lparr>pm_partitions := AList.delete partitionID (pm_partitions pm),
              pm_gauge := gauge_Dec (PartitionStatus_String (p_Status part)) (pm_gauge pm)\<rparr>, None))"

definition HasPartition :: "'db PartitionManager \<Rightarrow> u32 \<Rightarrow> bool" where
  "HasPartition pm partitionID \<longleftrightarrow> map_of (pm_partitions pm) partitionID \<noteq> None"

definition IsPrimary :: "'db PartitionManager \<Rightarrow> u32 \<Rightarrow> bool" where
  "IsPrimary pm partitionID =
     (case map_of (pm_partitions pm) partitionID of None \<Rightarrow> False | Some part \<Rightarrow> p_IsPrime part)"

definition GetPartition :: "'db PartitionManager \<Rightarrow> u32 \<Rightarrow> Partition option" where
  "GetPartition pm partitionID = map_of (pm_partitions pm) partitionID"

definition GetPartitionIDs :: "'db PartitionManager \<Rightarrow> u32 list" where
  "GetPartitionIDs pm = map fst (pm_partitions pm)"

definition PartitionCount :: "'db PartitionManager \<Rightarrow> nat" where
  "PartitionCount pm = length (pm_partitions pm)"

definition ListPartitions :: "'db PartitionManager \<Rightarrow> u32 list" where
  "ListPartitions pm = map fst (pm_partitions pm)"

definition SetPartitionStatus ::
    "u32 \<Rightarrow> PartitionStatus \<Rightarrow> 'db PartitionManager \<Rightarrow> 'db PartitionManager \<times> err option" where
  "SetPartitionStatus partitionID status pm =
     (case map_of (pm_partitions pm) partitionID of
        None \<Rightarrow> (pm, Some (ErrPartitionNotFound partitionID))
      | Some part \<Rightarrow>
          (pm\<lparr>pm_partitions := AList.update partitionID (part\<lparr>p_Status := status\<rparr>) (pm_partitions pm),
              pm_gauge := gauge_Inc (PartitionStatus_String status)
                (gauge_Dec (PartitionStatus_String (p_Status part)) (pm_gauge pm))\<rparr>, None))"

section \<open>Reads and writes\<close>

definition pm_Get ::
    "('db, 'x) engine_scheme \<Rightarrow> 'db PartitionManager \<Rightarrow> bytes \<Rightarrow> u32 \<Rightarrow> err + bytes option" where
  "pm_Get eng pm key partitionID =
     (if \<not> HasPartition pm partitionID then Inl (ErrPartitionNotFound partitionID)
      else RocksDB_Get eng (pm_db pm) (MakePartitionKey partitionID key))"

definition pm_Put ::
    "('db, 'x) engine_scheme \<Rightarrow> bytes \<Rightarrow> bytes \<Rightarrow> u32 \<Rightarrow> 'db PartitionManager \<Rightarrow>
     'db PartitionManager \<times> err option" where
  "pm_Put eng key val partitionID pm =
     (case GetPartition pm partitionID of
        None \<Rightarrow> (pm, Some (ErrPartitionNotFound partitionID))
      | Some part \<Rightarrow>
          if p_Status part \<noteq> NORMAL \<and> p_Status part \<noteq> MIGRATING_IN
          then (pm, Some (ErrNotWritable partitionID))
          else
            let (db', e) = RocksDB_Put eng (pm_db pm) (MakePartitionKey partitionID key) val
            in (pm\<lparr>pm_db := db'\<rparr>, e))"

definition pm_Delete ::
    "('db, 'x) engine_scheme \<Rightarrow> bytes \<Rightarrow> u32 \<Rightarrow> 'db PartitionManager \<Rightarrow>
     'db PartitionManager \<times> err option" where
  "pm_Delete eng key partitionID pm =
     (case GetPartition pm partitionID of
        None \<Rightarrow> (pm, Some (ErrPartitionNotFound partitionID))
      | Some part \<Rightarrow>
          if p_Status part \<noteq> NORMAL then (pm, Some (ErrNotWritable partitionID))
          else
            let (db', e) = RocksDB_Delete eng (pm_db pm) (MakePartitionKey partitionID key)
            in (pm\<lparr>pm_db := db'\<rparr>, e))"

definition pm_BatchPut ::
    "('db, 'x) engine_scheme \<Rightarrow> KeyValueItem list \<Rightarrow> u32 \<Rightarrow> 'db PartitionManager \<Rightarrow>
     'db PartitionManager \<times> err option" where
  "pm_BatchPut eng items partitionID pm =
     (case GetPartition pm partitionID of
        None \<Rightarrow> (pm, Some (ErrPartitionNotFound partitionID))
      | Some part \<Rightarrow>
          if p_Status part \<noteq> NORMAL \<and> p_Status part \<noteq> MIGRATING_IN
          then (pm, Some (ErrNotWritable partitionID))
          else
            let storageItems = map (\<lambda>item. \<lparr>kv_Key = MakePartitionKey partitionID (kv_Key item),
                                             kv_Value = kv_Value item\<rparr>) items;
                (db', e) = RocksDB_BatchPut eng (pm_db pm) storageItems
            in (pm\<lparr>pm_db := db'\<rparr>, e))"

section \<open>Update from a route table\<close>

text \<open>The state of the first loop: the table, the gauge and the set \<open>shouldExist\<close>.\<close>

type_synonym route_state = "(u32 \<times> Partition) list \<times> (string \<Rightarrow> int) \<times> u32 list"

fun route_step :: "NodeID \<Rightarrow> pb_PartitionInfo \<Rightarrow> route_state \<Rightarrow> route_state" where
  "route_step nodeID info (parts, gauge, shouldExist) =
     (let isPrimary = (pbi_primary info = nodeID);
          isReplica = (pbi_replica info = nodeID);
          i = pbi_partition_id info;
          st = pbi_status info
      in if isPrimary \<or> isReplica then
           case map_of parts i of
             None \<Rightarrow>
               (AList.update i \<lparr>p_ID = i, p_Status = st, p_IsPrime = isPrimary, p_Epoch = 0\<rparr> parts,
                gauge_Inc (PartitionStatus_String st) gauge, i # shouldExist)
           | Some existing \<Rightarrow>
               (AList.update i (existing\<lparr>p_Status := st, p_IsPrime := isPrimary\<rparr>) parts,
                if p_Status existing \<noteq> st
                then gauge_Inc (PartitionStatus_String st)
                       (gauge_Dec (PartitionStatus_String (p_Status existing)) gauge)
                else gauge,
                i # shouldExist)
         else (parts, gauge, shouldExist))"

definition UpdateFromRouteTable :: "pb_RouteTable \<Rightarrow> 'db PartitionManager \<Rightarrow> 'db PartitionManager" where
  "UpdateFromRouteTable routeTable pm =
     (let (parts, gauge, shouldExist) =
            fold (route_step (pm_nodeID pm)) (pbt_partitions routeTable)
              (pm_partitions pm, pm_gauge pm, []);
          gone = filter (\<lambda>(i, part). i \<notin> set shouldExist) parts
      in pm\<lparr>pm_partitions := filter (\<lambda>(i, part). i \<in> set shouldExist) parts,
            pm_gauge := fold (\<lambda>(i, part). gauge_Dec (PartitionStatus_String (p_Status part))) gone gauge\<rparr>)"

section \<open>Export, import and clearing of data\<close>

record PartitionData =
  pd_PartitionID :: u32
  pd_KeyValues :: "(bytes \<times> bytes) list"

text \<open>
  \<open>encoding/json\<close> on \<open>PartitionData\<close>. A document is the tree of the JSON text. The encoder
  writes a map in the order of its keys, and in every string it replaces each byte that is
  not part of a valid UTF-8 sequence (as \<open>utf8.DecodeRuneInString\<close> has it) by U+FFFD; the
  decoder keeps the last value of a repeated key.
\<close>

datatype PartitionData_json = JSON_PartitionData u32 "(bytes \<times> bytes) list" | JSON_malformed

definition utf8_cont :: "byte \<Rightarrow> bool" where
  "utf8_cont b \<longleftrightarrow> 0x80 \<le> b \<and> b \<le> 0xBF"

text \<open>The length of the valid sequence at the head, 0 if there is none.\<close>

fun utf8_len :: "bytes \<Rightarrow> nat" where
  "utf8_len [] = 0"
| "utf8_len (b0 # bs) =
     (if b0 < 0x80 then 1
      else if 0xC2 \<le> b0 \<and> b0 \<le> 0xDF then
        (case bs of b1 # _ \<Rightarrow> if utf8_cont b1 then 2 else 0 | _ \<Rightarrow> 0)
      else if 0xE0 \<le> b0 \<and> b0 \<le> 0xEF then
        (case bs of
           b1 # b2 # _ \<Rightarrow>
             if utf8_cont b1 \<and> (b0 = 0xE0 \<longrightarrow> 0xA0 \<le> b1) \<and> (b0 = 0xED \<longrightarrow> b1 \<le> 0x9F) \<and> utf8_cont b2
             then 3 else 0
         | _ \<Rightarrow> 0)
      else if 0xF0 \<le> b0 \<and> b0 \<le> 0xF4 then
        (case bs of
           b1 # b2 # b3 # _ \<Rightarrow>
             if utf8_cont b1 \<and> (b0 = 0xF0 \<longrightarrow> 0x90 \<le> b1) \<and> (b0 = 0xF4 \<longrightarrow> b1 \<le> 0x8F) \<and>
                utf8_cont b2 \<and> utf8_cont b3
             then 4 else 0
         | _ \<Rightarrow> 0)
      else 0)"

function utf8_coerce :: "bytes \<Rightarrow> bytes" where
  "utf8_coerce bs =
     (if bs = [] then []
      else if utf8_len bs = 0 then [0xEF, 0xBF, 0xBD] @ utf8_coerce (tl bs)
      else take (utf8_len bs) bs @ utf8_coerce (drop (utf8_len bs) bs))"
  by auto
termination
  by (relation "measure length") auto

declare utf8_coerce.simps [simp del]

definition json_Marshal :: "PartitionData \<Rightarrow> PartitionData_json" where
  "json_Marshal data =
     JSON_PartitionData (pd_PartitionID data)
       (map (\<lambda>k. (utf8_coerce k, utf8_coerce (the (map_of (pd_KeyValues data) k))))
          (sort (map fst (pd_KeyValues data))))"

fun json_Unmarshal :: "PartitionData_json \<Rightarrow> err + PartitionData" where
  "json_Unmarshal (JSON_PartitionData i kvs) =
     Inr \<lparr>pd_PartitionID = i, pd_KeyValues = fold (\<lambda>(k, v). AList.update k v) kvs []\<rparr>"
| "json_Unmarshal JSON_malformed = Inl ErrJSON"

text \<open>The test that ends the scans of a partition; it is never true of a key shorter than \<open>endKey\<close>.\<close>

definition past_end :: "bytes \<Rightarrow> bytes \<Rightarrow> bool" where
  "past_end endKey key \<longleftrightarrow> length endKey \<le> length key \<and> endKey \<le> take (length endKey) key"

fun Export_loop ::
    "u32 \<Rightarrow> bytes \<Rightarrow> (bytes \<times> bytes) list \<Rightarrow> (bytes \<times> bytes) list \<Rightarrow> (bytes \<times> bytes) list" where
  "Export_loop partitionID endKey [] kvs = kvs"
| "Export_loop partitionID endKey ((key, val) # es) kvs =
     (if past_end endKey key then kvs
      else
        case ParsePartitionKey key of
          Inl _ \<Rightarrow> Export_loop partitionID endKey es kvs
        | Inr (pID, originalKey) \<Rightarrow>
            if pID \<noteq> partitionID then Export_loop partitionID endKey es kvs
            else Export_loop partitionID endKey es (AList.update originalKey val kvs))"

definition ExportPartitionData ::
    "('db, 'x) engine_scheme \<Rightarrow> 'db PartitionManager \<Rightarrow> u32 \<Rightarrow> err + PartitionData_json" where
  "ExportPartitionData eng pm partitionID =
     (if \<not> HasPartition pm partitionID then Inl (ErrPartitionNotFound partitionID)
      else
        let (startKey, endKey) = GetPartitionRange partitionID;
            kvs = Export_loop partitionID endKey (fst (eng_Seek eng (pm_db pm) startKey)) []
        in Inr (json_Marshal \<lparr>pd_PartitionID = partitionID, pd_KeyValues = kvs\<rparr>))"

definition ImportPartitionData ::
    "('db, 'x) engine_scheme \<Rightarrow> u32 \<Rightarrow> PartitionData_json \<Rightarrow> 'db PartitionManager \<Rightarrow>
     'db PartitionManager \<times> (err + nat)" where
  "ImportPartitionData eng partitionID jsonData pm =
     (let pm1 =
            (case map_of (pm_partitions pm) partitionID of
               Some _ \<Rightarrow> pm
             | None \<Rightarrow>
                 pm\<lparr>pm_partitions := AList.update partitionID
                      \<lparr>p_ID = partitionID, p_Status = MIGRATING_IN, p_IsPrime = False, p_Epoch = 0\<rparr>
                      (pm_partitions pm),
                    pm_gauge := gauge_Inc (PartitionStatus_String MIGRATING_IN) (pm_gauge pm)\<rparr>)
      in case json_Unmarshal jsonData of
           Inl e \<Rightarrow> (pm1, Inl e)
         | Inr data \<Rightarrow>
             if pd_PartitionID data \<noteq> partitionID
             then (pm1, Inl (ErrPartitionMismatch partitionID (pd_PartitionID data)))
             else
               let items = map (\<lambda>(k, v). \<lparr>kv_Key = MakePartitionKey partitionID k, kv_Value = v\<rparr>)
                             (pd_KeyValues data)
               in if items = [] then (pm1, Inr 0)
                  else
                    case RocksDB_BatchPut eng (pm_db pm1) items of
                      (db', Some e) \<Rightarrow> (pm1\<lparr>pm_db := db'\<rparr>, Inl e)
                    | (db', None) \<Rightarrow> (pm1\<lparr>pm_db := db'\<rparr>, Inr (length items)))"

fun delete_keys :: "('db, 'x) engine_scheme \<Rightarrow> bytes list \<Rightarrow> 'db \<Rightarrow> 'db \<times> err option" where
  "delete_keys eng [] db = (db, None)"
| "delete_keys eng (key # ks) db =
     (case RocksDB_Delete eng db key of
        (db', Some e) \<Rightarrow> (db', Some e)
      | (db', None) \<Rightarrow> delete_keys eng ks db')"

definition ClearPartitionData ::
    "('db, 'x) engine_scheme \<Rightarrow> u32 \<Rightarrow> 'db PartitionManager \<Rightarrow> 'db PartitionManager \<times> err option" where
  "ClearPartitionData eng partitionID pm =
     (let (startKey, endKey) = GetPartitionRange partitionID;
          es = takeWhile (\<lambda>e. \<not> past_end endKey (fst e)) (fst (eng_Seek eng (pm_db pm) startKey));
          (db', e) = delete_keys eng (map fst es) (pm_db pm)
      in (pm\<lparr>pm_db := db'\<rparr>, e))"

section \<open>Well-formed tables and the steps of a manager\<close>

definition table_wf :: "(u32 \<times> Partition) list \<Rightarrow> bool" where
  "table_wf parts \<longleftrightarrow> distinct (map fst parts) \<and> (\<forall>(i, part) \<in> set parts. p_ID part = i)"

definition pm_wf :: "'db PartitionManager \<Rightarrow> bool" where
  "pm_wf pm \<longleftrightarrow> table_wf (pm_partitions pm)"

text \<open>One call of a method that changes the state, whatever it returns.\<close>

inductive pm_step ::
    "('db, 'x) engine_scheme \<Rightarrow> 'db PartitionManager \<Rightarrow> 'db PartitionManager \<Rightarrow> bool" for eng where
  step_Add: "pm_step eng pm (fst (AddPartition i prim pm))"
| step_AddWithEpoch: "pm_step eng pm (fst (AddPartitionWithEpoch i prim epoch pm))"
| step_UpdateEpoch: "pm_step eng pm (fst (UpdatePartitionEpoch i epoch pm))"
| step_Remove: "pm_step eng pm (fst (RemovePartition i pm))"
| step_SetStatus: "pm_step eng pm (fst (SetPartitionStatus i st pm))"
| step_Put: "pm_step eng pm (fst (pm_Put eng key val i pm))"
| step_Delete: "pm_step eng pm (fst (pm_Delete eng key i pm))"
| step_BatchPut: "pm_step eng pm (fst (pm_BatchPut eng items i pm))"
| step_Route: "pm_step eng pm (UpdateFromRouteTable rt pm)"
| step_Import: "pm_step eng pm (fst (ImportPartitionData eng i doc pm))"
| step_Clear: "pm_step eng pm (fst (ClearPartitionData eng i pm))"

inductive_cases pm_stepE: "pm_step eng pm pm'"

text \<open>Executions during which partition \<open>i\<close> stays on the node.\<close>

inductive pm_run ::
    "('db, 'x) engine_scheme \<Rightarrow> u32 \<Rightarrow> 'db PartitionManager \<Rightarrow> 'db PartitionManager \<Rightarrow> bool" for eng i where
  run_refl: "HasPartition pm i \<Longrightarrow> pm_run eng i pm pm"
| run_step: "pm_run eng i pm pm' \<Longrightarrow> pm_step eng pm' pm'' \<Longrightarrow> HasPartition pm'' i \<Longrightarrow> pm_run eng i pm pm''"

lemmas pm_table_defs = AddPartition_def AddPartitionWithEpoch_def UpdatePartitionEpoch_def
  RemovePartition_def SetPartitionStatus_def

lemmas pm_write_defs = pm_Put_def pm_Delete_def pm_BatchPut_def ClearPartitionData_def

lemma set_update_cases: "(i, part) \<in> set (AList.update k v xs) \<Longrightarrow> (i, part) = (k, v) \<or> (i, part) \<in> set xs"
  by (induction xs) (auto split: if_splits)

lemma set_delete_subset: "x \<in> set (AList.delete k xs) \<Longrightarrow> x \<in> set xs"
  by (simp add: AList.delete_eq)

text \<open>The table after one entry and after all entries of a route table.\<close>

definition wanted :: "NodeID \<Rightarrow> pb_PartitionInfo list \<Rightarrow> u32 \<Rightarrow> pb_PartitionInfo option" where
  "wanted nodeID infos i =
     List.find (\<lambda>info. pbi_partition_id info = i \<and> (pbi_primary info = nodeID \<or> pbi_replica info = nodeID))
       (rev infos)"

definition epoch_of :: "(u32 \<times> Partition) list \<Rightarrow> u32 \<Rightarrow> u64" where
  "epoch_of parts i = (case map_of parts i of None \<Rightarrow> 0 | Some part \<Rightarrow> p_Epoch part)"

lemma fold_route_step:
  assumes "fold (route_step nodeID) infos (parts, gauge, []) = (parts', gauge', sh)"
    and "distinct (map fst parts)" and "\<forall>(i, part) \<in> set parts. p_ID part = i"
  shows "distinct (map fst parts') \<and> (\<forall>(i, part) \<in> set parts'. p_ID part = i) \<and>
     (\<forall>i. i \<in> set sh \<longleftrightarrow> wanted nodeID infos i \<noteq> None) \<and>
     (\<forall>i. map_of parts' i =
        (case wanted nodeID infos i of
           None \<Rightarrow> map_of parts i
         | Some info \<Rightarrow> Some \<lparr>p_ID = i, p_Status = pbi_status info,
                              p_IsPrime = (pbi_primary info = nodeID), p_Epoch = epoch_of parts i\<rparr>))"
  using assms(1)
proof (induction infos arbitrary: parts' gauge' sh rule: rev_induct)
  case Nil
  then show ?case
    using assms(2,3) by (simp add: wanted_def)
next
  case (snoc info infos)
  obtain parts1 gauge1 sh1 where f: "fold (route_step nodeID) infos (parts, gauge, []) = (parts1, gauge1, sh1)"
    by (metis prod_cases3)
  note IH = snoc.IH [OF f]
  let ?i = "pbi_partition_id info"
  let ?mine = "pbi_primary info = nodeID \<or> pbi_replica info = nodeID"
  have w: "wanted nodeID (infos @ [info]) i = (if ?mine \<and> ?i = i then Some info else wanted nodeID infos i)" for i
    by (auto simp: wanted_def)
  have step: "route_step nodeID info (parts1, gauge1, sh1) = (parts', gauge', sh)"
    using snoc.prems f by simp
  show ?case
  proof (cases ?mine)
    case False
    then show ?thesis
      using step IH by (simp add: w Let_def)
  next
    case True
    let ?new = "\<lparr>p_ID = ?i, p_Status = pbi_status info, p_IsPrime = (pbi_primary info = nodeID),
                 p_Epoch = epoch_of parts ?i\<rparr>"
    have e: "epoch_of parts1 ?i = epoch_of parts ?i"
      using IH by (auto simp: epoch_of_def split: option.splits)
    have "\<forall>(i, part) \<in> set parts1. p_ID part = i"
      using IH by blast
    then have ID: "map_of parts1 ?i = Some part \<Longrightarrow> p_ID part = ?i" for part
      by (auto dest: map_of_SomeD)
    have p: "parts' = AList.update ?i ?new parts1" and sh: "sh = ?i # sh1"
      using step True ID e
      by (auto simp: Let_def epoch_of_def split: option.splits intro!: arg_cong [where f = "\<lambda>x. AList.update ?i x parts1"])
    have "\<forall>(i, part) \<in> set parts'. p_ID part = i"
      using IH p by (auto dest!: set_update_cases)
    then show ?thesis
      using IH True by (auto simp: p sh w update_conv' distinct_update)
  qed
qed

lemma map_of_filter_key:
  "map_of (filter (\<lambda>(i, x). P i) xs) i = (if P i then map_of xs i else None)"
  by (induction xs) auto

lemma UpdateFromRouteTable_lookup:
  assumes "pm_wf pm"
  shows "pm_wf (UpdateFromRouteTable rt pm)"
    and "map_of (pm_partitions (UpdateFromRouteTable rt pm)) i =
     map_option (\<lambda>info. \<lparr>p_ID = i, p_Status = pbi_status info,
        p_IsPrime = (pbi_primary info = pm_nodeID pm), p_Epoch = epoch_of (pm_partitions pm) i\<rparr>)
       (wanted (pm_nodeID pm) (pbt_partitions rt) i)"
proof -
  obtain parts gauge sh where f: "fold (route_step (pm_nodeID pm)) (pbt_partitions rt)
      (pm_partitions pm, pm_gauge pm, []) = (parts, gauge, sh)"
    by (metis prod_cases3)
  note facts = fold_route_step [OF f]
  have parts: "pm_partitions (UpdateFromRouteTable rt pm) = filter (\<lambda>(i, part). i \<in> set sh) parts"
    using f by (simp add: UpdateFromRouteTable_def)
  show "pm_wf (UpdateFromRouteTable rt pm)"
    using assms facts by (auto simp: pm_wf_def table_wf_def parts distinct_map_filter)
  show "map_of (pm_partitions (UpdateFromRouteTable rt pm)) i =
     map_option (\<lambda>info. \<lparr>p_ID = i, p_Status = pbi_status info,
        p_IsPrime = (pbi_primary info = pm_nodeID pm), p_Epoch = epoch_of (pm_partitions pm) i\<rparr>)
       (wanted (pm_nodeID pm) (pbt_partitions rt) i)"
    using assms facts by (auto simp: pm_wf_def table_wf_def parts map_of_filter_key split: option.splits)
qed

lemma pm_partitions_writes [simp]:
  "pm_partitions (fst (pm_Put eng key val i pm)) = pm_partitions pm"
  "pm_partitions (fst (pm_Delete eng key i pm)) = pm_partitions pm"
  "pm_partitions (fst (pm_BatchPut eng items i pm)) = pm_partitions pm"
  "pm_partitions (fst (ClearPartitionData eng i pm)) = pm_partitions pm"
  by (simp_all add: pm_write_defs Let_def split: option.splits prod.splits)

lemma pm_partitions_Import:
  "pm_partitions (fst (ImportPartitionData eng i doc pm)) =
   (if HasPartition pm i then pm_partitions pm
    else AList.update i \<lparr>p_ID = i, p_Status = MIGRATING_IN, p_IsPrime = False, p_Epoch = 0\<rparr> (pm_partitions pm))"
  by (simp add: ImportPartitionData_def HasPartition_def Let_def split: option.splits sum.splits prod.splits)

lemma table_wf_update [intro]:
  "table_wf parts \<Longrightarrow> p_ID part = i \<Longrightarrow> table_wf (AList.update i part parts)"
  by (auto simp: table_wf_def AList.distinct_update dest!: set_update_cases)

lemma table_wf_delete [intro]: "table_wf parts \<Longrightarrow> table_wf (AList.delete i parts)"
  by (auto simp: table_wf_def AList.distinct_delete dest: set_delete_subset)

lemma table_wf_lookup: "table_wf parts \<Longrightarrow> map_of parts i = Some part \<Longrightarrow> p_ID part = i"
  by (auto simp: table_wf_def dest: map_of_SomeD)

lemma table_wf_modify [intro]:
  "table_wf parts \<Longrightarrow> map_of parts i = Some old \<Longrightarrow> p_ID part = p_ID old \<Longrightarrow>
   table_wf (AList.update i part parts)"
  by (auto dest: table_wf_lookup)

lemma pm_wf_step: "pm_step eng pm pm' \<Longrightarrow> pm_wf pm \<Longrightarrow> pm_wf pm'"
  by (induction rule: pm_step.induct)
    (auto simp: pm_wf_def pm_table_defs pm_partitions_Import UpdateFromRouteTable_lookup(1) [unfolded pm_wf_def]
      split: option.splits)

text \<open>No call lowers the epoch of a partition that it leaves on the node.\<close>

lemma epoch_of_update:
  "epoch_of (AList.update i part parts) j = (if j = i then p_Epoch part else epoch_of parts j)"
  by (simp add: epoch_of_def update_conv')

lemma epoch_of_lookup:
  "map_of parts i = Some part \<Longrightarrow> epoch_of parts i = p_Epoch part"
  "map_of parts i = None \<Longrightarrow> epoch_of parts i = 0"
  by (simp_all add: epoch_of_def)

lemma epoch_step:
  assumes "pm_step eng pm pm'" and "pm_wf pm" and "HasPartition pm' i"
  shows "epoch_of (pm_partitions pm) i \<le> epoch_of (pm_partitions pm') i"
  using assms
proof (induction rule: pm_step.induct)
  case (step_Remove pm j)
  then show ?case
    by (auto simp: RemovePartition_def HasPartition_def epoch_of_def delete_conv' split: option.splits if_splits)
next
  case (step_Route pm rt)
  then show ?case
    by (auto simp: HasPartition_def UpdateFromRouteTable_lookup
        epoch_of_def [of "pm_partitions (UpdateFromRouteTable rt pm)"])
qed (auto simp: pm_table_defs pm_partitions_Import epoch_of_update epoch_of_lookup HasPartition_def
    split: option.splits)

lemma epoch_run:
  "pm_run eng i pm pm' \<Longrightarrow> pm_wf pm \<Longrightarrow>
   pm_wf pm' \<and> HasPartition pm' i \<and> epoch_of (pm_partitions pm) i \<le> epoch_of (pm_partitions pm') i"
  by (induction rule: pm_run.induct) (auto intro: pm_wf_step dest: epoch_step intro: order_trans)

section \<open>The gauge\<close>

definition count_status :: "PartitionStatus \<Rightarrow> (u32 \<times> Partition) list \<Rightarrow> int" where
  "count_status st parts = int (length (filter (\<lambda>(i, part). p_Status part = st) parts))"

text \<open>How far the gauge of a status is from the number of partitions that have it.\<close>

definition drift :: "PartitionStatus \<Rightarrow> (u32 \<times> Partition) list \<Rightarrow> (string \<Rightarrow> int) \<Rightarrow> int" where
  "drift st parts gauge = gauge (PartitionStatus_String st) - count_status st parts"

lemma count_status_update:
  "distinct (map fst parts) \<Longrightarrow>
   count_status st (AList.update i part parts) = count_status st parts +
     (if p_Status part = st then 1 else 0) -
     (case map_of parts i of Some old \<Rightarrow> if p_Status old = st then 1 else 0 | None \<Rightarrow> 0)"
  by (induction parts) (auto simp: count_status_def)

lemma count_status_delete:
  "distinct (map fst parts) \<Longrightarrow>
   count_status st (AList.delete i parts) = count_status st parts -
     (case map_of parts i of Some old \<Rightarrow> if p_Status old = st then 1 else 0 | None \<Rightarrow> 0)"
  by (induction parts) (auto simp: count_status_def dest: imageI [of _ _ fst] split: option.splits)

lemma PartitionStatus_String_normal [simp]: "PartitionStatus_String b \<noteq> ''normal''"
  by (cases b) auto

lemma gauge_apply [simp]:
  "gauge_Inc (PartitionStatus_String a) g (PartitionStatus_String b) =
   g (PartitionStatus_String b) + (if a = b then 1 else 0)"
  "gauge_Dec (PartitionStatus_String a) g (PartitionStatus_String b) =
   g (PartitionStatus_String b) - (if a = b then 1 else 0)"
  "gauge_Inc ''normal'' g (PartitionStatus_String b) = g (PartitionStatus_String b)"
  by (auto simp: gauge_Inc_def gauge_Dec_def)

lemma drift_route_step:
  assumes "distinct (map fst parts)"
  shows "case route_step nodeID info (parts, gauge, sh) of
     (parts', gauge', sh') \<Rightarrow> distinct (map fst parts') \<and> drift st parts' gauge' = drift st parts gauge"
  using assms
  by (auto simp: Let_def drift_def count_status_update AList.distinct_update split: option.splits)

lemma drift_fold_route_step:
  assumes "fold (route_step nodeID) infos (parts, gauge, sh) = (parts', gauge', sh')"
    and "distinct (map fst parts)"
  shows "drift st parts' gauge' = drift st parts gauge"
  using assms
proof (induction infos arbitrary: parts gauge sh)
  case (Cons info infos)
  obtain parts1 gauge1 sh1 where "route_step nodeID info (parts, gauge, sh) = (parts1, gauge1, sh1)"
    by (metis prod_cases3)
  with Cons drift_route_step [where parts = parts and info = info and gauge = gauge and sh = sh and st = st and nodeID = nodeID] show ?case
    by auto
qed simp

lemma fold_gauge_Dec:
  "fold (\<lambda>(i, part). gauge_Dec (PartitionStatus_String (p_Status part))) parts g (PartitionStatus_String st) =
   g (PartitionStatus_String st) - count_status st parts"
  by (induction parts arbitrary: g) (auto simp: count_status_def)

lemma count_status_filter:
  "count_status st (filter P parts) + count_status st (filter (\<lambda>x. \<not> P x) parts) = count_status st parts"
  by (induction parts) (auto simp: count_status_def)

lemma drift_UpdateFromRouteTable:
  assumes "pm_wf pm"
  shows "drift st (pm_partitions (UpdateFromRouteTable rt pm)) (pm_gauge (UpdateFromRouteTable rt pm)) =
     drift st (pm_partitions pm) (pm_gauge pm)"
proof -
  obtain parts gauge sh where f: "fold (route_step (pm_nodeID pm)) (pbt_partitions rt)
      (pm_partitions pm, pm_gauge pm, []) = (parts, gauge, sh)"
    by (metis prod_cases3)
  have "(\<lambda>(i, part :: Partition). i \<notin> set sh) = (\<lambda>x. \<not> (case x of (i, part) \<Rightarrow> i \<in> set sh))"
    by auto
  with count_status_filter [of st "\<lambda>(i, part). i \<in> set sh" parts] show ?thesis
    using f assms drift_fold_route_step [OF f, of st]
    by (simp add: UpdateFromRouteTable_def drift_def fold_gauge_Dec pm_wf_def table_wf_def)
qed

section \<open>The data of a partition\<close>

text \<open>The abstract store: a map from keys to values for every partition.\<close>

definition partition_view :: "contents \<Rightarrow> u32 \<Rightarrow> contents" where
  "partition_view m i = (\<lambda>k. m (MakePartitionKey i k))"

lemma partition_view_upd:
  "partition_view (m(MakePartitionKey i k := v)) = (partition_view m)(i := (partition_view m i)(k := v))"
  by (auto simp: partition_view_def fun_eq_iff)

lemma partition_view_add:
  "partition_view (m ++ map_of (map (\<lambda>(k, v). (MakePartitionKey i k, v)) kvs)) =
   (partition_view m)(i := partition_view m i ++ map_of kvs)"
proof -
  have "map_of (map (\<lambda>(k, v). (MakePartitionKey i k, v)) kvs) (MakePartitionKey j k) =
      (if j = i then map_of kvs k else None)" for j k
    by (induction kvs) auto
  then show ?thesis
    by (auto simp: partition_view_def fun_eq_iff map_add_def split: option.splits)
qed

text \<open>On keys of at least six bytes the end test is the comparison with the end key.\<close>

lemma past_end_iff:
  assumes "length endKey \<le> length key"
  shows "past_end endKey key \<longleftrightarrow> endKey \<le> key"
proof -
  let ?t = "take (length endKey) key" and ?d = "drop (length endKey) key"
  have len: "length ?t = length endKey"
    using assms by simp
  show ?thesis
  proof (cases "?t = endKey")
    case True
    then have "prefix endKey key"
      by (metis append_take_drop_id prefixI)
    with True assms show ?thesis
      by (simp add: past_end_def prefix_le)
  next
    case False
    then have "?t < endKey \<longleftrightarrow> key < endKey"
      using append_less_append_len [of ?t endKey ?d "[]"] len by simp
    then show ?thesis
      using assms by (auto simp: past_end_def simp flip: not_less)
  qed
qed

context rocks_engine
begin

lemma delete_keys_view:
  "delete_keys eng ks db = (db', e) \<Longrightarrow>
   \<exists>ks' \<subseteq> set ks. (e = None \<longrightarrow> ks' = set ks) \<and> view db' = view db |` (- ks')"
proof (induction ks arbitrary: db)
  case Nil
  then show ?case
    by (auto simp: restrict_map_def)
next
  case (Cons k ks)
  obtain db1 e1 where d: "RocksDB_Delete eng db k = (db1, e1)"
    by force
  note v = view_Delete [OF d]
  show ?case
  proof (cases e1)
    case None
    then have "delete_keys eng ks db1 = (db', e)"
      using Cons.prems d by simp
    from Cons.IH [OF this] obtain ks' where "ks' \<subseteq> set ks" "e = None \<longrightarrow> ks' = set ks"
      "view db' = view db1 |` (- ks')"
      by blast
    then show ?thesis
      using v None by (intro exI [of _ "insert k ks'"]) (auto simp: restrict_map_def)
  next
    case (Some x)
    then show ?thesis
      using Cons.prems d v by (intro exI [of _ "{}"]) (auto simp: restrict_map_def)
  qed
qed

text \<open>A scan of a partition's range by the code's end test reads exactly that partition.\<close>

lemma partition_scan:
  assumes range: "GetPartitionRange i = (startKey, endKey)" and "i \<noteq> -1"
    and keys: "\<forall>k \<in> dom (view db). 6 \<le> length k" and ok: "snd (eng_Seek eng db startKey) = None"
  defines "es \<equiv> takeWhile (\<lambda>e. \<not> past_end endKey (fst e)) (fst (eng_Seek eng db startKey))"
  shows "set es = {(k, v). view db k = Some v \<and> (\<exists>x. k = MakePartitionKey i x)}"
    and "distinct (map fst es)"
proof -
  let ?all = "entries_from (view db) startKey"
  have all: "fst (eng_Seek eng db startKey) = ?all"
    using Seek_ok [of db startKey "fst (eng_Seek eng db startKey)"] ok by (simp add: prod_eq_iff)
  have len: "length endKey = 6"
    using range by (auto simp: GetPartitionRange_def)
  have past: "past_end endKey k \<longleftrightarrow> \<not> k < endKey" if "view db k = Some v" for k v
  proof -
    have "6 \<le> length k"
      using keys that by auto
    then show ?thesis
      using past_end_iff [of endKey k] len by (simp add: not_less)
  qed
  have es: "es = filter (\<lambda>e. \<not> past_end endKey (fst e)) ?all"
    unfolding es_def all
  proof (rule entries_from_takeWhile)
    fix x y
    assume "x \<in> dom (view db)" "y \<in> dom (view db)" "x \<le> y" "\<not> past_end endKey y"
    then show "\<not> past_end endKey x"
      using past by (auto intro: le_less_trans)
  qed
  then show "distinct (map fst es)"
    using distinct_entries_from [of "view db" startKey] by (simp add: distinct_map_filter)
  have "(k, v) \<in> set es \<longleftrightarrow> view db k = Some v \<and> startKey \<le> k \<and> k < endKey" for k v
    using past [of k v] set_entries_from [OF finite_view, of db startKey] by (auto simp: es)
  moreover have "view db k = Some v \<Longrightarrow> (startKey \<le> k \<and> k < endKey) = (\<exists>x. k = MakePartitionKey i x)" for k v
    using bspec [OF keys, of k] by (intro partition_range_iff [OF range assms(2)]) auto
  ultimately have "(k, v) \<in> set es \<longleftrightarrow> view db k = Some v \<and> (\<exists>x. k = MakePartitionKey i x)" for k v
    by (cases "view db k = Some v") simp_all
  then show "set es = {(k, v). view db k = Some v \<and> (\<exists>x. k = MakePartitionKey i x)}"
    by auto
qed

lemma pm_Put_view:
  "pm_Put eng key val i pm = (pm', e) \<Longrightarrow>
   view (pm_db pm') = (if e = None then (view (pm_db pm))(MakePartitionKey i key \<mapsto> val) else view (pm_db pm))"
  by (auto simp: pm_Put_def Let_def dest: view_Put split: option.splits if_splits prod.splits)

lemma pm_Delete_view:
  "pm_Delete eng key i pm = (pm', e) \<Longrightarrow>
   view (pm_db pm') = (if e = None then (view (pm_db pm))(MakePartitionKey i key := None) else view (pm_db pm))"
  by (auto simp: pm_Delete_def Let_def dest: view_Delete split: option.splits if_splits prod.splits)

lemma pm_BatchPut_view:
  "pm_BatchPut eng items i pm = (pm', e) \<Longrightarrow>
   view (pm_db pm') =
     (if e = None
      then view (pm_db pm) ++ map_of (map (\<lambda>(k, v). (MakePartitionKey i k, v))
             (rev (map (\<lambda>item. (kv_Key item, kv_Value item)) items)))
      else view (pm_db pm))"
  by (auto simp: pm_BatchPut_def Let_def rev_map comp_def dest!: view_BatchPut
      split: option.splits if_splits prod.splits)

lemma Export_loop_view:
  assumes "\<forall>e \<in> set es. \<not> past_end endKey (fst e)"
    and "\<forall>e \<in> set es. \<exists>x. fst e = MakePartitionKey i x" and "distinct (map fst es)"
  shows "map_of (Export_loop i endKey es kvs) x =
     (case map_of es (MakePartitionKey i x) of Some v \<Rightarrow> Some v | None \<Rightarrow> map_of kvs x)"
  using assms
proof (induction es arbitrary: kvs)
  case (Cons e es)
  obtain k v where e: "e = (MakePartitionKey i k, v)"
    using Cons.prems(2) by (cases e) auto
  have "map_of es (MakePartitionKey i k) = None"
    using Cons.prems(3) e by (simp add: map_of_eq_None_iff)
  then show ?case
    using Cons.IH [of "AList.update k v kvs"] Cons.prems e by (auto simp: update_conv' split: option.splits)
qed simp

lemma Export_loop_takeWhile:
  "Export_loop i endKey es kvs = Export_loop i endKey (takeWhile (\<lambda>e. \<not> past_end endKey (fst e)) es) kvs"
  by (induction i endKey es kvs rule: Export_loop.induct) (auto split: sum.splits)

lemma distinct_Export_loop:
  "distinct (map fst kvs) \<Longrightarrow> distinct (map fst (Export_loop i endKey es kvs))"
  by (induction i endKey es kvs rule: Export_loop.induct) (auto simp: AList.distinct_update split: sum.splits)

lemma Export_loop_scan:
  assumes "GetPartitionRange i = (startKey, endKey)" and "i \<noteq> -1"
    and "\<forall>k \<in> dom (view db). 6 \<le> length k" and "snd (eng_Seek eng db startKey) = None"
  shows "map_of (Export_loop i endKey (fst (eng_Seek eng db startKey)) []) = partition_view (view db) i"
proof
  fix x
  let ?es = "takeWhile (\<lambda>e. \<not> past_end endKey (fst e)) (fst (eng_Seek eng db startKey))"
  note scan = partition_scan [OF assms]
  have "map_of ?es k = Some v \<longleftrightarrow> view db k = Some v" if "k = MakePartitionKey i x" for k v
    using scan that by auto
  then have "map_of ?es (MakePartitionKey i x) = partition_view (view db) i x"
    by (metis not_Some_eq partition_view_def)
  moreover have "map_of (Export_loop i endKey ?es []) x = map_of ?es (MakePartitionKey i x)"
  proof (subst Export_loop_view)
    show "\<forall>e \<in> set ?es. \<not> past_end endKey (fst e)"
      by (auto dest: set_takeWhileD)
    show "\<forall>e \<in> set ?es. \<exists>x. fst e = MakePartitionKey i x"
      using scan(1) by auto
  qed (use scan(2) in \<open>auto split: option.splits\<close>)
  ultimately show "map_of (Export_loop i endKey (fst (eng_Seek eng db startKey)) []) x = partition_view (view db) i x"
    using Export_loop_takeWhile [of i endKey "fst (eng_Seek eng db startKey)" "[]"] by simp
qed

end

text \<open>A document of data that is valid UTF-8 comes back from the JSON codec as it was.\<close>

lemma json_roundtrip:
  assumes "distinct (map fst (pd_KeyValues data))"
    and "\<forall>(k, v) \<in> set (pd_KeyValues data). utf8_coerce k = k \<and> utf8_coerce v = v"
  shows "\<exists>data'. json_Unmarshal (json_Marshal data) = Inr data' \<and> pd_PartitionID data' = pd_PartitionID data \<and>
     map_of (pd_KeyValues data') = map_of (pd_KeyValues data) \<and> distinct (map fst (pd_KeyValues data'))"
proof -
  let ?kvs = "pd_KeyValues data"
  let ?doc = "map (\<lambda>k. (utf8_coerce k, utf8_coerce (the (map_of ?kvs k)))) (sort (map fst ?kvs))"
  have doc: "?doc = map (\<lambda>k. (k, the (map_of ?kvs k))) (sort (map fst ?kvs))"
    using assms by (auto simp: map_of_eq_Some_iff)
  have "set ?doc = set ?kvs"
    unfolding doc using assms(1) by force
  moreover have "distinct (map fst (rev ?doc))"
  proof -
    have "map fst ?doc = sort (map fst ?kvs)"
      unfolding doc by (simp add: comp_def)
    then show ?thesis
      using assms(1) by (simp only: rev_map [symmetric] distinct_rev distinct_sort)
  qed
  ultimately have "map_of (rev ?doc) = map_of ?kvs"
    using assms(1) by (simp only: map_of_inject_set set_rev)
  then show ?thesis
    by (simp add: json_Marshal_def map_of_fold_update distinct_fold_update del: rev_map map_map)
qed

section \<open>Properties\<close>

text \<open>
  C2. The partition manager implements a store with a map per partition: a write that
  returns no error changes exactly the keys it names in the partition it names, and only
  if the partition is on the node with a writable status; a write that returns an error
  changes no data; a read returns what the map has.
\<close>

theorem partition_store_refines:
  assumes "rocks_engine eng view"
  shows "(pm_Put eng key val i pm = (pm', e) \<longrightarrow>
      partition_view (view (pm_db pm')) =
        (if e = None
         then (partition_view (view (pm_db pm)))(i := (partition_view (view (pm_db pm)) i)(key \<mapsto> val))
         else partition_view (view (pm_db pm))) \<and>
      (e = None \<longrightarrow> (\<exists>part. GetPartition pm i = Some part \<and> p_Status part \<in> {NORMAL, MIGRATING_IN}))) \<and>
    (pm_Delete eng key i pm = (pm', e) \<longrightarrow>
      partition_view (view (pm_db pm')) =
        (if e = None
         then (partition_view (view (pm_db pm)))(i := (partition_view (view (pm_db pm)) i)(key := None))
         else partition_view (view (pm_db pm))) \<and>
      (e = None \<longrightarrow> (\<exists>part. GetPartition pm i = Some part \<and> p_Status part = NORMAL))) \<and>
    (pm_BatchPut eng items i pm = (pm', e) \<longrightarrow>
      partition_view (view (pm_db pm')) =
        (if e = None
         then (partition_view (view (pm_db pm)))(i := partition_view (view (pm_db pm)) i ++
                map_of (rev (map (\<lambda>item. (kv_Key item, kv_Value item)) items)))
         else partition_view (view (pm_db pm)))) \<and>
    (pm_Get eng pm key i = Inr r \<longrightarrow> HasPartition pm i \<and> r = partition_view (view (pm_db pm)) i key)"
proof (intro conjI impI)
  assume "pm_Put eng key val i pm = (pm', e)"
  from rocks_engine.pm_Put_view [OF assms this]
  show "partition_view (view (pm_db pm')) =
        (if e = None
         then (partition_view (view (pm_db pm)))(i := (partition_view (view (pm_db pm)) i)(key \<mapsto> val))
         else partition_view (view (pm_db pm)))"
    by (simp add: partition_view_upd)
next
  assume "pm_Delete eng key i pm = (pm', e)"
  from rocks_engine.pm_Delete_view [OF assms this]
  show "partition_view (view (pm_db pm')) =
        (if e = None
         then (partition_view (view (pm_db pm)))(i := (partition_view (view (pm_db pm)) i)(key := None))
         else partition_view (view (pm_db pm)))"
    by (simp add: partition_view_upd)
next
  assume "pm_BatchPut eng items i pm = (pm', e)"
  from rocks_engine.pm_BatchPut_view [OF assms this]
  show "partition_view (view (pm_db pm')) =
        (if e = None
         then (partition_view (view (pm_db pm)))(i := partition_view (view (pm_db pm)) i ++
                map_of (rev (map (\<lambda>item. (kv_Key item, kv_Value item)) items)))
         else partition_view (view (pm_db pm)))"
    by (cases "e = None") (simp_all only: partition_view_add simp_thms if_True if_False)
next
  assume "pm_Get eng pm key i = Inr r"
  then show "HasPartition pm i" "r = partition_view (view (pm_db pm)) i key"
    using rocks_engine.Get_found [OF assms]
    by (auto simp: pm_Get_def partition_view_def split: if_splits)
qed (auto simp: pm_Put_def pm_Delete_def split: option.splits if_splits)

definition example_pm :: "PartitionStatus \<Rightarrow> mem PartitionManager" where
  "example_pm st = \<lparr>pm_nodeID = ''n1'',
     pm_partitions = [(7, \<lparr>p_ID = 7, p_Status = st, p_IsPrime = True, p_Epoch = 3\<rparr>)],
     pm_db = [(MakePartitionKey 7 [1], [10]), (MakePartitionKey 8 [1], [20])], pm_gauge = (\<lambda>_. 0)\<rparr>"

theorem partition_store_refines_witness:
  "partition_view (map_of (pm_db (fst (pm_Put (mem_engine None) [2] [30] 7 (example_pm NORMAL))))) 7 [2] = Some [30]"
proof -
  let ?r = "pm_Put (mem_engine None) [2] [30] 7 (example_pm NORMAL)"
  have "snd ?r = None"
    by (simp add: pm_Put_def example_pm_def GetPartition_def RocksDB_Put_def mem_engine_def mem_write_def)
  moreover have "?r = (fst ?r, snd ?r)"
    by simp
  ultimately show ?thesis
    using partition_store_refines [OF mem.rocks_engine_axioms, of "None" "[2]" "[30]" 7 "example_pm NORMAL" "fst ?r" "snd ?r"]
    by simp
qed

text \<open>
  \<open>ClearPartitionData\<close> removes only keys of its partition, and all of them when it
  returns no error, provided every key of the database has the six bytes of a partition
  prefix and the iterator reads to its end.
\<close>

theorem ClearPartitionData_exact:
  assumes "rocks_engine eng view" and "i \<noteq> -1"
    and "\<forall>k \<in> dom (view (pm_db pm)). 6 \<le> length k"
    and "snd (eng_Seek eng (pm_db pm) (fst (GetPartitionRange i))) = None"
    and "ClearPartitionData eng i pm = (pm', e)"
  shows "((\<forall>x. k \<noteq> MakePartitionKey i x) \<longrightarrow> view (pm_db pm') k = view (pm_db pm) k) \<and>
         (e = None \<longrightarrow> partition_view (view (pm_db pm')) i = Map.empty)"
proof -
  obtain startKey endKey where range: "GetPartitionRange i = (startKey, endKey)"
    by force
  let ?es = "takeWhile (\<lambda>e. \<not> past_end endKey (fst e)) (fst (eng_Seek eng (pm_db pm) startKey))"
  have scan: "set ?es = {(k, v). view (pm_db pm) k = Some v \<and> (\<exists>x. k = MakePartitionKey i x)}"
    using assms range by (intro rocks_engine.partition_scan(1)) simp_all
  have "delete_keys eng (map fst ?es) (pm_db pm) = (pm_db pm', e)"
    using assms(5) range by (auto simp: ClearPartitionData_def split: prod.splits)
  from rocks_engine.delete_keys_view [OF assms(1) this]
  obtain ks' where ks': "ks' \<subseteq> set (map fst ?es)" "e = None \<longrightarrow> ks' = set (map fst ?es)"
    "view (pm_db pm') = view (pm_db pm) |` (- ks')"
    by blast
  have dom: "set (map fst ?es) = {k \<in> dom (view (pm_db pm)). \<exists>x. k = MakePartitionKey i x}"
    unfolding set_map scan by force
  show ?thesis
    using ks'(1,2) unfolding dom ks'(3) by (auto simp: restrict_map_def partition_view_def)
qed

lemma delete_keys_mem: "snd (delete_keys (mem_engine None) ks db) = None"
  by (induction ks arbitrary: db) (simp_all add: RocksDB_Delete_def mem_engine_def mem_write_def)

theorem ClearPartitionData_exact_witness:
  "let pm' = fst (ClearPartitionData (mem_engine None) 7 (example_pm NORMAL))
   in partition_view (map_of (pm_db pm')) 7 = Map.empty \<and>
      map_of (pm_db pm') (MakePartitionKey 8 [1]) = Some [20]"
proof -
  let ?r = "ClearPartitionData (mem_engine None) 7 (example_pm NORMAL)"
  have e: "snd ?r = None"
    using delete_keys_mem by (simp add: ClearPartitionData_def split: prod.splits) (metis snd_conv)
  have r: "ClearPartitionData (mem_engine None) 7 (example_pm NORMAL) = (fst ?r, snd ?r)"
    by simp
  have "map_of (pm_db (example_pm NORMAL)) (MakePartitionKey 8 [1]) = Some [20]"
    by (simp add: example_pm_def)
  moreover have "\<forall>k \<in> dom (map_of (pm_db (example_pm NORMAL))). 6 \<le> length k"
    by (simp add: example_pm_def dom_map_of_conv_image_fst)
  ultimately show ?thesis
    using ClearPartitionData_exact [OF mem.rocks_engine_axioms _ _ _ r, of "MakePartitionKey 8 [1]"] e
    by (simp add: mem_engine_def)
qed

text \<open>
  \<open>UpdateFromRouteTable\<close> leaves exactly the partitions whose entry names this node as
  primary or replica, with the role and status of that entry (the last one, if an id
  occurs twice). The epoch of the entry is not taken over: a known partition keeps its
  epoch and a new one starts at 0.
\<close>

theorem UpdateFromRouteTable_exact:
  assumes "pm_wf pm"
  shows "pm_wf (UpdateFromRouteTable rt pm) \<and>
     GetPartition (UpdateFromRouteTable rt pm) i =
       (case wanted (pm_nodeID pm) (pbt_partitions rt) i of
          None \<Rightarrow> None
        | Some info \<Rightarrow>
            Some \<lparr>p_ID = i, p_Status = pbi_status info, p_IsPrime = (pbi_primary info = pm_nodeID pm),
                  p_Epoch = (case GetPartition pm i of None \<Rightarrow> 0 | Some part \<Rightarrow> p_Epoch part)\<rparr>)"
  using UpdateFromRouteTable_lookup [OF assms]
  by (simp add: GetPartition_def epoch_of_def split: option.splits)

definition example_info :: "NodeID \<Rightarrow> u32 \<Rightarrow> pb_PartitionInfo" where
  "example_info node i = \<lparr>pbi_partition_id = i, pbi_primary = node, pbi_replica = ''n9'', pbi_status = NORMAL,
     pbi_migration_target = [], pbi_migration_state = MIGRATION_NONE, pbi_epoch = 5\<rparr>"

theorem UpdateFromRouteTable_exact_witness:
  "let pm' = UpdateFromRouteTable \<lparr>pbt_partitions = [example_info ''n1'' 9, example_info ''n2'' 7], pbt_version = 1\<rparr>
               (example_pm NORMAL)
   in GetPartition pm' 9 = Some \<lparr>p_ID = 9, p_Status = NORMAL, p_IsPrime = True, p_Epoch = 0\<rparr> \<and>
      GetPartition pm' 7 = None"
proof -
  have "pm_wf (example_pm NORMAL)"
    by (simp add: example_pm_def pm_wf_def table_wf_def)
  from UpdateFromRouteTable_exact [OF this] show ?thesis
    by (simp add: wanted_def example_info_def example_pm_def GetPartition_def)
qed

text \<open>
  C5. Fencing tokens stay fenced: as long as a partition remains on the node, no sequence
  of calls makes \<open>ValidateEpoch\<close> accept an epoch below the one the partition had before.
\<close>

theorem stale_epoch_fenced:
  assumes "pm_run eng i pm pm'" and "pm_wf pm"
    and "GetPartition pm i = Some part" and "requestEpoch < p_Epoch part"
  shows "\<exists>current. ValidateEpoch pm' i requestEpoch = Some (ErrEpochMismatch requestEpoch current) \<and>
     p_Epoch part \<le> current"
proof -
  obtain part' where part': "map_of (pm_partitions pm') i = Some part'"
    using epoch_run [OF assms(1,2)] by (auto simp: HasPartition_def)
  then have "p_Epoch part \<le> p_Epoch part'"
    using epoch_run [OF assms(1,2)] assms(3) by (simp add: GetPartition_def epoch_of_lookup)
  then show ?thesis
    using part' assms(4) by (auto simp: ValidateEpoch_def)
qed

theorem stale_epoch_fenced_witness:
  "\<exists>current. ValidateEpoch (fst (UpdatePartitionEpoch 7 4 (example_pm NORMAL))) 7 2 =
     Some (ErrEpochMismatch 2 current) \<and> 3 \<le> current"
proof -
  let ?pm' = "fst (UpdatePartitionEpoch 7 4 (example_pm NORMAL))"
  have "HasPartition ?pm' 7"
    by (simp add: example_pm_def UpdatePartitionEpoch_def HasPartition_def)
  then have "pm_run (mem_engine None) 7 (example_pm NORMAL) ?pm'"
    by (intro run_step [OF run_refl step_UpdateEpoch]) (simp_all add: HasPartition_def example_pm_def)
  from stale_epoch_fenced [OF this, of _ 2] show ?thesis
    by (simp add: example_pm_def pm_wf_def table_wf_def GetPartition_def)
qed

text \<open>
  The partition gauge: removing a partition, changing its status and applying a route
  table keep the difference between the gauge of each status and the number of partitions
  with that status; adding a partition does not: it counts under the label \<open>normal\<close>, which
  is the label of no status, so the gauge of \<open>NORMAL\<close> falls behind by one.
\<close>

theorem gauge_drift:
  assumes "pm_wf pm"
  shows "drift st (pm_partitions (UpdateFromRouteTable rt pm)) (pm_gauge (UpdateFromRouteTable rt pm)) =
           drift st (pm_partitions pm) (pm_gauge pm) \<and>
         drift st (pm_partitions (fst (RemovePartition i pm))) (pm_gauge (fst (RemovePartition i pm))) =
           drift st (pm_partitions pm) (pm_gauge pm) \<and>
         drift st (pm_partitions (fst (SetPartitionStatus i st' pm))) (pm_gauge (fst (SetPartitionStatus i st' pm))) =
           drift st (pm_partitions pm) (pm_gauge pm) \<and>
         drift st (pm_partitions (fst (AddPartition i prim pm))) (pm_gauge (fst (AddPartition i prim pm))) =
           drift st (pm_partitions pm) (pm_gauge pm) -
             (if st = NORMAL \<and> \<not> HasPartition pm i then 1 else 0)"
  using assms
  by (intro conjI drift_UpdateFromRouteTable)
    (auto simp: pm_table_defs drift_def count_status_update count_status_delete HasPartition_def
      pm_wf_def table_wf_def simp del: PartitionStatus_String.simps split: option.splits)

theorem gauge_drift_witness:
  "drift NORMAL (pm_partitions (fst (AddPartition 9 True (example_pm NORMAL))))
     (pm_gauge (fst (AddPartition 9 True (example_pm NORMAL)))) = -2"
proof -
  have "pm_wf (example_pm NORMAL)"
    by (simp add: example_pm_def pm_wf_def table_wf_def)
  from gauge_drift [OF this, of NORMAL _ 9 _ True] show ?thesis
    by (simp add: drift_def count_status_def HasPartition_def) (simp add: example_pm_def)
qed

text \<open>
  Exporting a partition and importing the document on another node copies the
  partition, if its keys and values are valid UTF-8: the target has its own data
  overridden by the source's.
\<close>

theorem export_import:
  assumes eng: "rocks_engine eng view" and "i \<noteq> -1"
    and "\<forall>k \<in> dom (view (pm_db src)). 6 \<le> length k"
    and "snd (eng_Seek eng (pm_db src) (fst (GetPartitionRange i))) = None"
    and utf8: "\<forall>k v. partition_view (view (pm_db src)) i k = Some v \<longrightarrow> utf8_coerce k = k \<and> utf8_coerce v = v"
    and "ExportPartitionData eng src i = Inr doc"
    and imp: "ImportPartitionData eng i doc dst = (dst', Inr n)"
  shows "partition_view (view (pm_db dst')) =
     (partition_view (view (pm_db dst)))
       (i := partition_view (view (pm_db dst)) i ++ partition_view (view (pm_db src)) i)"
proof -
  obtain startKey endKey where range: "GetPartitionRange i = (startKey, endKey)"
    by force
  define kvs where "kvs = Export_loop i endKey (fst (eng_Seek eng (pm_db src) startKey)) []"
  have kvs: "map_of kvs = partition_view (view (pm_db src)) i" "distinct (map fst kvs)"
    using rocks_engine.Export_loop_scan [OF eng range assms(2,3)] assms(4) range
    by (simp_all add: kvs_def rocks_engine.distinct_Export_loop [OF eng])
  have doc: "doc = json_Marshal \<lparr>pd_PartitionID = i, pd_KeyValues = kvs\<rparr>"
    using assms(6) range by (auto simp: ExportPartitionData_def kvs_def split: if_splits)
  have "\<forall>(k, v) \<in> set kvs. utf8_coerce k = k \<and> utf8_coerce v = v"
  proof clarify
    fix k v
    assume "(k, v) \<in> set kvs"
    then have "partition_view (view (pm_db src)) i k = Some v"
      using kvs(2) by (simp flip: kvs(1))
    then show "utf8_coerce k = k \<and> utf8_coerce v = v"
      using utf8 by simp
  qed
  then obtain data where data: "json_Unmarshal doc = Inr data" "pd_PartitionID data = i"
    "map_of (pd_KeyValues data) = map_of kvs" "distinct (map fst (pd_KeyValues data))"
    using json_roundtrip [of "\<lparr>pd_PartitionID = i, pd_KeyValues = kvs\<rparr>"] kvs(2) doc by auto
  have rev: "map_of (rev (pd_KeyValues data)) = map_of (pd_KeyValues data)"
    using data(4) by (simp add: map_of_inject_set flip: rev_map)
  let ?items = "map (\<lambda>(k, v). \<lparr>kv_Key = MakePartitionKey i k, kv_Value = v\<rparr>) (pd_KeyValues data)"
  have "(?items = [] \<and> pm_db dst' = pm_db dst) \<or> RocksDB_BatchPut eng (pm_db dst) ?items = (pm_db dst', None)"
    using imp data(1,2) by (auto simp: ImportPartitionData_def Let_def split: option.splits if_splits prod.splits)
  then have "view (pm_db dst') = view (pm_db dst) ++ map_of (rev (map (\<lambda>item. (kv_Key item, kv_Value item)) ?items))"
    by (elim disjE) (simp, simp add: rocks_engine.view_BatchPut [OF eng])
  also have "map (\<lambda>item. (kv_Key item, kv_Value item)) ?items =
      map (\<lambda>(k, v). (MakePartitionKey i k, v)) (pd_KeyValues data)"
    by auto
  finally have "view (pm_db dst') = view (pm_db dst) ++
      map_of (map (\<lambda>(k, v). (MakePartitionKey i k, v)) (rev (pd_KeyValues data)))"
    by (simp only: rev_map)
  then show ?thesis
    using rev data(3) kvs(1) by (simp only: partition_view_add)
qed

theorem export_import_witness:
  "let doc = JSON_PartitionData 7 [([1], [10])];
       dst = NewPartitionManager ''n2'' [] (\<lambda>_. 0)
   in ExportPartitionData (mem_engine None) (example_pm NORMAL) 7 = Inr doc \<and>
      partition_view (map_of (pm_db (fst (ImportPartitionData (mem_engine None) 7 doc dst)))) 7 [1] = Some [10]"
proof -
  let ?doc = "JSON_PartitionData 7 [([1], [10])]"
  let ?dst = "NewPartitionManager ''n2'' [] (\<lambda>_. 0) :: mem PartitionManager"
  let ?src = "example_pm NORMAL"
  have coerce: "utf8_coerce [x] = [x]" if "x < 0x80" for x
    using that by (simp add: utf8_coerce.simps)
  have view: "partition_view (map_of (pm_db ?src)) 7 = [[1] \<mapsto> [10]]"
    by (auto simp: example_pm_def partition_view_def)
  have exp: "ExportPartitionData (mem_engine None) ?src 7 = Inr ?doc"
    by code_simp
  obtain dst' where imp: "ImportPartitionData (mem_engine None) 7 ?doc ?dst = (dst', Inr 1)"
    by (simp add: ImportPartitionData_def NewPartitionManager_def RocksDB_BatchPut_def mem_engine_def mem_write_def)
  have "\<forall>k \<in> dom (map_of (pm_db ?src)). 6 \<le> length k"
    by (simp add: example_pm_def dom_map_of_conv_image_fst)
  moreover have "\<forall>k v. partition_view (map_of (pm_db ?src)) 7 k = Some v \<longrightarrow> utf8_coerce k = k \<and> utf8_coerce v = v"
    by (simp add: view coerce)
  moreover have "snd (eng_Seek (mem_engine None) (pm_db ?src) (fst (GetPartitionRange 7))) = None"
    by (simp add: mem_engine_def)
  ultimately have "partition_view (map_of (pm_db dst')) 7 = partition_view (map_of (pm_db ?dst)) 7 ++ [[1] \<mapsto> [10]]"
    using export_import [OF mem.rocks_engine_axioms _ _ _ _ exp imp] by (simp add: view)
  then show ?thesis
    using exp imp by (simp add: Let_def)
qed

end
