(* ===== verification/Command_Entry.thy ===== *)
theory Command_Entry
  imports Prelude
begin

text \<open>
  Entries of the command log, \<open>src/pkg/storage/command_log.go\<close>: the CRC-32 of
  \<open>hash/crc32\<close>, the layout of an entry, its decoder, and the reading of a file up to its
  first entry that does not decode. The codec is an instance of a stream codec: a proper
  prefix of an encoded entry never decodes, which is what makes torn writes harmless.
\<close>

unbundle bit_operations_syntax

section \<open>CRC-32\<close>

text \<open>
  The reflected IEEE polynomial, one bit, one byte and a byte string at a time. The 32-bit
  register is an integer below \<open>2\<^sup>3\<^sup>2\<close>, since shifting right and exclusive-or never leave
  that range.
\<close>

fun crc32_bits :: "nat \<Rightarrow> int \<Rightarrow> int" where
  "crc32_bits 0 crc = crc"
| "crc32_bits (Suc n) crc =
     crc32_bits n (if odd crc then (crc div 2) XOR 0xEDB88320 else crc div 2)"

definition crc32_byte :: "int \<Rightarrow> byte \<Rightarrow> int" where
  "crc32_byte crc b = crc32_bits 8 (crc XOR uint b)"

definition crc32_ChecksumIEEE :: "bytes \<Rightarrow> u32" where
  "crc32_ChecksumIEEE bs = word_of_int (foldl crc32_byte 0xFFFFFFFF bs XOR 0xFFFFFFFF)"

lemma crc32_check: "crc32_ChecksumIEEE [0x31, 0x32, 0x33, 0x34, 0x35, 0x36, 0x37, 0x38, 0x39] = 0xCBF43926"
  by code_simp

section \<open>Entries\<close>

definition CmdTypePut :: byte where "CmdTypePut = 1"

definition CmdTypeDelete :: byte where "CmdTypeDelete = 2"

definition CmdTypeFieldBatch :: byte where "CmdTypeFieldBatch = 3"

record CommandEntry =
  ce_Sequence :: u64
  ce_Timestamp :: u64
  ce_CmdType :: byte
  ce_KeyLen :: u32
  ce_ValueLen :: u32
  ce_Key :: bytes
  ce_Value :: bytes
  ce_CRC :: u32

definition entry_header :: "CommandEntry \<Rightarrow> bytes" where
  "entry_header e =
     PutUint64 (ce_Sequence e) @ PutUint64 (ce_Timestamp e) @ [ce_CmdType e] @
     PutUint32 (ce_KeyLen e) @ PutUint32 (ce_ValueLen e)"

definition CommandEntry_Encode :: "CommandEntry \<Rightarrow> bytes" where
  "CommandEntry_Encode e =
     (let buf = entry_header e @ ce_Key e @ ce_Value e
      in buf @ PutUint32 (crc32_ChecksumIEEE buf))"

definition ComputeEntryCRC :: "bytes \<Rightarrow> bytes \<Rightarrow> bytes \<Rightarrow> u32" where
  "ComputeEntryCRC header key val = crc32_ChecksumIEEE (header @ key @ val)"

definition DecodeCommandEntry :: "bytes \<Rightarrow> err + CommandEntry \<times> bytes" where
  "DecodeCommandEntry r =
     (case reader_ReadFull 25 r of Inl e \<Rightarrow> Inl e | Inr (header, r) \<Rightarrow>
      let keyLen = Uint32 (drop 17 header); valueLen = Uint32 (drop 21 header) in
      (case reader_ReadFull (unat keyLen) r of Inl e \<Rightarrow> Inl e | Inr (key, r) \<Rightarrow>
       (case (if valueLen > 0 then reader_ReadFull (unat valueLen) r else Inr ([], r)) of
          Inl e \<Rightarrow> Inl e | Inr (val, r) \<Rightarrow>
        (case reader_ReadFull 4 r of Inl e \<Rightarrow> Inl e | Inr (crcBuf, r) \<Rightarrow>
         let storedCRC = Uint32 crcBuf; expectedCRC = ComputeEntryCRC header key val in
         if storedCRC \<noteq> expectedCRC then Inl (ErrCrcMismatch storedCRC expectedCRC)
         else Inr (\<lparr>ce_Sequence = Uint64 header, ce_Timestamp = Uint64 (drop 8 header),
                    ce_CmdType = header ! 16, ce_KeyLen = keyLen, ce_ValueLen = valueLen,
                    ce_Key = key, ce_Value = val, ce_CRC = storedCRC\<rparr>, r)))))"

section \<open>Lemmas\<close>

lemma length_entry_header [simp]: "length (entry_header e) = 25"
  by (simp add: entry_header_def)

lemma length_Encode: "length (CommandEntry_Encode e) = 29 + length (ce_Key e) + length (ce_Value e)"
  by (simp add: CommandEntry_Encode_def Let_def)

lemma header_fields:
  "Uint64 (entry_header e) = ce_Sequence e" "Uint64 (drop 8 (entry_header e)) = ce_Timestamp e"
  "entry_header e ! 16 = ce_CmdType e" "Uint32 (drop 17 (entry_header e)) = ce_KeyLen e"
  "Uint32 (drop 21 (entry_header e)) = ce_ValueLen e"
proof -
  have [simp]: "drop 17 (entry_header e) = PutUint32 (ce_KeyLen e) @ PutUint32 (ce_ValueLen e)"
    "drop 21 (entry_header e) = PutUint32 (ce_ValueLen e)"
    by (simp_all add: entry_header_def)
  show "Uint64 (entry_header e) = ce_Sequence e" "Uint64 (drop 8 (entry_header e)) = ce_Timestamp e"
    "Uint32 (drop 17 (entry_header e)) = ce_KeyLen e"
    by (simp_all) (simp_all add: entry_header_def)
  show "Uint32 (drop 21 (entry_header e)) = ce_ValueLen e"
    using Uint32_PutUint32 [of _ "[]"] by simp
  show "entry_header e ! 16 = ce_CmdType e"
    by (simp add: entry_header_def nth_append)
qed

text \<open>What a decoder consumes is the encoding of what it returns.\<close>

lemma decode_consumes:
  assumes "DecodeCommandEntry r = Inr (e, rest)"
  shows "length rest + 29 \<le> length r"
  using assms
  by (auto simp: DecodeCommandEntry_def reader_ReadFull_def Let_def split: if_splits)

text \<open>The entries of a file up to the first that does not decode, as the reading loops see them.\<close>

function decode_all :: "bytes \<Rightarrow> CommandEntry list" where
  "decode_all r =
     (case DecodeCommandEntry r of Inl _ \<Rightarrow> [] | Inr (e, rest) \<Rightarrow> e # decode_all rest)"
  by auto
termination
  by (relation "measure length") (auto dest!: decode_consumes)

declare decode_all.simps [simp del]

section \<open>The stream codec\<close>

text \<open>
  A stream codec: a self-delimiting codec in which a proper prefix of an encoded value does
  not decode. A stream of encoded values that was cut off anywhere is read back as the values
  that are complete.
\<close>

locale stream_codec = codec enc dec valid for enc :: "'a \<Rightarrow> bytes" and dec valid +
  fixes all :: "bytes \<Rightarrow> 'a list"
  assumes torn: "valid x \<Longrightarrow> strict_prefix p (enc x) \<Longrightarrow> \<exists>e. dec p = Inl e"
    and dec_Nil: "\<exists>e. dec [] = Inl e"
    and all_rec: "all r = (case dec r of Inl _ \<Rightarrow> [] | Inr (x, rest) \<Rightarrow> x # all rest)"
begin

lemma all_append: "\<forall>x \<in> set xs. valid x \<Longrightarrow> all (concat (map enc xs) @ r) = xs @ all r"
proof (induction xs)
  case (Cons x xs)
  then show ?case
    by (subst all_rec) (simp add: decode_encode)
qed simp

lemma all_torn: "valid x \<Longrightarrow> strict_prefix p (enc x) \<Longrightarrow> all p = []"
  using torn [of x p] by (subst all_rec) auto

lemma all_stream: "\<forall>x \<in> set xs. valid x \<Longrightarrow> valid y \<Longrightarrow> strict_prefix p (enc y) \<Longrightarrow>
   all (concat (map enc xs) @ p) = xs"
  using all_torn [of y p] by (simp add: all_append)

text \<open>Any cut of a stream falls into some entry: the complete entries before it survive.\<close>

lemma all_cut:
  assumes "\<forall>x \<in> set xs. valid x" and "prefix p (concat (map enc xs))"
  shows "\<exists>n \<le> length xs. all p = take n xs \<and> length (concat (map enc (take n xs))) \<le> length p \<and>
     (n < length xs \<longrightarrow> length p < length (concat (map enc (take (Suc n) xs))))"
  using assms
proof (induction xs arbitrary: p)
  case Nil
  then show ?case
    using all_rec [of "[]"] dec_Nil by auto
next
  case (Cons x xs)
  show ?case
  proof (cases "length p < length (enc x)")
    case True
    then have "strict_prefix p (enc x)"
      using Cons.prems(2) by (auto simp: strict_prefix_def prefix_append)
    then show ?thesis
      using Cons.prems(1) True all_torn [of x p] by (intro exI [of _ 0]) simp
  next
    case False
    then obtain q where q: "p = enc x @ q" "prefix q (concat (map enc xs))"
      using Cons.prems(2) by (auto simp: prefix_def append_eq_append_conv2)
    obtain n where "n \<le> length xs" "all q = take n xs" "length (concat (map enc (take n xs))) \<le> length q"
      "n < length xs \<longrightarrow> length q < length (concat (map enc (take (Suc n) xs)))"
      using Cons.IH [OF _ q(2)] Cons.prems(1) by auto
    moreover have "all p = x # all q"
      using Cons.prems(1) q(1) by (subst all_rec) (simp add: decode_encode)
    ultimately show ?thesis
      using q(1) by (intro exI [of _ "Suc n"]) simp
  qed
qed

end

definition entry_valid :: "CommandEntry \<Rightarrow> bool" where
  "entry_valid e \<longleftrightarrow> length (ce_Key e) < 2 ^ 32 \<and> length (ce_Value e) < 2 ^ 32 \<and>
     ce_KeyLen e = of_nat (length (ce_Key e)) \<and> ce_ValueLen e = of_nat (length (ce_Value e)) \<and>
     ce_CRC e = crc32_ChecksumIEEE (entry_header e @ ce_Key e @ ce_Value e)"

lemma reader_ReadFull_take:
  "length a \<le> m \<Longrightarrow> reader_ReadFull (length a) (take m (a @ b)) = Inr (a, take (m - length a) b)"
  by (simp add: reader_ReadFull_def)

lemma Decode_take:
  assumes "entry_valid e" and m: "m < length (CommandEntry_Encode e)"
  shows "\<exists>er. DecodeCommandEntry (take m (CommandEntry_Encode e)) = Inl er"
proof -
  let ?h = "entry_header e" and ?k = "ce_Key e" and ?v = "ce_Value e"
  obtain c where c: "CommandEntry_Encode e = ?h @ ?k @ ?v @ c" "length c = 4"
    by (simp add: CommandEntry_Encode_def Let_def)
  have lens: "unat (ce_KeyLen e) = length ?k" "unat (ce_ValueLen e) = length ?v"
    and pos: "0 < ce_ValueLen e \<longleftrightarrow> ?v \<noteq> []"
    using assms(1) by (simp_all add: entry_valid_def)
  have short: "m' < n \<Longrightarrow> \<exists>er. reader_ReadFull n (take m' r) = Inl er" for m' n r
    by (rule reader_ReadFull_short) simp
  consider (header) "m < 25" | (key) "25 \<le> m" "m - 25 < length ?k"
    | (val) "25 + length ?k \<le> m" "m - 25 - length ?k < length ?v"
    | (crc) "25 + length ?k + length ?v \<le> m" "m - 25 - length ?k - length ?v < 4"
    using m by (force simp: length_Encode)
  then show ?thesis
  proof cases
    case header
    with short [of m 25 "CommandEntry_Encode e"] show ?thesis
      by (auto simp: DecodeCommandEntry_def)
  next
    case key
    with reader_ReadFull_take [of ?h m "?k @ ?v @ c"] short [of "m - 25" "length ?k" "?k @ ?v @ c"]
    show ?thesis
      by (auto simp: DecodeCommandEntry_def Let_def c(1) header_fields lens simp del: take_append)
  next
    case val
    with reader_ReadFull_take [of ?h m "?k @ ?v @ c"] reader_ReadFull_take [of ?k "m - 25" "?v @ c"]
      short [of "m - 25 - length ?k" "length ?v" "?v @ c"]
    show ?thesis
      by (auto simp: DecodeCommandEntry_def Let_def c(1) header_fields lens pos simp del: take_append)
  next
    case crc
    with reader_ReadFull_take [of ?h m "?k @ ?v @ c"] reader_ReadFull_take [of ?k "m - 25" "?v @ c"]
      reader_ReadFull_take [of ?v "m - 25 - length ?k" c] short [of "m - 25 - length ?k - length ?v" 4 c]
    show ?thesis
      by (auto simp: DecodeCommandEntry_def Let_def c(1) header_fields lens pos simp del: take_append)
  qed
qed

interpretation entries: stream_codec CommandEntry_Encode DecodeCommandEntry entry_valid decode_all
proof
  fix e rest
  assume v: "entry_valid e"
  have lens: "unat (ce_KeyLen e) = length (ce_Key e)" "unat (ce_ValueLen e) = length (ce_Value e)"
    and pos: "0 < ce_ValueLen e \<longleftrightarrow> ce_Value e \<noteq> []"
    using v by (simp_all add: entry_valid_def)
  have crc: "Uint32 (PutUint32 x) = x" for x
    using Uint32_PutUint32 [of x "[]"] by simp
  show "DecodeCommandEntry (CommandEntry_Encode e @ rest) = Inr (e, rest)"
    using v by (cases "ce_Value e = []"; cases e)
      (simp_all add: DecodeCommandEntry_def CommandEntry_Encode_def Let_def header_fields lens pos
        ComputeEntryCRC_def entry_valid_def crc)
next
  fix e p
  assume "entry_valid e" and "strict_prefix p (CommandEntry_Encode e)"
  moreover from this have "p = take (length p) (CommandEntry_Encode e)" "length p < length (CommandEntry_Encode e)"
    by (auto simp: strict_prefix_def prefix_def)
  ultimately show "\<exists>er. DecodeCommandEntry p = Inl er"
    using Decode_take by metis
next
  show "\<exists>er. DecodeCommandEntry [] = Inl er"
    by (simp add: DecodeCommandEntry_def reader_ReadFull_def)
next
  fix r
  show "decode_all r = (case DecodeCommandEntry r of Inl _ \<Rightarrow> [] | Inr (x, rest) \<Rightarrow> x # decode_all rest)"
    by (rule decode_all.simps)
qed

section \<open>Properties\<close>

text \<open>
  C10. A log file that was cut off at any byte is read back as exactly the entries that are
  complete in it: \<open>DecodeCommandEntry\<close> inverts \<open>CommandEntry.Encode\<close>, never accepts a
  partial entry, and stops at the cut.
\<close>

theorem torn_log_recovery:
  assumes "\<forall>e \<in> set es. entry_valid e" and "prefix p (concat (map CommandEntry_Encode es))"
  shows "\<exists>n \<le> length es. decode_all p = take n es \<and>
     length (concat (map CommandEntry_Encode (take n es))) \<le> length p \<and>
     (n < length es \<longrightarrow> length p < length (concat (map CommandEntry_Encode (take (Suc n) es))))"
  using assms by (rule entries.all_cut)

theorem torn_log_recovery_witness:
  "decode_all (CommandEntry_Encode \<lparr>ce_Sequence = 1, ce_Timestamp = 0, ce_CmdType = CmdTypePut, ce_KeyLen = 1,
     ce_ValueLen = 0, ce_Key = [7], ce_Value = [], ce_CRC = crc32_ChecksumIEEE (entry_header \<lparr>ce_Sequence = 1,
     ce_Timestamp = 0, ce_CmdType = CmdTypePut, ce_KeyLen = 1, ce_ValueLen = 0, ce_Key = [7], ce_Value = [],
     ce_CRC = 0\<rparr> @ [7])\<rparr>) \<noteq> []"
proof -
  let ?e = "\<lparr>ce_Sequence = 1, ce_Timestamp = 0, ce_CmdType = CmdTypePut, ce_KeyLen = 1,
     ce_ValueLen = 0, ce_Key = [7], ce_Value = [], ce_CRC = crc32_ChecksumIEEE (entry_header \<lparr>ce_Sequence = 1,
     ce_Timestamp = 0, ce_CmdType = CmdTypePut, ce_KeyLen = 1, ce_ValueLen = 0, ce_Key = [7], ce_Value = [],
     ce_CRC = 0\<rparr> @ [7])\<rparr>"
  have "entry_valid ?e"
    by (simp add: entry_valid_def entry_header_def)
  with torn_log_recovery [of "[?e]" "CommandEntry_Encode ?e"]
  obtain n where "n \<le> 1" "decode_all (CommandEntry_Encode ?e) = take n [?e]"
    "n < 1 \<longrightarrow> length (CommandEntry_Encode ?e) < length (concat (map CommandEntry_Encode (take (Suc n) [?e])))"
    by auto
  then show ?thesis
    by (cases n) auto
qed

end
