(* ===== verification/Command_Log.thy ===== *)
theory Command_Log
  imports Command_Entry Field_Storage
begin

text \<open>
  The command log of a partition, \<open>src/pkg/storage/command_log.go\<close>: appending through the
  buffered writer of \<open>bufio\<close>, rotation, syncing, recovery, reading by index and by full
  scan, and replay into a database.

  The directory of the log is a list of files, each named by the time of its creation; the
  names \<open>%020d.cmdlog\<close> sort as the numbers do. A file holds the bytes that were written to
  it; the bytes still in the buffer are lost when the process ends. Of every file a number of
  bytes is on stable storage, \<open>cl_durable\<close>: \<open>fsync\<close> makes it the whole file, nothing else raises it,
  and a crash of the machine may cut the file off anywhere behind it. What a new log
  finds in its directory counts as stable. A fault \<open>(n, e)\<close> of the
  device lets a write put down \<open>n\<close> bytes and then return \<open>e\<close>, and makes every other call
  return \<open>e\<close>; reading always works. The clock is an argument of the operations that ask for
  the time. A log returned by \<open>NewCommandLog\<close> always has a file and a writer.
\<close>

section \<open>State\<close>

definition LogFileMaxSize :: int where "LogFileMaxSize = 64 * 1024 * 1024"

definition LogBufferSize :: nat where "LogBufferSize = 4 * 1024 * 1024"

record bufio_Writer =
  bw_buf :: bytes
  bw_err :: "err option"

record logPosition =
  lp_fileNum :: nat
  lp_offset :: int

record CommandLog =
  cl_partitionID :: u32
  cl_files :: "(nat \<times> bytes) list"
  cl_durable :: "(nat \<times> nat) list"
  cl_fault :: "(nat \<times> err) option"
  cl_currentFile :: nat
  cl_fileOpen :: bool
  cl_writer :: bufio_Writer
  cl_currentSize :: int
  cl_currentSeq :: u64
  cl_lastSyncSeq :: u64
  cl_index :: "(u64 \<times> logPosition) list"
  cl_closed :: bool

section \<open>Files and the buffered writer\<close>

definition file_content :: "CommandLog \<Rightarrow> nat \<Rightarrow> bytes" where
  "file_content cl n = (case map_of (cl_files cl) n of None \<Rightarrow> [] | Some bs \<Rightarrow> bs)"

definition file_Write :: "bytes \<Rightarrow> CommandLog \<Rightarrow> CommandLog \<times> nat \<times> err option" where
  "file_Write p cl =
     (let add = (\<lambda>d. cl\<lparr>cl_files := AList.update (cl_currentFile cl)
                     (file_content cl (cl_currentFile cl) @ d) (cl_files cl)\<rparr>) in
      if \<not> cl_fileOpen cl then (cl, 0, Some ErrFileClosed)
      else
        case cl_fault cl of
          None \<Rightarrow> (add p, length p, None)
        | Some (n, e) \<Rightarrow> (add (take n p), min n (length p), Some e))"

definition file_Sync :: "CommandLog \<Rightarrow> CommandLog \<times> err option" where
  "file_Sync cl =
     (if \<not> cl_fileOpen cl then (cl, Some ErrFileClosed)
      else
        case cl_fault cl of
          Some (_, e) \<Rightarrow> (cl, Some e)
        | None \<Rightarrow>
            (cl\<lparr>cl_durable := AList.update (cl_currentFile cl) (length (file_content cl (cl_currentFile cl)))
                (cl_durable cl)\<rparr>, None))"

definition bufio_Flush :: "CommandLog \<Rightarrow> CommandLog \<times> err option" where
  "bufio_Flush cl =
     (let w = cl_writer cl in
      case bw_err w of
        Some e \<Rightarrow> (cl, Some e)
      | None \<Rightarrow>
          if bw_buf w = [] then (cl, None)
          else
            let (cl', n, e) = file_Write (bw_buf w) cl
            in (cl'\<lparr>cl_writer := \<lparr>bw_buf = drop n (bw_buf w), bw_err = e\<rparr>\<rparr>, e))"

text \<open>\<open>bufio.Writer.Write\<close>: \<open>nn\<close> is the number of bytes taken so far.\<close>

function bufio_Write :: "bytes \<Rightarrow> nat \<Rightarrow> CommandLog \<Rightarrow> CommandLog \<times> nat \<times> err option" where
  "bufio_Write p nn cl =
     (let w = cl_writer cl; available = LogBufferSize - length (bw_buf w) in
      if available < length p \<and> bw_err w = None then
        if bw_buf w = [] then
          let (cl', n, e) = file_Write p cl
          in bufio_Write (drop n p) (nn + n) (cl'\<lparr>cl_writer := w\<lparr>bw_err := e\<rparr>\<rparr>)
        else
          let cl' = fst (bufio_Flush (cl\<lparr>cl_writer := w\<lparr>bw_buf := bw_buf w @ take available p\<rparr>\<rparr>))
          in bufio_Write (drop available p) (nn + available) cl'
      else
        case bw_err w of
          Some e \<Rightarrow> (cl, nn, Some e)
        | None \<Rightarrow> (cl\<lparr>cl_writer := w\<lparr>bw_buf := bw_buf w @ p\<rparr>\<rparr>, nn + length p, None))"
  by auto
termination
proof (relation "measures [\<lambda>(p, nn, cl). if bw_err (cl_writer cl) = None then 1 else 0,
    \<lambda>(p, nn, cl). length p, \<lambda>(p, nn, cl). length (bw_buf (cl_writer cl))]", simp)
qed (auto simp: file_Write_def bufio_Flush_def Let_def split: if_splits option.splits prod.splits)

declare bufio_Write.simps [simp del]

section \<open>Writing\<close>

definition openNewLogFile :: "nat \<Rightarrow> CommandLog \<Rightarrow> CommandLog \<times> err option" where
  "openNewLogFile now cl =
     (case cl_fault cl of
        Some (_, e) \<Rightarrow> (cl, Some e)
      | None \<Rightarrow>
          (cl\<lparr>cl_files := AList.update now (file_content cl now) (cl_files cl),
              cl_currentFile := now, cl_fileOpen := True,
              cl_writer := \<lparr>bw_buf = [], bw_err = None\<rparr>, cl_currentSize := 0\<rparr>, None))"

definition rotateLogFile :: "nat \<Rightarrow> CommandLog \<Rightarrow> CommandLog \<times> err option" where
  "rotateLogFile now cl =
     (case bufio_Flush cl of
        (cl1, Some e) \<Rightarrow> (cl1, Some e)
      | (cl1, None) \<Rightarrow>
          (case file_Sync cl1 of
             (cl2, Some e) \<Rightarrow> (cl2, Some e)
           | (cl2, None) \<Rightarrow> openNewLogFile now (cl2\<lparr>cl_fileOpen := False\<rparr>)))"

text \<open>
  \<open>Append\<close>; \<open>ts\<close> is the time stamp of the entry and \<open>now\<close> the time of a rotation. The signal
  to the background sync only makes a later \<open>Sync\<close> happen earlier.
\<close>

definition cl_Append ::
    "nat \<Rightarrow> nat \<Rightarrow> byte \<Rightarrow> bytes \<Rightarrow> bytes \<Rightarrow> CommandLog \<Rightarrow> CommandLog \<times> (err + u64)" where
  "cl_Append ts now cmdType key val cl =
     (if cl_closed cl then (cl, Inl ErrLogClosed)
      else
        let seq = cl_currentSeq cl + 1;
            cl0 = cl\<lparr>cl_currentSeq := seq\<rparr>;
            entry = \<lparr>ce_Sequence = seq, ce_Timestamp = of_nat ts, ce_CmdType = cmdType,
                     ce_KeyLen = of_nat (length key), ce_ValueLen = of_nat (length val),
                     ce_Key = key, ce_Value = val, ce_CRC = 0\<rparr>;
            data = CommandEntry_Encode entry;
            (cl1, e1) = (if cl_currentSize cl0 + int (length data) > LogFileMaxSize
                         then rotateLogFile now cl0 else (cl0, None))
        in case e1 of
             Some e \<Rightarrow> (cl1, Inl e)
           | None \<Rightarrow>
               let offset = cl_currentSize cl1; (cl2, n, e2) = bufio_Write data 0 cl1
               in case e2 of
                    Some e \<Rightarrow> (cl2, Inl e)
                  | None \<Rightarrow>
                      (cl2\<lparr>cl_currentSize := cl_currentSize cl2 + int n,
                           cl_index := AList.update seq
                             \<lparr>lp_fileNum = cl_currentFile cl2, lp_offset = offset\<rparr> (cl_index cl2)\<rparr>,
                       Inr seq))"

definition AppendPut :: "nat \<Rightarrow> nat \<Rightarrow> bytes \<Rightarrow> bytes \<Rightarrow> CommandLog \<Rightarrow> CommandLog \<times> (err + u64)" where
  "AppendPut ts now key val = cl_Append ts now CmdTypePut key val"

definition AppendDelete :: "nat \<Rightarrow> nat \<Rightarrow> bytes \<Rightarrow> CommandLog \<Rightarrow> CommandLog \<times> (err + u64)" where
  "AppendDelete ts now key = cl_Append ts now CmdTypeDelete key []"

definition AppendFieldBatch :: "nat \<Rightarrow> nat \<Rightarrow> bytes \<Rightarrow> CommandLog \<Rightarrow> CommandLog \<times> (err + u64)" where
  "AppendFieldBatch ts now batchData = cl_Append ts now CmdTypeFieldBatch [] batchData"

definition GetCurrentSequence :: "CommandLog \<Rightarrow> u64" where
  "GetCurrentSequence cl = cl_currentSeq cl"

definition GetSyncedSequence :: "CommandLog \<Rightarrow> u64" where
  "GetSyncedSequence cl = cl_lastSyncSeq cl"

definition cl_Sync :: "CommandLog \<Rightarrow> CommandLog \<times> err option" where
  "cl_Sync cl =
     (case bufio_Flush cl of
        (cl1, Some e) \<Rightarrow> (cl1, Some e)
      | (cl1, None) \<Rightarrow>
          (case file_Sync cl1 of
             (cl2, Some e) \<Rightarrow> (cl2, Some e)
           | (cl2, None) \<Rightarrow> (cl2\<lparr>cl_lastSyncSeq := cl_currentSeq cl2\<rparr>, None)))"

definition cl_Close :: "CommandLog \<Rightarrow> CommandLog" where
  "cl_Close cl =
     (if cl_closed cl then cl
      else (fst (file_Sync (fst (bufio_Flush (cl\<lparr>cl_closed := True\<rparr>)))))\<lparr>cl_fileOpen := False\<rparr>)"

definition cl_Truncate :: "u64 \<Rightarrow> CommandLog \<Rightarrow> CommandLog \<times> err option" where
  "cl_Truncate beforeSeq cl = (cl, None)"

section \<open>Reading\<close>

text \<open>The files in the order of their names, as \<open>filepath.Glob\<close> and \<open>sort.Strings\<close> give them.\<close>

definition log_files :: "(nat \<times> bytes) list \<Rightarrow> (nat \<times> bytes) list" where
  "log_files fs = sort_key fst fs"

fun read_entries :: "nat \<Rightarrow> u64 \<Rightarrow> CommandEntry list \<Rightarrow> CommandEntry list \<Rightarrow> CommandEntry list" where
  "read_entries limit fromSeq [] entries = entries"
| "read_entries limit fromSeq (entry # es) entries =
     (if \<not> length entries < limit then entries
      else read_entries limit fromSeq es
             (if fromSeq \<le> ce_Sequence entry then entries @ [entry] else entries))"

fun read_files :: "nat \<Rightarrow> u64 \<Rightarrow> bytes list \<Rightarrow> CommandEntry list \<Rightarrow> CommandEntry list" where
  "read_files limit fromSeq [] entries = entries"
| "read_files limit fromSeq (f # fs) entries =
     (if \<not> length entries < limit then entries
      else read_files limit fromSeq fs (read_entries limit fromSeq (decode_all f) entries))"

definition readFromFullScan :: "u64 \<Rightarrow> nat \<Rightarrow> CommandLog \<Rightarrow> CommandEntry list" where
  "readFromFullScan fromSeq limit cl = read_files limit fromSeq (map snd (log_files (cl_files cl))) []"

definition readFromIndex :: "logPosition \<Rightarrow> u64 \<Rightarrow> nat \<Rightarrow> CommandLog \<Rightarrow> err + CommandEntry list" where
  "readFromIndex startPos fromSeq limit cl =
     (case dropWhile (\<lambda>f. fst f \<noteq> lp_fileNum startPos) (log_files (cl_files cl)) of
        [] \<Rightarrow> Inl ErrIndexedFileNotFound
      | (_, bs) # fs \<Rightarrow>
          Inr (read_files limit fromSeq (drop (nat (lp_offset startPos)) bs # map snd fs) []))"

text \<open>
  The first indexed sequence number from \<open>fromSeq\<close> on. (The loop over 64-bit numbers never
  reaches the largest one.)
\<close>

definition index_start :: "u64 \<Rightarrow> CommandLog \<Rightarrow> logPosition option" where
  "index_start fromSeq cl =
     (case List.find (\<lambda>seq. map_of (cl_index cl) (of_nat seq) \<noteq> None)
             [unat fromSeq ..< Suc (unat (cl_currentSeq cl))] of
        None \<Rightarrow> None
      | Some seq \<Rightarrow> map_of (cl_index cl) (of_nat seq))"

definition cl_ReadFrom :: "u64 \<Rightarrow> nat \<Rightarrow> CommandLog \<Rightarrow> CommandEntry list" where
  "cl_ReadFrom fromSeq limit cl =
     (case index_start fromSeq cl of
        None \<Rightarrow> readFromFullScan fromSeq limit cl
      | Some startPos \<Rightarrow>
          (case readFromIndex startPos fromSeq limit cl of
             Inl _ \<Rightarrow> readFromFullScan fromSeq limit cl
           | Inr indexEntries \<Rightarrow>
               if indexEntries \<noteq> [] then indexEntries else readFromFullScan fromSeq limit cl))"

section \<open>Recovery\<close>

fun recover_file ::
    "nat \<Rightarrow> CommandEntry list \<Rightarrow> int \<Rightarrow> (u64 \<times> logPosition) list \<times> u64 \<Rightarrow> (u64 \<times> logPosition) list \<times> u64" where
  "recover_file fileNum [] offset st = st"
| "recover_file fileNum (entry # es) offset (index, maxSeq) =
     recover_file fileNum es
       (offset + int (8 + 8 + 1 + 4 + 4 + length (ce_Key entry) + length (ce_Value entry) + 4))
       (AList.update (ce_Sequence entry) \<lparr>lp_fileNum = fileNum, lp_offset = offset\<rparr> index,
        if ce_Sequence entry > maxSeq then ce_Sequence entry else maxSeq)"

definition cl_recover :: "CommandLog \<Rightarrow> CommandLog" where
  "cl_recover cl =
     (if cl_files cl = [] then cl
      else
        let (index, maxSeq) = fold (\<lambda>(fileNum, f). recover_file fileNum (decode_all f) 0)
              (log_files (cl_files cl)) (cl_index cl, 0)
        in cl\<lparr>cl_index := index, cl_currentSeq := maxSeq, cl_lastSyncSeq := maxSeq\<rparr>)"

definition NewCommandLog ::
    "u32 \<Rightarrow> (nat \<times> bytes) list \<Rightarrow> (nat \<times> err) option \<Rightarrow> nat \<Rightarrow> err + CommandLog" where
  "NewCommandLog partitionID files fault now =
     (let cl = \<lparr>cl_partitionID = partitionID, cl_files = files,
               cl_durable = map (\<lambda>(n, bs). (n, length bs)) files, cl_fault = fault, cl_currentFile = 0,
               cl_fileOpen = False, cl_writer = \<lparr>bw_buf = [], bw_err = None\<rparr>, cl_currentSize = 0,
               cl_currentSeq = 0, cl_lastSyncSeq = 0, cl_index = [], cl_closed = False\<rparr>
      in case fault of
           Some (_, e) \<Rightarrow> Inl e
         | None \<Rightarrow>
             (case openNewLogFile now (cl_recover cl) of
                (_, Some e) \<Rightarrow> Inl e
              | (cl', None) \<Rightarrow> Inr cl'))"

section \<open>Replay\<close>

definition apply_entry ::
    "('db, 'x) engine_scheme \<Rightarrow> u32 \<Rightarrow> CommandEntry \<Rightarrow> 'db \<Rightarrow> 'db \<times> err option" where
  "apply_entry eng logPartition entry db =
     (if ce_CmdType entry = CmdTypePut then RocksDB_Put eng db (ce_Key entry) (ce_Value entry)
      else if ce_CmdType entry = CmdTypeDelete then RocksDB_Delete eng db (ce_Key entry)
      else if ce_CmdType entry = CmdTypeFieldBatch then
        (case DecodeFieldBatch (ce_Value entry) of
           Inl e \<Rightarrow> (db, Some e)
         | Inr fb \<Rightarrow>
             let partitionID = (if fb_PartitionID fb = 0 then logPartition else fb_PartitionID fb)
             in ApplyFieldBatch eng db partitionID fb)
      else (db, None))"

fun replay_entries ::
    "('db, 'x) engine_scheme \<Rightarrow> u32 \<Rightarrow> u64 \<Rightarrow> CommandEntry list \<Rightarrow> 'db \<times> u64 \<Rightarrow> ('db \<times> u64) \<times> err option" where
  "replay_entries eng logPartition fromSeq [] (db, lastSeq) = ((db, lastSeq), None)"
| "replay_entries eng logPartition fromSeq (entry # es) (db, lastSeq) =
     (if ce_Sequence entry \<le> fromSeq then replay_entries eng logPartition fromSeq es (db, lastSeq)
      else
        case apply_entry eng logPartition entry db of
          (db', Some e) \<Rightarrow> ((db', lastSeq), Some (ErrReplay (ce_Sequence entry) e))
        | (db', None) \<Rightarrow> replay_entries eng logPartition fromSeq es (db', ce_Sequence entry))"

fun replay_files ::
    "('db, 'x) engine_scheme \<Rightarrow> u32 \<Rightarrow> u64 \<Rightarrow> bytes list \<Rightarrow> 'db \<times> u64 \<Rightarrow> ('db \<times> u64) \<times> err option" where
  "replay_files eng logPartition fromSeq [] st = (st, None)"
| "replay_files eng logPartition fromSeq (f # fs) st =
     (case replay_entries eng logPartition fromSeq (decode_all f) st of
        (st', Some e) \<Rightarrow> (st', Some e)
      | (st', None) \<Rightarrow> replay_files eng logPartition fromSeq fs st')"

definition cl_ReplayTo ::
    "('db, 'x) engine_scheme \<Rightarrow> 'db \<Rightarrow> u64 \<Rightarrow> CommandLog \<Rightarrow> ('db \<times> u64) \<times> err option" where
  "cl_ReplayTo eng db fromSeq cl =
     replay_files eng (cl_partitionID cl) fromSeq (map snd (log_files (cl_files cl))) (db, 0)"

section \<open>The buffered writer\<close>

text \<open>What was written to the current file and what is still buffered.\<close>

definition written :: "CommandLog \<Rightarrow> bytes" where
  "written cl = file_content cl (cl_currentFile cl) @ bw_buf (cl_writer cl)"

definition healthy :: "CommandLog \<Rightarrow> bool" where
  "healthy cl \<longleftrightarrow> cl_fault cl = None \<and> cl_fileOpen cl \<and> bw_err (cl_writer cl) = None \<and>
     length (bw_buf (cl_writer cl)) \<le> LogBufferSize"

text \<open>The state with another content of the current file and another buffer.\<close>

definition set_content :: "bytes \<Rightarrow> bytes \<Rightarrow> CommandLog \<Rightarrow> CommandLog" where
  "set_content d b cl =
     cl\<lparr>cl_files := AList.update (cl_currentFile cl) d (cl_files cl),
        cl_writer := \<lparr>bw_buf = b, bw_err = None\<rparr>\<rparr>"

lemma set_content_simps [simp]:
  "cl_currentFile (set_content d b cl) = cl_currentFile cl"
  "cl_durable (set_content d b cl) = cl_durable cl"
  "cl_fault (set_content d b cl) = cl_fault cl" "cl_fileOpen (set_content d b cl) = cl_fileOpen cl"
  "cl_writer (set_content d b cl) = \<lparr>bw_buf = b, bw_err = None\<rparr>"
  "cl_files (set_content d b cl) = AList.update (cl_currentFile cl) d (cl_files cl)"
  "cl_currentSize (set_content d b cl) = cl_currentSize cl"
  "cl_currentSeq (set_content d b cl) = cl_currentSeq cl"
  "cl_lastSyncSeq (set_content d b cl) = cl_lastSyncSeq cl"
  "cl_index (set_content d b cl) = cl_index cl" "cl_closed (set_content d b cl) = cl_closed cl"
  "cl_partitionID (set_content d b cl) = cl_partitionID cl"
  "file_content (set_content d b cl) (cl_currentFile cl) = d"
  "set_content d' b' (set_content d b cl) = set_content d' b' cl"
  by (simp_all add: set_content_def file_content_def update_conv')

lemma set_content_self:
  "healthy cl \<Longrightarrow> map_of (cl_files cl) (cl_currentFile cl) \<noteq> None \<Longrightarrow>
   set_content (file_content cl (cl_currentFile cl)) (bw_buf (cl_writer cl)) cl = cl"
  by (cases cl) (auto simp: set_content_def file_content_def healthy_def AList.update_triv)

lemma Flush_ok:
  assumes "healthy cl" and "map_of (cl_files cl) (cl_currentFile cl) \<noteq> None"
  shows "bufio_Flush cl = (set_content (written cl) [] cl, None)"
proof (cases "bw_buf (cl_writer cl) = []")
  case True
  then show ?thesis
    using set_content_self [OF assms] assms(1)
    by (simp add: bufio_Flush_def healthy_def written_def)
next
  case False
  then show ?thesis
    using assms by (simp add: bufio_Flush_def healthy_def file_Write_def written_def set_content_def)
qed

lemma healthy_set_content:
  "healthy cl \<Longrightarrow> length b \<le> LogBufferSize \<Longrightarrow> healthy (set_content d b cl)"
  by (simp add: healthy_def)

lemma Write_fits:
  assumes "healthy cl" and "map_of (cl_files cl) (cl_currentFile cl) \<noteq> None"
    and "length (bw_buf (cl_writer cl)) + length p \<le> LogBufferSize"
  shows "bufio_Write p nn cl =
     (set_content (file_content cl (cl_currentFile cl)) (bw_buf (cl_writer cl) @ p) cl, nn + length p, None)"
  using assms by (subst bufio_Write.simps, cases "cl_writer cl")
    (auto simp: Let_def healthy_def set_content_def file_content_def AList.update_triv)

lemma Write_direct:
  assumes "healthy cl" and "map_of (cl_files cl) (cl_currentFile cl) \<noteq> None"
    and "bw_buf (cl_writer cl) = []" and "LogBufferSize < length p"
  shows "bufio_Write p nn cl = (set_content (written cl @ p) [] cl, nn + length p, None)"
proof -
  let ?cl = "set_content (written cl @ p) [] cl"
  have "bufio_Write p nn cl = bufio_Write [] (nn + length p) ?cl"
    using assms by (subst bufio_Write.simps) 
      (simp add: Let_def healthy_def file_Write_def set_content_def written_def, cases "cl_writer cl", simp)
  also have "\<dots> = (?cl, nn + length p, None)"
    using Write_fits [of ?cl "[]" "nn + length p"] assms by (simp add: healthy_set_content update_conv')
  finally show ?thesis .
qed

lemma Write_ok:
  assumes "healthy cl" and "map_of (cl_files cl) (cl_currentFile cl) \<noteq> None"
  shows "\<exists>d b. bufio_Write p nn cl = (set_content d b cl, nn + length p, None) \<and>
     d @ b = written cl @ p \<and> length b \<le> LogBufferSize \<and> prefix (file_content cl (cl_currentFile cl)) d"
proof -
  let ?buf = "bw_buf (cl_writer cl)" and ?c = "file_content cl (cl_currentFile cl)"
  consider (fits) "length ?buf + length p \<le> LogBufferSize"
    | (direct) "?buf = []" "LogBufferSize < length p"
    | (fill) "?buf \<noteq> []" "LogBufferSize < length ?buf + length p"
    by force
  then show ?thesis
  proof cases
    case fits
    then show ?thesis
      using Write_fits [OF assms] by (intro exI) (auto simp: written_def)
  next
    case direct
    then show ?thesis
      using Write_direct [OF assms] by (intro exI) (auto simp: written_def)
  next
    case fill
    define a where "a = LogBufferSize - length ?buf"
    have a: "a < length p" "length ?buf + a = LogBufferSize"
      using fill assms(1) by (auto simp: a_def healthy_def)
    let ?cl1 = "set_content (?c @ ?buf @ take a p) [] cl"
    have h1: "healthy ?cl1" "map_of (cl_files ?cl1) (cl_currentFile ?cl1) \<noteq> None"
      using assms by (simp_all add: healthy_set_content update_conv')
    have "bufio_Write p nn cl = bufio_Write (drop a p) (nn + a) ?cl1"
      using fill a assms
      by (subst bufio_Write.simps)
        (simp add: Let_def healthy_def a_def bufio_Flush_def file_Write_def set_content_def file_content_def)
    moreover obtain d b where "bufio_Write (drop a p) (nn + a) ?cl1 = (set_content d b cl, nn + length p, None)"
        "d @ b = written cl @ p" "length b \<le> LogBufferSize" "prefix ?c d"
    proof (cases "LogBufferSize < length (drop a p)")
      case True
      then show ?thesis
        using Write_direct [OF h1, of "drop a p" "nn + a"] a(1)
        by (intro that [of "?c @ ?buf @ p" "[]"]) (simp_all add: written_def)
    next
      case False
      then show ?thesis
        using Write_fits [OF h1, of "drop a p" "nn + a"] a(1)
        by (intro that [of "?c @ ?buf @ take a p" "drop a p"]) (simp_all add: written_def)
    qed
    ultimately show ?thesis
      by auto
  qed
qed

section \<open>The invariant of a log\<close>

text \<open>
  A log consists of older files, each a sequence of entries and a tail in which nothing
  decodes (left by a crash), and of the current file, whose entries are on disk or in the
  buffer.
\<close>

type_synonym old_files = "(nat \<times> CommandEntry list \<times> bytes) list"

abbreviation enc_all :: "CommandEntry list \<Rightarrow> bytes" where
  "enc_all es \<equiv> concat (map CommandEntry_Encode es)"

definition log_entries :: "old_files \<Rightarrow> CommandEntry list \<Rightarrow> CommandEntry list" where
  "log_entries old cur = concat (map (\<lambda>(n, es, t). es) old) @ cur"

fun positions :: "nat \<Rightarrow> int \<Rightarrow> CommandEntry list \<Rightarrow> (u64 \<times> logPosition) list" where
  "positions n off [] = []"
| "positions n off (e # es) =
     (ce_Sequence e, \<lparr>lp_fileNum = n, lp_offset = off\<rparr>) # positions n (off + int (length (CommandEntry_Encode e))) es"

definition log_positions :: "old_files \<Rightarrow> CommandEntry list \<Rightarrow> nat \<Rightarrow> (u64 \<times> logPosition) list" where
  "log_positions old cur n = concat (map (\<lambda>(n, es, t). positions n 0 es) old) @ positions n 0 cur"

definition old_bytes :: "old_files \<Rightarrow> (nat \<times> bytes) list" where
  "old_bytes old = map (\<lambda>(n, es, t). (n, enc_all es @ t)) old"

definition old_ok :: "old_files \<Rightarrow> bool" where
  "old_ok old \<longleftrightarrow> (\<forall>(n, es, t) \<in> set old. (\<forall>e \<in> set es. entry_valid e) \<and> decode_all t = [])"

definition increasing :: "CommandEntry list \<Rightarrow> bool" where
  "increasing es \<longleftrightarrow> sorted_wrt (<) (map ce_Sequence es)"

text \<open>
  The stable bytes of a file; the stable part of the current file holds all entries up to
  \<open>lastSyncSeq\<close>, and the older files are stable.
\<close>

definition durable_len :: "CommandLog \<Rightarrow> nat \<Rightarrow> nat" where
  "durable_len cl n = (case map_of (cl_durable cl) n of None \<Rightarrow> 0 | Some k \<Rightarrow> k)"

definition synced :: "CommandEntry list \<Rightarrow> bytes \<Rightarrow> u64 \<Rightarrow> bool" where
  "synced cur d s \<longleftrightarrow> (\<exists>m. length (enc_all (take m cur)) \<le> length d \<and>
     (\<forall>e \<in> set cur. ce_Sequence e \<le> s \<longrightarrow> e \<in> set (take m cur)))"

definition log_inv :: "old_files \<Rightarrow> CommandEntry list \<Rightarrow> CommandLog \<Rightarrow> bool" where
  "log_inv old cur cl \<longleftrightarrow> healthy cl \<and>
     (\<exists>d. cl_files cl = old_bytes old @ [(cl_currentFile cl, d)] \<and>
          d @ bw_buf (cl_writer cl) = enc_all cur \<and>
          synced cur (take (durable_len cl (cl_currentFile cl)) d) (cl_lastSyncSeq cl)) \<and>
     (\<forall>(n, bs) \<in> set (old_bytes old). length bs \<le> durable_len cl n) \<and>
     sorted_wrt (<) (map fst old @ [cl_currentFile cl]) \<and> old_ok old \<and> (\<forall>e \<in> set cur. entry_valid e) \<and>
     cl_currentSize cl = int (length (enc_all cur)) \<and>
     increasing (log_entries old cur) \<and>
     (\<forall>e \<in> set (log_entries old cur). ce_Sequence e \<le> cl_currentSeq cl) \<and>
     cl_lastSyncSeq cl \<le> cl_currentSeq cl \<and>
     map_of (cl_index cl) = map_of (log_positions old cur (cl_currentFile cl))"

lemma map_fst_old_bytes [simp]: "map fst (old_bytes old) = map fst old"
  by (simp add: old_bytes_def case_prod_unfold comp_def)

lemma current_not_old:
  assumes "sorted_wrt (<) (map fst old @ [n])"
  shows "n \<notin> fst ` set (old_bytes old)"
proof -
  have "\<forall>m \<in> set (map fst (old_bytes old)). m < n"
    using assms by (simp add: sorted_wrt_append)
  then show ?thesis
    by (auto simp del: map_fst_old_bytes)
qed

lemma map_of_last: "n \<notin> fst ` set xs \<Longrightarrow> map_of (xs @ [(n, d)]) n = Some d"
  by (simp add: map_add_def map_of_eq_None_iff [THEN iffD2])

lemma update_last: "n \<notin> fst ` set xs \<Longrightarrow> AList.update n d' (xs @ [(n, d)]) = xs @ [(n, d')]"
  by (induction xs) auto

lemma log_inv_files:
  assumes "log_inv old cur cl"
  shows "map_of (cl_files cl) (cl_currentFile cl) \<noteq> None"
    and "written cl = enc_all cur"
    and "cl_files (set_content d' b cl) = old_bytes old @ [(cl_currentFile cl, d')]"
proof -
  obtain d where d: "cl_files cl = old_bytes old @ [(cl_currentFile cl, d)]" "d @ bw_buf (cl_writer cl) = enc_all cur"
    using assms by (auto simp: log_inv_def)
  have new: "cl_currentFile cl \<notin> fst ` set (old_bytes old)"
    using assms by (intro current_not_old) (simp add: log_inv_def)
  show "map_of (cl_files cl) (cl_currentFile cl) \<noteq> None"
    using map_of_last [OF new] by (simp add: d(1))
  show "written cl = enc_all cur"
    using map_of_last [OF new] d by (simp add: written_def file_content_def)
  show "cl_files (set_content d' b cl) = old_bytes old @ [(cl_currentFile cl, d')]"
    using update_last [OF new] by (simp add: d(1))
qed

lemma positions_append:
  "positions n off (es @ es') = positions n off es @ positions n (off + int (length (enc_all es))) es'"
  by (induction es arbitrary: off) (auto simp: algebra_simps)

lemma fst_positions: "map fst (positions n off es) = map ce_Sequence es"
  by (induction es arbitrary: off) auto

lemma fst_log_positions: "map fst (log_positions old cur n) = map ce_Sequence (log_entries old cur)"
  by (simp add: log_positions_def log_entries_def fst_positions map_concat comp_def case_prod_unfold)

lemma log_entries_snoc: "log_entries old (cur @ [e]) = log_entries old cur @ [e]"
  by (simp add: log_entries_def)

lemma log_positions_snoc:
  "log_positions old (cur @ [e]) n = log_positions old cur n @
     [(ce_Sequence e, \<lparr>lp_fileNum = n, lp_offset = int (length (enc_all cur))\<rparr>)]"
  by (simp add: log_positions_def positions_append)

lemma log_inv_healthy: "log_inv old cur cl \<Longrightarrow> healthy cl"
  by (simp add: log_inv_def)

lemma decode_all_Nil [simp]: "decode_all [] = []"
  using entries.dec_Nil by (subst entries.all_rec) auto

lemma enc_all_snoc_length: "length (enc_all (take m (cur @ [e]))) \<le> length d \<Longrightarrow> m \<le> length cur \<Longrightarrow>
   length (enc_all (take m cur)) \<le> length d"
  by simp

lemma synced_prefix: "synced cur d s \<Longrightarrow> prefix d d' \<Longrightarrow> synced cur d' s"
  by (auto simp: synced_def dest: prefix_length_le intro: order_trans)

lemma synced_full: "length (enc_all cur) \<le> length d \<Longrightarrow> synced cur d s"
  by (auto simp: synced_def intro!: exI [of _ "length cur"])

lemma synced_snoc: "synced cur d s \<Longrightarrow> s < ce_Sequence e \<Longrightarrow> synced (cur @ [e]) d s"
proof -
  assume "synced cur d s" and s: "s < ce_Sequence e"
  then obtain m where m: "length (enc_all (take m cur)) \<le> length d"
    "\<forall>e \<in> set cur. ce_Sequence e \<le> s \<longrightarrow> e \<in> set (take m cur)"
    by (auto simp: synced_def)
  have "take (min m (length cur)) (cur @ [e]) = take m cur"
    by (simp add: min_def)
  with m s show ?thesis
    unfolding synced_def by (intro exI [of _ "min m (length cur)"]) (auto simp del: take_append)
qed

text \<open>The state after a successful \<open>fsync\<close> of the current file.\<close>

definition synced_log :: "CommandLog \<Rightarrow> CommandLog" where
  "synced_log cl =
     cl\<lparr>cl_durable := AList.update (cl_currentFile cl) (length (file_content cl (cl_currentFile cl))) (cl_durable cl)\<rparr>"

lemma synced_log_simps [simp]:
  "cl_files (synced_log cl) = cl_files cl" "cl_fault (synced_log cl) = cl_fault cl"
  "cl_currentFile (synced_log cl) = cl_currentFile cl" "cl_currentSeq (synced_log cl) = cl_currentSeq cl"
  "cl_closed (synced_log cl) = cl_closed cl" "cl_lastSyncSeq (synced_log cl) = cl_lastSyncSeq cl"
  "cl_index (synced_log cl) = cl_index cl" "cl_writer (synced_log cl) = cl_writer cl"
  "cl_fileOpen (synced_log cl) = cl_fileOpen cl" "cl_currentSize (synced_log cl) = cl_currentSize cl"
  by (simp_all add: synced_log_def)

lemma file_Sync_ok: "healthy cl \<Longrightarrow> file_Sync cl = (synced_log cl, None)"
  by (simp add: file_Sync_def healthy_def synced_log_def)

lemma durable_synced_log:
  "durable_len (synced_log cl) n =
   (if n = cl_currentFile cl then length (file_content cl (cl_currentFile cl)) else durable_len cl n)"
  by (simp add: durable_len_def synced_log_def update_conv')

lemma durable_len_simps [simp]:
  "durable_len (set_content d b cl) = durable_len cl" "durable_len (cl\<lparr>cl_currentSeq := q\<rparr>) = durable_len cl"
  "durable_len (cl\<lparr>cl_currentSize := z\<rparr>) = durable_len cl" "durable_len (cl\<lparr>cl_index := i\<rparr>) = durable_len cl"
  "durable_len (cl\<lparr>cl_lastSyncSeq := q\<rparr>) = durable_len cl"
  by (simp_all add: durable_len_def fun_eq_iff)

lemma durable_old:
  assumes "log_inv old cur cl"
  shows "\<forall>(n, bs) \<in> set (old_bytes old). length bs \<le> durable_len (synced_log (set_content d b cl)) n"
proof -
  have "(cl_currentFile cl, bs) \<notin> set (old_bytes old)" for bs
    using assms current_not_old [of old "cl_currentFile cl"] by (force simp: log_inv_def)
  then show ?thesis
    using assms by (fastforce simp: log_inv_def durable_synced_log)
qed

lemma rotate_inv:
  assumes inv: "log_inv old cur cl" and now: "cl_currentFile cl < now"
  shows "\<exists>cl'. rotateLogFile now cl = (cl', None) \<and> log_inv (old @ [(cl_currentFile cl, cur, [])]) [] cl' \<and>
     cl_currentSeq cl' = cl_currentSeq cl \<and> cl_closed cl' = cl_closed cl \<and>
     cl_lastSyncSeq cl' = cl_lastSyncSeq cl \<and> cl_currentFile cl' = now"
proof -
  let ?cl1 = "synced_log (set_content (enc_all cur) [] cl)"
  have flush: "bufio_Flush cl = (set_content (enc_all cur) [] cl, None)"
    using Flush_ok [OF log_inv_healthy [OF inv] log_inv_files(1) [OF inv]] log_inv_files(2) [OF inv] by simp
  have sync: "file_Sync (set_content (enc_all cur) [] cl) = (?cl1, None)" and fault: "cl_fault cl = None"
    using log_inv_healthy [OF inv] by (simp_all add: file_Sync_ok healthy_def)
  have files: "cl_files ?cl1 = old_bytes (old @ [(cl_currentFile cl, cur, [])])"
    using log_inv_files(3) [OF inv] by (simp add: old_bytes_def)
  have sorted: "sorted_wrt (<) (map fst (old @ [(cl_currentFile cl, cur, [])]) @ [now])"
    using inv now by (auto simp: log_inv_def sorted_wrt_append)
  have none: "map_of (cl_files ?cl1) now = None" and upd: "AList.update now [] (cl_files ?cl1) = cl_files ?cl1 @ [(now, [])]"
    using current_not_old [OF sorted] unfolding files by (simp_all add: map_of_eq_None_iff update_new)
  let ?cl2 = "?cl1\<lparr>cl_files := cl_files ?cl1 @ [(now, [])], cl_currentFile := now, cl_fileOpen := True,
      cl_writer := \<lparr>bw_buf = [], bw_err = None\<rparr>, cl_currentSize := 0\<rparr>"
  have "rotateLogFile now cl = (?cl2, None)"
    using none upd by (simp add: rotateLogFile_def flush sync openNewLogFile_def fault file_content_def)
  moreover have "\<forall>(n, bs) \<in> set (old_bytes (old @ [(cl_currentFile cl, cur, [])])). length bs \<le> durable_len ?cl2 n"
  proof -
    have "durable_len ?cl2 = durable_len ?cl1"
      by (simp add: durable_len_def fun_eq_iff)
    then show ?thesis
      using durable_old [OF inv, of "enc_all cur" "[]"] by (auto simp: old_bytes_def durable_synced_log)
  qed
  moreover from this have "log_inv (old @ [(cl_currentFile cl, cur, [])]) [] ?cl2"
    using inv sorted unfolding log_inv_def files
    by (auto simp: healthy_def old_ok_def log_entries_def log_positions_def synced_def)
  ultimately show ?thesis
    by auto
qed

definition log_entry :: "nat \<Rightarrow> u64 \<Rightarrow> byte \<Rightarrow> bytes \<Rightarrow> bytes \<Rightarrow> CommandEntry" where
  "log_entry ts seq cmdType key val =
     (let e = \<lparr>ce_Sequence = seq, ce_Timestamp = of_nat ts, ce_CmdType = cmdType,
               ce_KeyLen = of_nat (length key), ce_ValueLen = of_nat (length val),
               ce_Key = key, ce_Value = val, ce_CRC = 0\<rparr>
      in e\<lparr>ce_CRC := crc32_ChecksumIEEE (entry_header e @ key @ val)\<rparr>)"

lemma log_entry_facts:
  "ce_Sequence (log_entry ts seq cmdType key val) = seq"
  "length key < 2 ^ 32 \<Longrightarrow> length val < 2 ^ 32 \<Longrightarrow> entry_valid (log_entry ts seq cmdType key val)"
  "CommandEntry_Encode \<lparr>ce_Sequence = seq, ce_Timestamp = of_nat ts, ce_CmdType = cmdType,
     ce_KeyLen = of_nat (length key), ce_ValueLen = of_nat (length val), ce_Key = key, ce_Value = val,
     ce_CRC = 0\<rparr> = CommandEntry_Encode (log_entry ts seq cmdType key val)"
  by (simp_all add: log_entry_def Let_def entry_valid_def entry_header_def CommandEntry_Encode_def)

lemma log_inv_bump:
  "log_inv old cur cl \<Longrightarrow> cl_currentSeq cl \<le> s \<Longrightarrow> log_inv old cur (cl\<lparr>cl_currentSeq := s\<rparr>)"
  by (auto simp: log_inv_def healthy_def intro: order_trans)

lemma write_entry_inv:
  assumes inv: "log_inv old cur cl" and e: "entry_valid e" "ce_Sequence e = cl_currentSeq cl"
    and new: "\<forall>x \<in> set (log_entries old cur). ce_Sequence x < ce_Sequence e" "cl_lastSyncSeq cl < ce_Sequence e"
  shows "\<exists>cl2. bufio_Write (CommandEntry_Encode e) 0 cl = (cl2, length (CommandEntry_Encode e), None) \<and>
     cl_closed cl2 = cl_closed cl \<and> cl_currentSeq cl2 = cl_currentSeq cl \<and>
     cl_lastSyncSeq cl2 = cl_lastSyncSeq cl \<and> cl_currentFile cl2 = cl_currentFile cl \<and>
     log_inv old (cur @ [e]) (cl2\<lparr>cl_currentSize := cl_currentSize cl2 + int (length (CommandEntry_Encode e)),
       cl_index := AList.update (ce_Sequence e)
         \<lparr>lp_fileNum = cl_currentFile cl2, lp_offset = cl_currentSize cl\<rparr> (cl_index cl2)\<rparr>)"
proof -
  obtain d b where w: "bufio_Write (CommandEntry_Encode e) 0 cl = (set_content d b cl, length (CommandEntry_Encode e), None)"
    "d @ b = enc_all (cur @ [e])" "length b \<le> LogBufferSize" "prefix (file_content cl (cl_currentFile cl)) d"
    using Write_ok [OF log_inv_healthy [OF inv] log_inv_files(1) [OF inv], of "CommandEntry_Encode e" 0]
      log_inv_files(2) [OF inv] by auto
  let ?k = "durable_len cl (cl_currentFile cl)"
  obtain d0 where d0: "cl_files cl = old_bytes old @ [(cl_currentFile cl, d0)]" "synced cur (take ?k d0) (cl_lastSyncSeq cl)"
    and sorted: "sorted_wrt (<) (map fst old @ [cl_currentFile cl])"
    using inv by (auto simp: log_inv_def)
  have "file_content cl (cl_currentFile cl) = d0"
    using map_of_last [OF current_not_old [OF sorted]] d0(1) by (simp add: file_content_def)
  then have "prefix (take ?k d0) (take ?k d)"
    using w(4) by (auto simp: prefix_def)
  then have sync: "synced (cur @ [e]) (take ?k d) (cl_lastSyncSeq cl)"
    using d0(2) new(2) by (auto intro: synced_snoc synced_prefix)
  have size: "cl_currentSize cl = int (length (enc_all cur))"
    and idx: "map_of (cl_index cl) = map_of (log_positions old cur (cl_currentFile cl))"
    and inc: "increasing (log_entries old cur)"
    using inv by (simp_all add: log_inv_def)
  have "ce_Sequence e \<notin> fst ` set (log_positions old cur (cl_currentFile cl))"
  proof -
    have "set (map fst (log_positions old cur (cl_currentFile cl))) = ce_Sequence ` set (log_entries old cur)"
      by (simp only: fst_log_positions set_map)
    then show ?thesis
      using new(1) by auto
  qed
  then have "map_of (log_positions old cur (cl_currentFile cl)) (ce_Sequence e) = None"
    by (simp add: map_of_eq_None_iff)
  then have idx': "map_of (AList.update (ce_Sequence e) \<lparr>lp_fileNum = cl_currentFile cl, lp_offset = cl_currentSize cl\<rparr>
      (cl_index cl)) = map_of (log_positions old (cur @ [e]) (cl_currentFile cl))"
    by (auto simp: log_positions_snoc update_conv' idx size fun_eq_iff map_add_def split: option.splits)
  have "increasing (log_entries old (cur @ [e]))"
    using inc new(1) by (auto simp: increasing_def log_entries_snoc sorted_wrt_append)
  moreover have "\<forall>x \<in> set (log_entries old (cur @ [e])). ce_Sequence x \<le> cl_currentSeq cl"
    using new(1) e(2) by (auto simp: log_entries_snoc intro: less_imp_le)
  ultimately have "log_inv old (cur @ [e]) ((set_content d b cl)\<lparr>cl_currentSize := cl_currentSize cl + int (length (CommandEntry_Encode e)),
       cl_index := AList.update (ce_Sequence e)
         \<lparr>lp_fileNum = cl_currentFile cl, lp_offset = cl_currentSize cl\<rparr> (cl_index cl)\<rparr>)"
    using inv w(2,3) sync idx' e(1) log_inv_files(3) [OF inv, of d b]
    by (simp add: log_inv_def healthy_def del: set_content_simps(6))
  then show ?thesis
    using w(1) by simp
qed

lemma Append_inv:
  assumes inv: "log_inv old cur cl" and open_log: "\<not> cl_closed cl"
    and len: "length key < 2 ^ 32" "length val < 2 ^ 32"
    and "cl_currentSeq cl \<noteq> -1" and now: "cl_currentFile cl < now"
  shows "\<exists>cl' old' cur'. cl_Append ts now cmdType key val cl = (cl', Inr (cl_currentSeq cl + 1)) \<and>
     log_inv old' cur' cl' \<and> cl_currentSeq cl' = cl_currentSeq cl + 1 \<and> \<not> cl_closed cl' \<and>
     cl_lastSyncSeq cl' = cl_lastSyncSeq cl \<and> cl_currentFile cl' \<le> now \<and>
     log_entries old' cur' = log_entries old cur @ [log_entry ts (cl_currentSeq cl + 1) cmdType key val]"
proof -
  let ?seq = "cl_currentSeq cl + 1" and ?cl0 = "cl\<lparr>cl_currentSeq := cl_currentSeq cl + 1\<rparr>"
  define e where "e = log_entry ts ?seq cmdType key val"
  have less: "cl_currentSeq cl < ?seq"
    using assms(5) by (rule less_add_1)
  have inv0: "log_inv old cur ?cl0"
    using inv less by (intro log_inv_bump) simp_all
  have facts: "ce_Sequence e = ?seq" "entry_valid e"
    using len by (simp_all add: e_def log_entry_facts)
  have below: "\<forall>x \<in> set (log_entries old cur). ce_Sequence x < ?seq" "cl_lastSyncSeq cl < ?seq"
    using inv less by (auto simp: log_inv_def intro: le_less_trans)
  obtain cl1 old1 cur1 where r: "(if cl_currentSize ?cl0 + int (length (CommandEntry_Encode e)) > LogFileMaxSize
        then rotateLogFile now ?cl0 else (?cl0, None)) = (cl1, None)"
    "log_inv old1 cur1 cl1" "cl_currentSeq cl1 = ?seq" "\<not> cl_closed cl1" "cl_lastSyncSeq cl1 < ?seq"
    "log_entries old1 cur1 = log_entries old cur" "cl_lastSyncSeq cl1 = cl_lastSyncSeq cl" "cl_currentFile cl1 \<le> now"
  proof (cases "cl_currentSize ?cl0 + int (length (CommandEntry_Encode e)) > LogFileMaxSize")
    case True
    from rotate_inv [OF inv0, of now] now obtain cl1 where
      "rotateLogFile now ?cl0 = (cl1, None)" "log_inv (old @ [(cl_currentFile ?cl0, cur, [])]) [] cl1"
      "cl_currentSeq cl1 = ?seq" "cl_closed cl1 = cl_closed cl" "cl_lastSyncSeq cl1 = cl_lastSyncSeq cl"
      "cl_currentFile cl1 = now"
      by auto
    with True below open_log show ?thesis
      by (intro that [of cl1 "old @ [(cl_currentFile ?cl0, cur, [])]" "[]"]) (simp_all add: log_entries_def)
  next
    case False
    with inv0 below open_log now show ?thesis
      by (intro that [of ?cl0 old cur]) simp_all
  qed
  obtain cl2 where "bufio_Write (CommandEntry_Encode e) 0 cl1 = (cl2, length (CommandEntry_Encode e), None)"
    "cl_closed cl2 = cl_closed cl1" "cl_currentSeq cl2 = cl_currentSeq cl1"
    "cl_lastSyncSeq cl2 = cl_lastSyncSeq cl1" "cl_currentFile cl2 = cl_currentFile cl1"
    "log_inv old1 (cur1 @ [e]) (cl2\<lparr>cl_currentSize := cl_currentSize cl2 + int (length (CommandEntry_Encode e)),
       cl_index := AList.update (ce_Sequence e)
         \<lparr>lp_fileNum = cl_currentFile cl2, lp_offset = cl_currentSize cl1\<rparr> (cl_index cl2)\<rparr>)"
    using write_entry_inv [OF r(2), of e] facts below r by auto
  moreover have "log_entries old1 (cur1 @ [e]) = log_entries old cur @ [e]"
    using r(6) by (simp add: log_entries_snoc)
  ultimately show ?thesis
    using r open_log facts by (auto simp: cl_Append_def Let_def log_entry_facts(3) simp flip: e_def)
qed

lemma Sync_inv:
  assumes inv: "log_inv old cur cl"
  shows "\<exists>cl'. cl_Sync cl = (cl', None) \<and> log_inv old cur cl' \<and> cl_files cl' = old_bytes old @ [(cl_currentFile cl, enc_all cur)] \<and>
     cl_currentFile cl' = cl_currentFile cl \<and> cl_currentSeq cl' = cl_currentSeq cl \<and> cl_lastSyncSeq cl' = cl_currentSeq cl \<and>
     cl_closed cl' = cl_closed cl"
proof -
  let ?cl1 = "synced_log (set_content (enc_all cur) [] cl)"
  have flush: "bufio_Flush cl = (set_content (enc_all cur) [] cl, None)"
    using Flush_ok [OF log_inv_healthy [OF inv] log_inv_files(1) [OF inv]] log_inv_files(2) [OF inv] by simp
  have sync: "file_Sync (set_content (enc_all cur) [] cl) = (?cl1, None)"
    using log_inv_healthy [OF inv] by (simp add: file_Sync_ok healthy_def)
  from durable_old [OF inv, of "enc_all cur" "[]"] have "log_inv old cur (?cl1\<lparr>cl_lastSyncSeq := cl_currentSeq ?cl1\<rparr>)"
    using inv log_inv_files(3) [OF inv, of "enc_all cur" "[]"] synced_full [of cur "enc_all cur"]
    by (simp add: log_inv_def healthy_def durable_synced_log del: set_content_simps(6))
  then show ?thesis
    using log_inv_files(3) [OF inv, of "enc_all cur" "[]"]
    by (simp add: cl_Sync_def flush sync del: set_content_simps(6))
qed

text \<open>Reading a file with a given prefix of the current entries on disk.\<close>

lemma log_files_sorted: "sorted_wrt (<) (map fst fs) \<Longrightarrow> log_files fs = fs"
  by (simp add: log_files_def sort_key_id_if_sorted strict_sorted_iff)

lemma decode_old: "old_ok old \<Longrightarrow> map (\<lambda>f. decode_all (snd f)) (old_bytes old) = map (\<lambda>(n, es, t). es) old"
  by (auto simp: old_bytes_def old_ok_def entries.all_append)

lemma enc_all_take_mono: "k \<le> m \<Longrightarrow> length (enc_all (take k es)) \<le> length (enc_all (take m es))"
proof -
  assume "k \<le> m"
  then have "take m es = take k es @ take (m - k) (drop k es)"
    by (simp add: take_add [symmetric])
  then show ?thesis
    by simp
qed

lemma disk_cut:
  assumes "\<forall>e \<in> set cur. entry_valid e" and "prefix d (enc_all cur)"
  obtains n t where "n \<le> length cur" "d = enc_all (take n cur) @ t" "decode_all t = []" "decode_all d = take n cur"
    "\<And>m. length (enc_all (take m cur)) \<le> length d \<Longrightarrow> set (take m cur) \<subseteq> set (take n cur)"
proof -
  obtain n where n: "n \<le> length cur" "decode_all d = take n cur" "length (enc_all (take n cur)) \<le> length d"
    "n < length cur \<longrightarrow> length d < length (enc_all (take (Suc n) cur))"
    using entries.all_cut [OF assms] by blast
  have "prefix (enc_all (take n cur)) (enc_all cur)"
    by (metis append_take_drop_id concat_append map_append prefixI)
  with assms(2) n(3) have "prefix (enc_all (take n cur)) d"
    by (metis prefix_length_prefix)
  then obtain t where t: "d = enc_all (take n cur) @ t"
    by (auto simp: prefix_def)
  have "\<forall>e \<in> set (take n cur). entry_valid e"
    using assms(1) by (meson in_set_takeD)
  then have "decode_all d = take n cur @ decode_all t"
    by (simp add: t entries.all_append)
  moreover have "set (take m cur) \<subseteq> set (take n cur)" if "length (enc_all (take m cur)) \<le> length d" for m
  proof (cases "m \<le> n")
    case True
    then show ?thesis
      by (rule set_take_subset_set_take)
  next
    case False
    then have "length (enc_all (take (Suc n) cur)) \<le> length d"
      using enc_all_take_mono [of "Suc n" m cur] that by simp
    with n(4) have "\<not> n < length cur"
      by linarith
    then show ?thesis
      by (simp add: set_take_subset)
  qed
  ultimately show thesis
    using n(1,2) t by (intro that [of n t]) auto
qed

section \<open>Recovery establishes the invariant\<close>

lemma recover_file_eq:
  "recover_file n es off (index, mx) =
   (fold (\<lambda>(k, v). AList.update k v) (positions n off es) index, fold max (map ce_Sequence es) mx)"
proof (induction es arbitrary: off index mx)
  case (Cons e es)
  have "8 + 8 + 1 + 4 + 4 + length (ce_Key e) + length (ce_Value e) + 4 = length (CommandEntry_Encode e)"
    by (simp add: length_Encode)
  moreover have "(if ce_Sequence e > mx then ce_Sequence e else mx) = max (ce_Sequence e) mx"
    by (auto simp: max_def)
  ultimately show ?case
    by (simp only: recover_file.simps Cons.IH positions.simps) simp
qed simp

lemma fold_recover_file:
  "fold (\<lambda>(n, f). recover_file n (decode_all f) 0) fs (index, mx) =
   (fold (\<lambda>(k, v). AList.update k v) (concat (map (\<lambda>(n, f). positions n 0 (decode_all f)) fs)) index,
    fold max (concat (map (\<lambda>(n, f). map ce_Sequence (decode_all f)) fs)) mx)"
  by (induction fs arbitrary: index mx) (auto simp: recover_file_eq)

lemma fold_max_ge: "m \<le> fold max xs m" for m :: "'a :: linorder"
proof (induction xs arbitrary: m)
  case (Cons x xs)
  then show ?case
    using order_trans [OF max.cobounded2 Cons.IH [of "max x m"]] by simp
qed simp

lemma fold_max_bound: "x \<in> set xs \<Longrightarrow> x \<le> fold max xs m" for x :: "'a :: linorder"
  by (induction xs arbitrary: m) (auto intro: order_trans [OF max.cobounded1 fold_max_ge])

lemma NewCommandLog_inv:
  assumes "sorted_wrt (<) (map fst old @ [now])" and ok: "old_ok old" and inc: "increasing (log_entries old [])"
  shows "\<exists>cl. NewCommandLog pid (old_bytes old) None now = Inr cl \<and> log_inv old [] cl \<and>
     cl_currentFile cl = now \<and> \<not> cl_closed cl \<and> cl_partitionID cl = pid \<and>
     cl_currentSeq cl = fold max (map ce_Sequence (log_entries old [])) 0"
proof -
  let ?ps = "log_positions old [] now" and ?mx = "fold max (map ce_Sequence (log_entries old [])) 0"
  let ?idx = "fold (\<lambda>(k, v). AList.update k v) ?ps []"
  have files: "log_files (old_bytes old) = old_bytes old"
    using assms(1) by (intro log_files_sorted) (simp add: sorted_wrt_append)
  have dec: "decode_all (enc_all es @ t) = es" if "(n, es, t) \<in> set old" for n es t
    using ok that by (auto simp: old_ok_def entries.all_append)
  have "concat (map (\<lambda>(n, f). positions n 0 (decode_all f)) (old_bytes old)) = ?ps"
    using dec by (auto simp: log_positions_def old_bytes_def comp_def case_prod_unfold intro!: arg_cong [where f = concat])
  moreover have "concat (map (\<lambda>(n, f). map ce_Sequence (decode_all f)) (old_bytes old)) = map ce_Sequence (log_entries old [])"
    using dec by (auto simp: log_entries_def old_bytes_def comp_def case_prod_unfold map_concat intro!: arg_cong [where f = concat])
  ultimately have rec: "fold (\<lambda>(n, f). recover_file n (decode_all f) 0) (old_bytes old) ([], 0) = (?idx, ?mx)"
    by (simp only: fold_recover_file)
  have "distinct (map fst ?ps)"
    using inc by (simp add: fst_log_positions increasing_def strict_sorted_iff)
  then have idx: "map_of ?idx = map_of ?ps"
    by (simp add: map_of_fold_update map_of_inject_set flip: rev_map)
  have new: "map_of (old_bytes old) now = None" "AList.update now [] (old_bytes old) = old_bytes old @ [(now, [])]"
    using current_not_old [OF assms(1)] by (simp_all add: map_of_eq_None_iff update_new)
  have empty: "old_bytes old = [] \<Longrightarrow> ?idx = [] \<and> ?mx = 0"
    by (simp add: old_bytes_def log_positions_def log_entries_def)
  define cl where "cl = \<lparr>cl_partitionID = pid, cl_files = old_bytes old @ [(now, [])],
      cl_durable = map (\<lambda>(n, bs). (n, length bs)) (old_bytes old), cl_fault = None, cl_currentFile = now,
      cl_fileOpen = True, cl_writer = \<lparr>bw_buf = [], bw_err = None\<rparr>, cl_currentSize = 0, cl_currentSeq = ?mx,
      cl_lastSyncSeq = ?mx, cl_index = ?idx, cl_closed = False\<rparr>"
  have "NewCommandLog pid (old_bytes old) None now = Inr cl"
    using new empty rec
    by (cases "old_bytes old = []")
      (simp_all add: NewCommandLog_def cl_recover_def openNewLogFile_def file_content_def files cl_def Let_def)
  moreover have "\<forall>(n, bs) \<in> set (old_bytes old). length bs \<le> durable_len cl n"
  proof -
    have "distinct (map fst (old_bytes old))"
      using assms(1) by (simp add: sorted_wrt_append strict_sorted_iff)
    then have "map_of (map (\<lambda>(n, bs). (n, length bs)) (old_bytes old)) n = Some (length bs)" if "(n, bs) \<in> set (old_bytes old)" for n bs
      using that by (auto simp: map_of_map [of length, simplified] dest: map_of_is_SomeI)
    then show ?thesis
      by (auto simp: cl_def durable_len_def)
  qed
  moreover from this have "log_inv old [] cl"
    using assms idx fold_max_bound [of _ "map ce_Sequence (log_entries old [])" 0]
    by (auto simp: cl_def log_inv_def healthy_def synced_def)
  ultimately show ?thesis
    by (simp add: cl_def)
qed

section \<open>Reading by index and by full scan\<close>

text \<open>The entries that decode from the files on disk, in the order of the files.\<close>

definition disk_entries :: "(nat \<times> bytes) list \<Rightarrow> CommandEntry list" where
  "disk_entries fs = concat (map (\<lambda>f. decode_all (snd f)) fs)"

lemma disk_entries_simps [simp]:
  "disk_entries [] = []" "disk_entries (f # fs) = decode_all (snd f) @ disk_entries fs"
  "disk_entries (fs @ fs') = disk_entries fs @ disk_entries fs'"
  by (simp_all add: disk_entries_def)

lemma disk_entries_old: "old_ok old \<Longrightarrow> disk_entries (old_bytes old) = log_entries old []"
  by (simp add: disk_entries_def decode_old log_entries_def)

lemma read_entries_eq:
  "length acc \<le> limit \<Longrightarrow>
   read_entries limit fromSeq es acc = take limit (acc @ filter (\<lambda>e. fromSeq \<le> ce_Sequence e) es)"
  by (induction limit fromSeq es acc rule: read_entries.induct) (auto simp: take_Cons')

lemma take_take_append: "take n (take n xs @ ys) = take n (xs @ ys)"
  by (cases "n \<le> length xs") simp_all

lemma read_files_eq:
  "length acc \<le> limit \<Longrightarrow>
   read_files limit fromSeq fs acc =
   take limit (acc @ filter (\<lambda>e. fromSeq \<le> ce_Sequence e) (concat (map decode_all fs)))"
proof (induction limit fromSeq fs acc rule: read_files.induct)
  case (2 limit fromSeq f fs acc)
  let ?p = "\<lambda>e. fromSeq \<le> ce_Sequence e"
  show ?case
  proof (cases "length acc < limit")
    case True
    have "length (take limit (acc @ filter ?p (decode_all f))) \<le> limit"
      by simp
    then have "read_files limit fromSeq (f # fs) acc =
        take limit (take limit (acc @ filter ?p (decode_all f)) @ filter ?p (concat (map decode_all fs)))"
      using True 2 by (simp add: read_entries_eq)
    also have "\<dots> = take limit ((acc @ filter ?p (decode_all f)) @ filter ?p (concat (map decode_all fs)))"
      by (rule take_take_append)
    finally show ?thesis
      by simp
  qed (use 2 in simp)
qed simp

lemma readFromFullScan_eq:
  "readFromFullScan fromSeq limit cl =
   take limit (filter (\<lambda>e. fromSeq \<le> ce_Sequence e) (disk_entries (log_files (cl_files cl))))"
  by (simp add: readFromFullScan_def read_files_eq disk_entries_def comp_def)

lemma positions_mem:
  "(w, pos) \<in> set (positions n off es) \<Longrightarrow>
   \<exists>pre e post. es = pre @ e # post \<and> ce_Sequence e = w \<and>
     pos = \<lparr>lp_fileNum = n, lp_offset = off + int (length (enc_all pre))\<rparr>"
proof (induction es arbitrary: off)
  case (Cons e es)
  show ?case
  proof (cases "(w, pos) = (ce_Sequence e, \<lparr>lp_fileNum = n, lp_offset = off\<rparr>)")
    case True
    then show ?thesis
      by (intro exI [of _ "[]"] exI [of _ e] exI [of _ es]) simp
  next
    case False
    with Cons.prems obtain pre e' post where "es = pre @ e' # post" "ce_Sequence e' = w"
      "pos = \<lparr>lp_fileNum = n, lp_offset = off + int (length (CommandEntry_Encode e)) + int (length (enc_all pre))\<rparr>"
      using Cons.IH [of "off + int (length (CommandEntry_Encode e))"] by auto
    then show ?thesis
      by (intro exI [of _ "e # pre"] exI [of _ e'] exI [of _ post]) simp
  qed
qed simp

text \<open>The first indexed number from \<open>fromSeq\<close> on; every entry below it is below \<open>fromSeq\<close>.\<close>

lemma index_start_some:
  assumes inv: "log_inv old cur cl" and "index_start fromSeq cl = Some pos"
  obtains w where "(w, pos) \<in> set (log_positions old cur (cl_currentFile cl))"
    and "\<And>x. x \<in> set (log_entries old cur) \<Longrightarrow> ce_Sequence x < w \<Longrightarrow> \<not> fromSeq \<le> ce_Sequence x"
proof -
  let ?P = "\<lambda>seq. map_of (cl_index cl) (of_nat seq) \<noteq> None"
  let ?r = "[unat fromSeq ..< Suc (unat (cl_currentSeq cl))]"
  have idx: "map_of (cl_index cl) = map_of (log_positions old cur (cl_currentFile cl))"
    using inv by (simp add: log_inv_def)
  obtain seq where f: "List.find ?P ?r = Some seq" "map_of (cl_index cl) (of_nat seq) = Some pos"
    using assms(2) by (auto simp: index_start_def split: option.splits)
  then obtain i where i: "i < length ?r" "seq = ?r ! i" "\<And>j. j < i \<Longrightarrow> \<not> ?P (?r ! j)"
    unfolding find_Some_iff by blast
  then have seq: "seq = unat fromSeq + i" "seq \<le> unat (cl_currentSeq cl)"
    by (auto simp del: upt_Suc)
  have bound: "seq < 2 ^ 64"
    using seq(2) unat_bound [of "cl_currentSeq cl"] by simp
  show thesis
  proof (rule that [of "of_nat seq"])
    show "(of_nat seq, pos) \<in> set (log_positions old cur (cl_currentFile cl))"
      using f(2) by (simp add: idx map_of_SomeD)
    fix x
    assume x: "x \<in> set (log_entries old cur)" "ce_Sequence x < of_nat seq"
    show "\<not> fromSeq \<le> ce_Sequence x"
    proof
      assume "fromSeq \<le> ce_Sequence x"
      then obtain j where j: "unat (ce_Sequence x) = unat fromSeq + j"
        by (metis le_iff_add word_le_nat_alt)
      have "unat (ce_Sequence x) < seq"
        using x(2) bound by (simp add: word_less_nat_alt unat_of_nat)
      then have "j < i"
        using j seq(1) by simp
      moreover have "?r ! j = unat (ce_Sequence x)"
        using \<open>j < i\<close> i(1) j by (simp del: upt_Suc)
      ultimately have "map_of (cl_index cl) (ce_Sequence x) = None"
        using i(3) by fastforce
      moreover have "ce_Sequence x \<in> set (map fst (log_positions old cur (cl_currentFile cl)))"
        using x(1) by (simp only: fst_log_positions) simp
      ultimately show False
        by (simp add: idx map_of_eq_None_iff)
    qed
  qed
qed

lemma dropWhile_file:
  "n \<notin> fst ` set F1 \<Longrightarrow> dropWhile (\<lambda>f. fst f \<noteq> n) (F1 @ (n, x) # F2) = (n, x) # F2"
  by (induction F1) auto

lemma readFromIndex_split:
  assumes files: "log_files (cl_files cl) = F1 @ (n, enc_all pre @ rest) # F2" and n: "n \<notin> fst ` set F1"
    and pos: "pos = \<lparr>lp_fileNum = n, lp_offset = int (length (enc_all pre))\<rparr>"
    and valid: "\<forall>e \<in> set pre. entry_valid e"
    and below: "\<forall>x \<in> set (disk_entries F1 @ pre). \<not> fromSeq \<le> ce_Sequence x"
  shows "readFromIndex pos fromSeq limit cl = Inr (readFromFullScan fromSeq limit cl)"
proof -
  let ?p = "\<lambda>e. fromSeq \<le> ce_Sequence e"
  have "dropWhile (\<lambda>f. fst f \<noteq> n) (F1 @ (n, enc_all pre @ rest) # F2) = (n, enc_all pre @ rest) # F2"
    using n by (rule dropWhile_file)
  then have "readFromIndex pos fromSeq limit cl = Inr (take limit (filter ?p (decode_all rest @ disk_entries F2)))"
    using read_files_eq [of "[]" limit fromSeq "rest # map snd F2"]
    by (simp add: readFromIndex_def files pos disk_entries_def comp_def del: read_files.simps)
  moreover have "filter ?p (disk_entries F1) = []" "filter ?p pre = []"
    using below by (auto simp: filter_empty_conv)
  then have "readFromFullScan fromSeq limit cl = take limit (filter ?p (decode_all rest @ disk_entries F2))"
    using valid by (simp add: readFromFullScan_eq files entries.all_append)
  ultimately show ?thesis
    by simp
qed

lemma increasing_before:
  "increasing (xs @ e # ys) \<Longrightarrow> x \<in> set xs \<Longrightarrow> ce_Sequence x < ce_Sequence e"
  by (auto simp: increasing_def sorted_wrt_append)

lemma index_read:
  assumes inv: "log_inv old cur cl" and start: "index_start fromSeq cl = Some pos"
    and r: "readFromIndex pos fromSeq limit cl = Inr r" "r \<noteq> []"
  shows "r = readFromFullScan fromSeq limit cl"
proof -
  obtain w where w: "(w, pos) \<in> set (log_positions old cur (cl_currentFile cl))"
    "\<And>x. x \<in> set (log_entries old cur) \<Longrightarrow> ce_Sequence x < w \<Longrightarrow> \<not> fromSeq \<le> ce_Sequence x"
    using index_start_some [OF inv start] by blast
  obtain d where d: "cl_files cl = old_bytes old @ [(cl_currentFile cl, d)]" "d @ bw_buf (cl_writer cl) = enc_all cur"
    and sorted: "sorted_wrt (<) (map fst old @ [cl_currentFile cl])" and ok: "old_ok old"
    and valid: "\<forall>e \<in> set cur. entry_valid e" and inc: "increasing (log_entries old cur)"
    using inv by (auto simp: log_inv_def)
  have files: "log_files (cl_files cl) = old_bytes old @ [(cl_currentFile cl, d)]"
    using sorted by (simp add: d(1) log_files_sorted)
  from w(1) consider
      (old) n es t where "(n, es, t) \<in> set old" "(w, pos) \<in> set (positions n 0 es)"
    | (cur) "(w, pos) \<in> set (positions (cl_currentFile cl) 0 cur)"
    by (auto simp: log_positions_def)
  then show ?thesis
  proof cases
    case old
    then obtain o1 o2 where o: "old = o1 @ (n, es, t) # o2"
      by (meson split_list)
    obtain pre e post where es: "es = pre @ e # post" "ce_Sequence e = w"
      and pos: "pos = \<lparr>lp_fileNum = n, lp_offset = int (length (enc_all pre))\<rparr>"
      using positions_mem [OF old(2)] by auto
    have n: "n \<notin> fst ` set (old_bytes o1)"
      using sorted by (intro current_not_old) (simp add: o sorted_wrt_append)
    have ok1: "old_ok o1" "\<forall>e \<in> set pre. entry_valid e"
      using ok by (auto simp: old_ok_def o es)
    have "log_entries old cur = (log_entries o1 [] @ pre) @ e # post @ log_entries o2 cur"
      by (simp add: log_entries_def o es)
    then have "\<forall>x \<in> set (disk_entries (old_bytes o1) @ pre). \<not> fromSeq \<le> ce_Sequence x"
      using w(2) increasing_before inc ok1 es(2) by (metis Un_iff disk_entries_old set_append)
    then have "readFromIndex pos fromSeq limit cl = Inr (readFromFullScan fromSeq limit cl)"
      using n pos ok1(2)
      by (intro readFromIndex_split [where ?F1.0 = "old_bytes o1" and pre = pre and rest = "enc_all (e # post) @ t"
            and ?F2.0 = "old_bytes o2 @ [(cl_currentFile cl, d)]"])
        (simp_all add: files o old_bytes_def es)
    with r show ?thesis
      by simp
  next
    case cur
    let ?n = "cl_currentFile cl"
    obtain pre e post where es: "cur = pre @ e # post" "ce_Sequence e = w"
      and pos: "pos = \<lparr>lp_fileNum = ?n, lp_offset = int (length (enc_all pre))\<rparr>"
      using positions_mem [OF cur] by auto
    have n: "?n \<notin> fst ` set (old_bytes old)"
      by (rule current_not_old [OF sorted])
    show ?thesis
    proof (cases "length (enc_all pre) \<le> length d")
      case True
      have "prefix (enc_all pre) (enc_all cur)" "prefix d (enc_all cur)"
        using d(2) by (auto simp: es prefix_def intro: sym)
      with True obtain rest where rest: "d = enc_all pre @ rest"
        by (metis prefix_def prefix_length_prefix)
      have "log_entries old cur = (log_entries old [] @ pre) @ e # post"
        by (simp add: log_entries_def es)
      then have "\<forall>x \<in> set (disk_entries (old_bytes old) @ pre). \<not> fromSeq \<le> ce_Sequence x"
        using w(2) increasing_before inc ok es(2) by (metis Un_iff disk_entries_old set_append)
      then have "readFromIndex pos fromSeq limit cl = Inr (readFromFullScan fromSeq limit cl)"
        using n pos valid rest files
        by (intro readFromIndex_split [where pre = pre and rest = rest and ?F2.0 = "[]" and ?F1.0 = "old_bytes old"])
          (simp_all add: es)
      with r show ?thesis
        by simp
    next
      case False
      have "dropWhile (\<lambda>f. fst f \<noteq> ?n) (old_bytes old @ [(?n, d)]) = [(?n, d)]"
        using dropWhile_file [OF n] .
      moreover have "drop (length (enc_all pre)) d = []"
        using False by simp
      ultimately show ?thesis
        using r by (simp add: readFromIndex_def files pos del: drop_eq_Nil split: if_splits)
    qed
  qed
qed

lemma ReadFrom_eq:
  assumes "log_inv old cur cl"
  shows "cl_ReadFrom fromSeq limit cl =
     take limit (filter (\<lambda>e. fromSeq \<le> ce_Sequence e) (disk_entries (log_files (cl_files cl))))"
  using index_read [OF assms]
  by (auto simp: cl_ReadFrom_def simp flip: readFromFullScan_eq split: option.splits sum.splits)

text \<open>What is on disk is a prefix of the log.\<close>

lemma disk_entries_log:
  assumes "log_inv old cur cl"
  shows "\<exists>n. disk_entries (log_files (cl_files cl)) = log_entries old (take n cur)"
proof -
  obtain d where d: "cl_files cl = old_bytes old @ [(cl_currentFile cl, d)]" "d @ bw_buf (cl_writer cl) = enc_all cur"
    and sorted: "sorted_wrt (<) (map fst old @ [cl_currentFile cl])" and ok: "old_ok old"
    and valid: "\<forall>e \<in> set cur. entry_valid e"
    using assms by (auto simp: log_inv_def)
  have "prefix d (enc_all cur)"
    using d(2) by (auto simp: prefix_def intro: sym)
  then obtain n where "decode_all d = take n cur"
    using disk_cut [OF valid] by metis
  then have "disk_entries (log_files (cl_files cl)) = log_entries old [] @ take n cur"
    using sorted ok by (simp add: d(1) log_files_sorted disk_entries_old)
  then show ?thesis
    by (intro exI [of _ n]) (simp add: log_entries_def)
qed

lemma disk_entries_synced:
  assumes "log_inv old cur cl" and "cl_files cl = old_bytes old @ [(cl_currentFile cl, enc_all cur)]"
  shows "disk_entries (log_files (cl_files cl)) = log_entries old cur"
proof -
  have sorted: "sorted_wrt (<) (map fst old @ [cl_currentFile cl])" and ok: "old_ok old"
    and valid: "\<forall>e \<in> set cur. entry_valid e"
    using assms(1) by (auto simp: log_inv_def)
  obtain n where n: "n \<le> length cur" "decode_all (enc_all cur) = take n cur"
    "n < length cur \<longrightarrow> length (enc_all cur) < length (enc_all (take (Suc n) cur))"
    using entries.all_cut [OF valid, of "enc_all cur"] by auto
  have "length (enc_all (take (Suc n) cur)) \<le> length (enc_all cur)"
    by (metis append_take_drop_id concat_append length_append le_add1 map_append)
  with n have "decode_all (enc_all cur) = cur"
    by (cases "n < length cur") simp_all
  then show ?thesis
    using sorted ok by (simp add: assms(2) log_files_sorted disk_entries_old log_entries_def)
qed

lemma disk_entries_props:
  assumes "log_inv old cur cl"
  shows "increasing (disk_entries (log_files (cl_files cl)))"
    and "\<forall>e \<in> set (disk_entries (log_files (cl_files cl))). ce_Sequence e \<le> cl_currentSeq cl"
proof -
  obtain n where n: "disk_entries (log_files (cl_files cl)) = log_entries old (take n cur)"
    using disk_entries_log [OF assms] by blast
  have split: "log_entries old cur = log_entries old (take n cur) @ drop n cur"
    by (simp add: log_entries_def)
  have "increasing (log_entries old cur)" "\<forall>e \<in> set (log_entries old cur). ce_Sequence e \<le> cl_currentSeq cl"
    using assms by (simp_all add: log_inv_def)
  then show "increasing (disk_entries (log_files (cl_files cl)))"
    "\<forall>e \<in> set (disk_entries (log_files (cl_files cl))). ce_Sequence e \<le> cl_currentSeq cl"
    unfolding n split by (simp_all add: increasing_def sorted_wrt_append)
qed

section \<open>Replay as a batch\<close>

text \<open>The writes of one entry, and of a log from a sequence number on.\<close>

definition entry_ops :: "u32 \<Rightarrow> CommandEntry \<Rightarrow> batch_op list" where
  "entry_ops pid e =
     (if ce_CmdType e = CmdTypePut then [BatchPut_op (ce_Key e) (ce_Value e)]
      else if ce_CmdType e = CmdTypeDelete then [BatchDelete_op (ce_Key e)]
      else if ce_CmdType e = CmdTypeFieldBatch then
        (case DecodeFieldBatch (ce_Value e) of
           Inl _ \<Rightarrow> []
         | Inr fb \<Rightarrow> map (field_op (if fb_PartitionID fb = 0 then pid else fb_PartitionID fb) (fb_PrimaryKey fb)) (fb_Updates fb))
      else [])"

definition replay_ops :: "u32 \<Rightarrow> u64 \<Rightarrow> CommandEntry list \<Rightarrow> batch_op list" where
  "replay_ops pid fromSeq es = concat (map (entry_ops pid) (filter (\<lambda>e. fromSeq < ce_Sequence e) es))"

lemma fold_batch_cases:
  "(\<exists>c. \<forall>m. fold batch_step ops m k = c) \<or> (\<forall>m. fold batch_step ops m k = m k)"
proof (induction ops rule: rev_induct)
  case (snoc x ops)
  then show ?case
    by (cases x) auto
qed simp

lemma fold_batch_idem: "fold batch_step ops (fold batch_step ops m) = fold batch_step ops m"
proof
  fix k
  show "fold batch_step ops (fold batch_step ops m) k = fold batch_step ops m k"
    using fold_batch_cases [of ops k] by (elim disjE exE) simp_all
qed

context rocks_engine
begin

lemma apply_entry_view:
  assumes "apply_entry eng pid e db = (db', None)"
  shows "view db' = fold batch_step (entry_ops pid e) (view db)"
proof -
  consider (put) "ce_CmdType e = CmdTypePut" | (del) "ce_CmdType e = CmdTypeDelete"
    | (fields) "ce_CmdType e = CmdTypeFieldBatch" | (other) "ce_CmdType e \<notin> {CmdTypePut, CmdTypeDelete, CmdTypeFieldBatch}"
    by blast
  then show ?thesis
  proof cases
    case put
    then show ?thesis
      using view_Put [of db "ce_Key e" "ce_Value e" db' None] assms by (simp add: apply_entry_def entry_ops_def)
  next
    case del
    then have "ce_CmdType e \<noteq> CmdTypePut"
      by (simp add: CmdTypeDelete_def CmdTypePut_def)
    with del show ?thesis
      using view_Delete [of db "ce_Key e" db' None] assms by (simp add: apply_entry_def entry_ops_def)
  next
    case fields
    then have "ce_CmdType e \<noteq> CmdTypePut" "ce_CmdType e \<noteq> CmdTypeDelete"
      by (simp_all add: CmdTypeDelete_def CmdTypePut_def CmdTypeFieldBatch_def)
    with fields assms show ?thesis
      using view_Write [of db _ db' None]
      by (auto simp: apply_entry_def entry_ops_def ApplyFieldBatch_def Let_def split: sum.splits)
  next
    case other
    with assms show ?thesis
      by (simp add: apply_entry_def entry_ops_def)
  qed
qed

lemma replay_entries_view:
  "replay_entries eng pid fromSeq es (db, lastSeq) = ((db', lastSeq'), None) \<Longrightarrow>
   view db' = fold batch_step (replay_ops pid fromSeq es) (view db)"
proof (induction es arbitrary: db lastSeq)
  case (Cons e es)
  show ?case
  proof (cases "ce_Sequence e \<le> fromSeq")
    case False
    then obtain db1 where "apply_entry eng pid e db = (db1, None)"
      "replay_entries eng pid fromSeq es (db1, ce_Sequence e) = ((db', lastSeq'), None)"
      using Cons.prems by (auto split: prod.splits option.splits)
    then show ?thesis
      using Cons.IH apply_entry_view False by (simp add: replay_ops_def not_le)
  next
    case True
    then have "\<not> fromSeq < ce_Sequence e"
      by simp
    with True Cons show ?thesis
      by (simp add: replay_ops_def)
  qed
qed (simp add: replay_ops_def)

lemma replay_files_view:
  "replay_files eng pid fromSeq fs (db, lastSeq) = ((db', lastSeq'), None) \<Longrightarrow>
   view db' = fold batch_step (replay_ops pid fromSeq (concat (map decode_all fs))) (view db)"
proof (induction fs arbitrary: db lastSeq)
  case (Cons f fs)
  then obtain db1 l1 where "replay_entries eng pid fromSeq (decode_all f) (db, lastSeq) = ((db1, l1), None)"
    "replay_files eng pid fromSeq fs (db1, l1) = ((db', lastSeq'), None)"
    by (auto split: prod.splits option.splits)
  then show ?case
    using Cons.IH replay_entries_view by (simp add: replay_ops_def)
qed (simp add: replay_ops_def)

lemma ReplayTo_view:
  "cl_ReplayTo eng db fromSeq cl = ((db', lastSeq), None) \<Longrightarrow>
   view db' = fold batch_step (replay_ops (cl_partitionID cl) fromSeq (disk_entries (log_files (cl_files cl)))) (view db)"
  using replay_files_view by (fastforce simp: cl_ReplayTo_def disk_entries_def comp_def)

end

section \<open>Crashes\<close>

text \<open>
  What a crash leaves in the directory: of every file at least the stable bytes. (When only the process dies,
  the files are as they are.) The calls on a log: appends with time stamp, time of a
  rotation, type, key and value, and syncs; the clock goes forward.
\<close>

definition crashed :: "CommandLog \<Rightarrow> (nat \<times> bytes) list \<Rightarrow> bool" where
  "crashed cl fs \<longleftrightarrow> list_all2 (\<lambda>(n, bs) (n', bs'). n' = n \<and> prefix bs' bs \<and> min (durable_len cl n) (length bs) \<le> length bs')
     (cl_files cl) fs"

datatype log_call = LogAppend nat nat byte bytes bytes | LogSync

fun log_call_run :: "log_call \<Rightarrow> CommandLog \<Rightarrow> CommandLog" where
  "log_call_run (LogAppend ts now cmdType key val) cl = fst (cl_Append ts now cmdType key val cl)"
| "log_call_run LogSync cl = fst (cl_Sync cl)"

fun log_run :: "log_call list \<Rightarrow> CommandLog \<Rightarrow> CommandLog" where
  "log_run [] cl = cl"
| "log_run (c # cs) cl = log_run cs (log_call_run c cl)"

fun appended :: "u64 \<Rightarrow> log_call list \<Rightarrow> CommandEntry list" where
  "appended seq [] = []"
| "appended seq (LogAppend ts now cmdType key val # cs) = log_entry ts (seq + 1) cmdType key val # appended (seq + 1) cs"
| "appended seq (LogSync # cs) = appended seq cs"

fun calls_ok :: "nat \<Rightarrow> log_call list \<Rightarrow> bool" where
  "calls_ok t [] \<longleftrightarrow> True"
| "calls_ok t (LogAppend ts now cmdType key val # cs) \<longleftrightarrow>
     t < now \<and> length key < 2 ^ 32 \<and> length val < 2 ^ 32 \<and> calls_ok now cs"
| "calls_ok t (LogSync # cs) \<longleftrightarrow> calls_ok t cs"

lemma not_max_word: "unat x < 2 ^ 64 - 1 \<Longrightarrow> x \<noteq> -1" for x :: u64
  by (auto simp: unsigned_minus_1_eq_mask mask_eq_exp_minus_1)

lemma log_run_append: "log_run (xs @ ys) cl = log_run ys (log_run xs cl)"
  by (induction xs arbitrary: cl) auto

lemma log_run_inv:
  assumes "log_inv old cur cl" and "\<not> cl_closed cl" and "cl_currentFile cl \<le> t" and "calls_ok t (cs @ next_cs)"
    and "unat (cl_currentSeq cl) + length (cs @ next_cs) < 2 ^ 64"
  shows "\<exists>old' cur' t'. log_inv old' cur' (log_run cs cl) \<and> \<not> cl_closed (log_run cs cl) \<and>
     log_entries old' cur' = log_entries old cur @ appended (cl_currentSeq cl) cs \<and>
     cl_lastSyncSeq cl \<le> cl_lastSyncSeq (log_run cs cl) \<and>
     cl_currentFile (log_run cs cl) \<le> t' \<and> calls_ok t' next_cs \<and>
     unat (cl_currentSeq (log_run cs cl)) + length next_cs < 2 ^ 64 \<and>
     appended (cl_currentSeq cl) (cs @ next_cs) = appended (cl_currentSeq cl) cs @ appended (cl_currentSeq (log_run cs cl)) next_cs"
  using assms
proof (induction cs arbitrary: old cur cl t)
  case (Cons c cs)
  show ?case
  proof (cases c)
    case (LogAppend ts now cmdType key val)
    have "cl_currentSeq cl \<noteq> -1"
      using Cons.prems(5) by (intro not_max_word) simp
    moreover from this have seq: "unat (cl_currentSeq cl + 1) = Suc (unat (cl_currentSeq cl))"
      by (metis add.commute add.inverse_inverse eq_neg_iff_add_eq_0 unatSuc)
    moreover have "cl_currentFile cl < now"
      using Cons.prems(3,4) LogAppend by simp
    ultimately obtain cl1 old1 cur1 where one: "cl_Append ts now cmdType key val cl = (cl1, Inr (cl_currentSeq cl + 1))"
      "log_inv old1 cur1 cl1" "cl_currentSeq cl1 = cl_currentSeq cl + 1" "\<not> cl_closed cl1"
      "cl_lastSyncSeq cl1 = cl_lastSyncSeq cl" "cl_currentFile cl1 \<le> now"
      "log_entries old1 cur1 = log_entries old cur @ [log_entry ts (cl_currentSeq cl + 1) cmdType key val]"
      using Append_inv [OF Cons.prems(1,2), of key val now ts cmdType] Cons.prems(4) LogAppend by auto
    from Cons.IH [OF one(2,4,6)] Cons.prems(4,5) show ?thesis
      using one(1,3,5,7) seq LogAppend by auto
  next
    case LogSync
    obtain cl1 where one: "cl_Sync cl = (cl1, None)" "log_inv old cur cl1" "cl_currentFile cl1 = cl_currentFile cl"
      "cl_currentSeq cl1 = cl_currentSeq cl" "cl_lastSyncSeq cl1 = cl_currentSeq cl" "cl_closed cl1 = cl_closed cl"
      using Sync_inv [OF Cons.prems(1)] by blast
    have "cl_lastSyncSeq cl \<le> cl_currentSeq cl"
      using Cons.prems(1) by (simp add: log_inv_def)
    moreover have "\<not> cl_closed cl1" "cl_currentFile cl1 \<le> t"
      using one Cons.prems(2,3) by simp_all
    ultimately obtain old' cur' t' where "log_inv old' cur' (log_run cs cl1) \<and> \<not> cl_closed (log_run cs cl1) \<and>
        log_entries old' cur' = log_entries old cur @ appended (cl_currentSeq cl) cs \<and>
        cl_lastSyncSeq cl \<le> cl_lastSyncSeq (log_run cs cl1) \<and>
        cl_currentFile (log_run cs cl1) \<le> t' \<and> calls_ok t' next_cs \<and>
        unat (cl_currentSeq (log_run cs cl1)) + length next_cs < 2 ^ 64 \<and>
        appended (cl_currentSeq cl) (cs @ next_cs) = appended (cl_currentSeq cl) cs @ appended (cl_currentSeq (log_run cs cl1)) next_cs"
      using Cons.IH [OF one(2), of t] Cons.prems(4,5) one(4,5) LogSync by (auto dest: order_trans)
    then show ?thesis
      unfolding LogSync by (intro exI [of _ old'] exI [of _ cur'] exI [of _ t']) (simp add: one(1))
  qed
qed auto

text \<open>The log that is opened after a crash.\<close>

lemma crashed_recovers:
  assumes inv: "log_inv old cur cl" and now: "cl_currentFile cl < now" and fs: "crashed cl fs"
  shows "\<exists>cl' old' n. NewCommandLog pid fs None now = Inr cl' \<and>
     log_inv old' [] cl' \<and> log_entries old' [] = log_entries old (take n cur) \<and>
     (\<forall>e \<in> set (log_entries old cur). ce_Sequence e \<le> cl_lastSyncSeq cl \<longrightarrow> e \<in> set (log_entries old' [])) \<and>
     (\<forall>e \<in> set (log_entries old' []). ce_Sequence e \<le> cl_currentSeq cl')"
proof -
  let ?k = "durable_len cl (cl_currentFile cl)"
  have valid: "\<forall>e \<in> set cur. entry_valid e" and ok: "old_ok old"
    and sorted: "sorted_wrt (<) (map fst old @ [cl_currentFile cl])" and inc: "increasing (log_entries old cur)"
    and stable: "\<forall>(n, bs) \<in> set (old_bytes old). length bs \<le> durable_len cl n"
    using inv by (auto simp: log_inv_def)
  obtain d where d: "cl_files cl = old_bytes old @ [(cl_currentFile cl, d)]" "d @ bw_buf (cl_writer cl) = enc_all cur"
    "synced cur (take ?k d) (cl_lastSyncSeq cl)"
    using inv by (auto simp: log_inv_def)
  obtain fs1 d' where fs_eq: "fs = fs1 @ [(cl_currentFile cl, d')]" and cut: "prefix d' d" "min ?k (length d) \<le> length d'"
    and fs1: "list_all2 (\<lambda>(n, bs) (n', bs'). n' = n \<and> prefix bs' bs \<and> min (durable_len cl n) (length bs) \<le> length bs') (old_bytes old) fs1"
    using fs by (auto simp: crashed_def d(1) list_all2_append1 list_all2_Cons1)
  have "fs1 = old_bytes old"
  proof -
    from fs1 have "list_all2 (=) (old_bytes old) fs1"
    proof (rule list.rel_mono_strong)
      fix x y
      assume x: "x \<in> set (old_bytes old)"
        and y: "(case x of (n, bs) \<Rightarrow> \<lambda>(n', bs'). n' = n \<and> prefix bs' bs \<and> min (durable_len cl n) (length bs) \<le> length bs') y"
      obtain n bs where nbs: "x = (n, bs)"
        by force
      then have "length bs \<le> durable_len cl n"
        using stable x by auto
      then show "x = y"
        using y by (auto simp: nbs prefix_def)
    qed
    then show ?thesis
      by (simp add: list.rel_eq)
  qed
  then have files: "fs = old_bytes old @ [(cl_currentFile cl, d')]"
    by (simp add: fs_eq)
  have "prefix (take ?k d) d'"
    using cut by (metis length_take min.commute prefix_length_prefix take_is_prefix)
  then have sync: "synced cur d' (cl_lastSyncSeq cl)"
    using d(3) synced_prefix by blast
  have "prefix d' (enc_all cur)"
    using cut(1) d(2) by (metis prefix_def append.assoc)
  then obtain n t where n: "d' = enc_all (take n cur) @ t" "decode_all t = []"
    "\<And>m. length (enc_all (take m cur)) \<le> length d' \<Longrightarrow> set (take m cur) \<subseteq> set (take n cur)"
    using disk_cut [OF valid] by metis
  let ?old = "old @ [(cl_currentFile cl, take n cur, t)]"
  have entries': "log_entries ?old [] = log_entries old (take n cur)"
    by (simp add: log_entries_def)
  have "log_entries old cur = log_entries old (take n cur) @ drop n cur"
    by (simp add: log_entries_def)
  then have "increasing (log_entries ?old [])"
    using inc unfolding entries' by (simp add: increasing_def sorted_wrt_append)
  moreover have "old_ok ?old"
    using ok valid n(2) by (auto simp: old_ok_def dest: in_set_takeD)
  moreover have "sorted_wrt (<) (map fst ?old @ [now])"
    using sorted now by (auto simp: sorted_wrt_append)
  ultimately obtain cl' where cl': "NewCommandLog pid (old_bytes ?old) None now = Inr cl'" "log_inv ?old [] cl'"
    using NewCommandLog_inv by blast
  obtain m where "length (enc_all (take m cur)) \<le> length d'"
    "\<forall>e \<in> set cur. ce_Sequence e \<le> cl_lastSyncSeq cl \<longrightarrow> e \<in> set (take m cur)"
    using sync by (auto simp: synced_def)
  then have kept: "\<forall>e \<in> set (log_entries old cur). ce_Sequence e \<le> cl_lastSyncSeq cl \<longrightarrow> e \<in> set (log_entries ?old [])"
    using n(3) unfolding entries' by (fastforce simp: log_entries_def)
  moreover have "\<forall>e \<in> set (log_entries ?old []). ce_Sequence e \<le> cl_currentSeq cl'"
    using cl'(2) by (simp add: log_inv_def)
  moreover have "old_bytes ?old = fs"
    by (simp add: old_bytes_def n(1) files)
  ultimately show ?thesis
    using cl' entries' by metis
qed

lemma take_covers:
  assumes "distinct xs" and "set (take m xs) \<subseteq> set (take n xs)" and "m \<le> length xs"
  shows "m \<le> n"
proof -
  have "card (set (take m xs)) \<le> card (set (take n xs))"
    using assms(2) by (intro card_mono) simp_all
  then show ?thesis
    using assms by (simp add: distinct_card [OF distinct_take])
qed

section \<open>Properties\<close>

text \<open>
  C16. Appending to a log in order: as long as the device works, \<open>Append\<close> returns the next
  sequence number, the log keeps its invariant (strictly increasing numbers, an index that
  points at every entry, entries on disk or in the buffer), and its entries are the old ones
  followed by the new one, through any buffering and rotation.
\<close>

theorem Append_extends_log:
  assumes "log_inv old cur cl" and "\<not> cl_closed cl"
    and "length key < 2 ^ 32" and "length val < 2 ^ 32"
    and "cl_currentSeq cl \<noteq> -1" and "cl_currentFile cl < now"
  shows "\<exists>cl' old' cur'. cl_Append ts now cmdType key val cl = (cl', Inr (cl_currentSeq cl + 1)) \<and>
     log_inv old' cur' cl' \<and>
     log_entries old' cur' = log_entries old cur @ [log_entry ts (cl_currentSeq cl + 1) cmdType key val]"
  using Append_inv [OF assms] by blast

text \<open>An empty log, as it is made for a new partition.\<close>

definition empty_log :: "u32 \<Rightarrow> nat \<Rightarrow> CommandLog" where
  "empty_log pid now = (case NewCommandLog pid [] None now of Inr cl \<Rightarrow> cl)"

lemma empty_log:
  "NewCommandLog pid [] None now = Inr (empty_log pid now)" "log_inv [] [] (empty_log pid now)"
  "cl_currentFile (empty_log pid now) = now" "\<not> cl_closed (empty_log pid now)" "cl_currentSeq (empty_log pid now) = 0"
proof -
  from NewCommandLog_inv [of "[]" now pid] obtain cl where "NewCommandLog pid [] None now = Inr cl" "log_inv [] [] cl"
    "cl_currentFile cl = now" "\<not> cl_closed cl" "cl_currentSeq cl = 0"
    by (auto simp: old_ok_def increasing_def log_entries_def old_bytes_def)
  then show "NewCommandLog pid [] None now = Inr (empty_log pid now)" "log_inv [] [] (empty_log pid now)"
    "cl_currentFile (empty_log pid now) = now" "\<not> cl_closed (empty_log pid now)" "cl_currentSeq (empty_log pid now) = 0"
    by (simp_all add: empty_log_def)
qed

theorem Append_extends_log_witness:
  "\<exists>cl' old' cur'. cl_Append 5 6 CmdTypePut [1] [2] (empty_log 7 3) = (cl', Inr 1) \<and> log_inv old' cur' cl' \<and>
     log_entries old' cur' = [log_entry 5 1 CmdTypePut [1] [2]]"
  using Append_extends_log [OF empty_log(2) [of 7 3], of "[1]" "[2]" 6 5 CmdTypePut] empty_log(3-5) [of 7 3]
  by (auto simp: log_entries_def)

text \<open>
  C21. \<open>ReadFrom\<close> by index and by full scan agree: on a log with its invariant, the result is
  the first \<open>limit\<close> entries from \<open>fromSeq\<close> on among the entries that are on disk.
\<close>

theorem ReadFrom_full_scan:
  assumes "log_inv old cur cl"
  shows "cl_ReadFrom fromSeq limit cl =
     take limit (filter (\<lambda>e. fromSeq \<le> ce_Sequence e) (disk_entries (log_files (cl_files cl))))"
  using assms by (rule ReadFrom_eq)

text \<open>A log that was opened on a directory with one entry.\<close>

definition example_entry :: CommandEntry where
  "example_entry = log_entry 5 1 CmdTypePut [1] [2]"

definition example_log :: CommandLog where
  "example_log = (case NewCommandLog 7 [(3, CommandEntry_Encode example_entry)] None 4 of Inr cl \<Rightarrow> cl)"

lemma example_log:
  "log_inv [(3, [example_entry], [])] [] example_log"
  "cl_files example_log = [(3, CommandEntry_Encode example_entry), (4, [])]" "cl_partitionID example_log = 7"
  "decode_all (CommandEntry_Encode example_entry) = [example_entry]" "ce_Sequence example_entry = 1"
proof -
  let ?old = "[(3, [example_entry], [])]"
  have valid: "entry_valid example_entry"
    by (simp add: example_entry_def log_entry_facts)
  then have ok: "old_ok ?old" "increasing (log_entries ?old [])"
    by (simp_all add: old_ok_def increasing_def log_entries_def)
  from NewCommandLog_inv [of ?old 4 7, OF _ ok] obtain cl where cl: "NewCommandLog 7 (old_bytes ?old) None 4 = Inr cl"
    "log_inv ?old [] cl" "cl_currentFile cl = 4" "cl_partitionID cl = 7"
    by auto
  then have "example_log = cl"
    by (simp add: example_log_def old_bytes_def)
  then show "log_inv ?old [] example_log" "cl_files example_log = [(3, CommandEntry_Encode example_entry), (4, [])]"
    "cl_partitionID example_log = 7"
    using cl(2-4) by (auto simp: log_inv_def old_bytes_def)
  show "decode_all (CommandEntry_Encode example_entry) = [example_entry]"
    using decode_old [OF ok(1)] by (simp add: old_bytes_def)
  show "ce_Sequence example_entry = 1"
    by (simp add: example_entry_def log_entry_facts)
qed

theorem ReadFrom_full_scan_witness: "cl_ReadFrom 1 10 example_log = [example_entry] \<and> cl_ReadFrom 2 10 example_log = []"
  using ReadFrom_full_scan [OF example_log(1), of 1 10] ReadFrom_full_scan [OF example_log(1), of 2 10]
  by (simp add: example_log log_files_def word_le_nat_alt)

text \<open>
  C7. What \<open>Sync\<close> confirms survives a crash. After any calls, a successful \<open>Sync\<close> and any further calls,
  the machine crashes: buffers are lost, and files may be cut off anywhere behind what was synced.
  \<open>NewCommandLog\<close> then opens the directory; its log keeps the invariant, and its entries are
  the first \<open>n\<close> of all the entries the log ever had, among them at least those from before
  the \<open>Sync\<close>. The next sequence number is above that of every surviving entry.
\<close>

theorem crash_recovery:
  assumes "log_inv old cur cl" and "\<not> cl_closed cl" and "calls_ok (cl_currentFile cl) (before @ after)"
    and "unat (cl_currentSeq cl) + length (before @ after) < 2 ^ 64"
    and "cl_Sync (log_run before cl) = (cl1, None)"
    and "crashed (log_run after cl1) fs" and "cl_currentFile (log_run after cl1) < now"
  shows "\<exists>cl' old' n. NewCommandLog pid fs None now = Inr cl' \<and> log_inv old' [] cl' \<and>
     log_entries old' [] = take n (log_entries old cur @ appended (cl_currentSeq cl) (before @ after)) \<and>
     length (log_entries old cur @ appended (cl_currentSeq cl) before) \<le> n \<and>
     (\<forall>e \<in> set (log_entries old' []). ce_Sequence e \<le> cl_currentSeq cl')"
proof -
  let ?early = "log_entries old cur @ appended (cl_currentSeq cl) before"
  obtain old1 cur1 t1 where b: "log_inv old1 cur1 (log_run before cl)" "\<not> cl_closed (log_run before cl)" "log_entries old1 cur1 = ?early"
    "cl_currentFile (log_run before cl) \<le> t1" "calls_ok t1 after" "unat (cl_currentSeq (log_run before cl)) + length after < 2 ^ 64"
    "appended (cl_currentSeq cl) (before @ after) = appended (cl_currentSeq cl) before @ appended (cl_currentSeq (log_run before cl)) after"
    using log_run_inv [OF assms(1,2) order_refl assms(3,4)] by blast
  from Sync_inv [OF b(1)] assms(5) have s: "log_inv old1 cur1 cl1" "cl_currentFile cl1 = cl_currentFile (log_run before cl)"
    "cl_currentSeq cl1 = cl_currentSeq (log_run before cl)" "cl_lastSyncSeq cl1 = cl_currentSeq (log_run before cl)" "\<not> cl_closed cl1"
    using b(2) by auto
  obtain old2 cur2 where a: "log_inv old2 cur2 (log_run after cl1)" "cl_lastSyncSeq cl1 \<le> cl_lastSyncSeq (log_run after cl1)"
    "log_entries old2 cur2 = log_entries old cur @ appended (cl_currentSeq cl) (before @ after)"
    using log_run_inv [OF s(1,5), of t1 after "[]"] b s(2,3) by auto
  let ?all = "log_entries old cur @ appended (cl_currentSeq cl) (before @ after)"
  obtain cl' old' k where c: "NewCommandLog pid fs None now = Inr cl'" "log_inv old' [] cl'" "log_entries old' [] = log_entries old2 (take k cur2)"
    "\<forall>e \<in> set (log_entries old2 cur2). ce_Sequence e \<le> cl_lastSyncSeq (log_run after cl1) \<longrightarrow> e \<in> set (log_entries old' [])"
    "\<forall>e \<in> set (log_entries old' []). ce_Sequence e \<le> cl_currentSeq cl'"
    using crashed_recovers [OF a(1) assms(7,6)] by blast
  define n where "n = length (log_entries old2 []) + k"
  have "log_entries old' [] = take n (log_entries old2 cur2)"
    unfolding c(3) n_def by (simp add: log_entries_def)
  then have cut: "log_entries old' [] = take n ?all"
    by (simp only: a(3))
  have E0: "?early = take (length ?early) ?all"
    by (simp add: b(7))
  have "set ?early \<subseteq> set (take n ?all)"
  proof
    fix e
    assume e: "e \<in> set ?early"
    have "\<forall>x \<in> set (log_entries old1 cur1). ce_Sequence x \<le> cl_currentSeq (log_run before cl)"
      using b(1) by (simp add: log_inv_def)
    then have "ce_Sequence e \<le> cl_currentSeq (log_run before cl)"
      using e unfolding b(3) by (rule bspec)
    then have "ce_Sequence e \<le> cl_lastSyncSeq (log_run after cl1)"
      using a(2) s(4) by simp
    moreover have "e \<in> set (log_entries old2 cur2)"
      using e by (auto simp: a(3) b(7))
    ultimately show "e \<in> set (take n ?all)"
      using c(4) cut by auto
  qed
  moreover have "distinct (map ce_Sequence ?all)"
    using a(1) unfolding a(3) [symmetric] by (simp add: log_inv_def increasing_def strict_sorted_iff)
  then have "distinct ?all"
    by (simp only: distinct_map)
  ultimately have "length ?early \<le> n"
    using take_covers [of ?all "length ?early" n] E0 by (simp add: b(7))
  then show ?thesis
    using c(1,2,5) cut by blast
qed

text \<open>One entry before the \<open>Sync\<close>, one behind it, and a crash that cuts nothing but the buffer.\<close>

lemma crashed_process: "crashed cl (cl_files cl)"
  by (simp add: crashed_def list_all2_same case_prod_unfold)

theorem crash_recovery_witness:
  "let before = [LogAppend 5 6 CmdTypePut [1] [2]]; after = [LogAppend 5 8 CmdTypePut [3] [4]];
       cl2 = log_run after (fst (cl_Sync (log_run before (empty_log 7 3))))
   in \<exists>cl' old'. NewCommandLog 7 (cl_files cl2) None 9 = Inr cl' \<and> log_inv old' [] cl' \<and>
     log_entry 5 1 CmdTypePut [1] [2] \<in> set (log_entries old' []) \<and>
     set (log_entries old' []) \<subseteq> {log_entry 5 1 CmdTypePut [1] [2], log_entry 5 2 CmdTypePut [3] [4]}"
proof -
  let ?before = "[LogAppend 5 6 CmdTypePut [1] [2]]" and ?after = "[LogAppend 5 8 CmdTypePut [3] [4]]"
  let ?cl1 = "log_run ?before (empty_log 7 3)"
  note start = empty_log(2) [of 7 3] empty_log(4) [of 7 3]
  have ok: "calls_ok (cl_currentFile (empty_log 7 3)) (?before @ ?after)"
    "unat (cl_currentSeq (empty_log 7 3)) + length (?before @ ?after) < 2 ^ 64"
    using empty_log(3,5) [of 7 3] by simp_all
  obtain old1 cur1 t1 where b: "log_inv old1 cur1 ?cl1" "\<not> cl_closed ?cl1" "cl_currentFile ?cl1 \<le> t1" "calls_ok t1 ?after"
    "unat (cl_currentSeq ?cl1) + length ?after < 2 ^ 64"
    using log_run_inv [OF start order_refl ok] by blast
  obtain cl2 where s: "cl_Sync ?cl1 = (cl2, None)" "log_inv old1 cur1 cl2" "cl_currentFile cl2 \<le> t1" "\<not> cl_closed cl2"
    "cl_currentSeq cl2 = cl_currentSeq ?cl1"
    using Sync_inv [OF b(1)] b(2,3) by auto
  have "cl_currentSeq cl2 \<noteq> -1"
    using b(5) by (intro not_max_word) (simp add: s(5))
  moreover have "cl_currentFile cl2 < 8"
    using s(3) b(4) by simp
  ultimately have "cl_currentFile (log_run ?after cl2) < 9"
    using Append_inv [OF s(2,4), of "[3]" "[4]" 8 5 CmdTypePut] by auto
  with crash_recovery [OF start ok s(1) crashed_process, of 9 7] obtain cl' old' n where
    c: "NewCommandLog 7 (cl_files (log_run ?after cl2)) None 9 = Inr cl'" "log_inv old' [] cl'"
      "log_entries old' [] = take n (log_entries [] [] @ appended (cl_currentSeq (empty_log 7 3)) (?before @ ?after))"
      "length (log_entries [] [] @ appended (cl_currentSeq (empty_log 7 3)) ?before) \<le> n"
    by blast
  have "log_entries old' [] = take n [log_entry 5 1 CmdTypePut [1] [2], log_entry 5 2 CmdTypePut [3] [4]]" "1 \<le> n"
    using c(3,4) empty_log(5) [of 7 3] by (simp_all add: log_entries_def)
  then have "log_entry 5 1 CmdTypePut [1] [2] \<in> set (log_entries old' []) \<and>
      set (log_entries old' []) \<subseteq> {log_entry 5 1 CmdTypePut [1] [2], log_entry 5 2 CmdTypePut [3] [4]}"
    by (auto simp: take_Cons' split: if_splits)
  then show ?thesis
    using c(1,2) s(1) by auto
qed

text \<open>
  C22. Replaying a log into a database applies the writes of the entries above \<open>fromSeq\<close> in
  order, and doing it a second time changes nothing: recovery may be repeated.
\<close>

theorem ReplayTo_idempotent:
  assumes "rocks_engine eng view"
    and "cl_ReplayTo eng db fromSeq cl = ((db', lastSeq), None)"
    and "cl_ReplayTo eng db' fromSeq cl = ((db'', lastSeq'), None)"
  shows "view db' = fold batch_step
       (replay_ops (cl_partitionID cl) fromSeq (disk_entries (log_files (cl_files cl)))) (view db) \<and>
     view db'' = view db'"
proof
  let ?ops = "replay_ops (cl_partitionID cl) fromSeq (disk_entries (log_files (cl_files cl)))"
  show 1: "view db' = fold batch_step ?ops (view db)"
    by (rule rocks_engine.ReplayTo_view [OF assms(1,2)])
  have "view db'' = fold batch_step ?ops (view db')"
    by (rule rocks_engine.ReplayTo_view [OF assms(1,3)])
  then show "view db'' = view db'"
    by (simp only: 1 fold_batch_idem)
qed

theorem ReplayTo_idempotent_witness:
  "\<exists>db' lastSeq. cl_ReplayTo (mem_engine None) [([1], [8])] 0 example_log = ((db', lastSeq), None) \<and>
     map_of db' = [[1] \<mapsto> [2]]"
proof -
  have put: "ce_CmdType example_entry = CmdTypePut" "ce_Key example_entry = [1]" "ce_Value example_entry = [2]"
    by (simp_all add: example_entry_def log_entry_def Let_def)
  have "\<exists>db'. cl_ReplayTo (mem_engine None) db 0 example_log = ((db', 1), None)" for db
    by (simp add: cl_ReplayTo_def example_log log_files_def apply_entry_def put RocksDB_Put_def mem_engine_def mem_write_def)
  then obtain db' db'' where r: "cl_ReplayTo (mem_engine None) [([1], [8])] 0 example_log = ((db', 1), None)"
    "cl_ReplayTo (mem_engine None) db' 0 example_log = ((db'', 1), None)"
    by meson
  from ReplayTo_idempotent [OF mem.rocks_engine_axioms r] r(1) show ?thesis
    by (simp add: example_log log_files_def replay_ops_def entry_ops_def put)
qed

end
