(* ===== verification/Replicator.thy ===== *)
theory Replicator
  imports Command_Log Proto
begin

text \<open>
  The replication of a partition's command log to its replica,
  \<open>src/pkg/storage/command_log_replicator.go\<close>.

  The replica is remote: its state is an argument, and so are the outcome of dialling it and
  the function \<open>rpc\<close> that performs the call \<open>Replicate\<close>, which either fails in transport or
  returns a response. The checkpoint file lies in the directory of the log; it is written to
  a temporary file and renamed, so it holds a whole number or is absent.
\<close>

section \<open>Decimal numbers\<close>

text \<open>\<open>strconv.FormatUint\<close> and \<open>strconv.ParseUint\<close> in base 10 with 64 bits.\<close>

definition FormatUint :: "u64 \<Rightarrow> string" where
  "FormatUint n = digits (unat n)"

definition ParseUint :: "string \<Rightarrow> u64 option" where
  "ParseUint s =
     (if s = [] then None
      else case parse_digits 0 s of
             None \<Rightarrow> None
           | Some n \<Rightarrow> if 2 ^ 64 \<le> n then None else Some (of_nat n))"

lemma ParseUint_FormatUint [simp]: "ParseUint (FormatUint n) = Some n"
proof -
  have "digits (unat n) \<noteq> []"
    by (subst digits.simps) simp
  moreover have "unat n < 2 ^ 64"
    using unat_bound [of n] by simp
  ultimately show ?thesis
    by (simp add: ParseUint_def FormatUint_def parse_digits_digits)
qed

section \<open>State\<close>

definition CLBatchSize :: nat where "CLBatchSize = 500"

text \<open>The directory of a partition: log files and checkpoint.\<close>

record logdir =
  ld_files :: "(nat \<times> bytes) list"
  ld_checkpoint :: "string option"

record CommandLogReplicator =
  clr_partitionID :: u32
  clr_replicaAddr :: string
  clr_isPrimary :: bool
  clr_commandLog :: CommandLog
  clr_checkpoint :: "string option"
  clr_replicatedSeq :: u64
  clr_connected :: bool
  clr_running :: bool

definition loadCheckpoint :: "string option \<Rightarrow> u64" where
  "loadCheckpoint file =
     (case file of
        None \<Rightarrow> 0
      | Some data \<Rightarrow> (case ParseUint data of None \<Rightarrow> 0 | Some seq \<Rightarrow> seq))"

definition NewCommandLogReplicator ::
    "u32 \<Rightarrow> bool \<Rightarrow> string \<Rightarrow> logdir \<Rightarrow> (nat \<times> err) option \<Rightarrow> nat \<Rightarrow> err + CommandLogReplicator" where
  "NewCommandLogReplicator partitionID isPrimary replicaAddr dir fault now =
     (case NewCommandLog partitionID (ld_files dir) fault now of
        Inl e \<Rightarrow> Inl e
      | Inr commandLog \<Rightarrow>
          Inr \<lparr>clr_partitionID = partitionID, clr_replicaAddr = replicaAddr, clr_isPrimary = isPrimary,
               clr_commandLog = commandLog, clr_checkpoint = ld_checkpoint dir,
               clr_replicatedSeq = loadCheckpoint (ld_checkpoint dir), clr_connected = False,
               clr_running = False\<rparr>)"

text \<open>\<open>Start\<close> starts the replication loop.\<close>

definition clr_Start :: "CommandLogReplicator \<Rightarrow> CommandLogReplicator" where
  "clr_Start clr = (if \<not> clr_isPrimary clr \<or> clr_replicaAddr clr = [] then clr else clr\<lparr>clr_running := True\<rparr>)"

definition clr_AppendPut ::
    "nat \<Rightarrow> nat \<Rightarrow> bytes \<Rightarrow> bytes \<Rightarrow> CommandLogReplicator \<Rightarrow> CommandLogReplicator \<times> (err + u64)" where
  "clr_AppendPut ts now key val clr =
     (let (cl, r) = AppendPut ts now key val (clr_commandLog clr) in (clr\<lparr>clr_commandLog := cl\<rparr>, r))"

definition clr_AppendDelete ::
    "nat \<Rightarrow> nat \<Rightarrow> bytes \<Rightarrow> CommandLogReplicator \<Rightarrow> CommandLogReplicator \<times> (err + u64)" where
  "clr_AppendDelete ts now key clr =
     (let (cl, r) = AppendDelete ts now key (clr_commandLog clr) in (clr\<lparr>clr_commandLog := cl\<rparr>, r))"

definition clr_AppendFieldBatch ::
    "nat \<Rightarrow> nat \<Rightarrow> bytes \<Rightarrow> CommandLogReplicator \<Rightarrow> CommandLogReplicator \<times> (err + u64)" where
  "clr_AppendFieldBatch ts now batchData clr =
     (let (cl, r) = AppendFieldBatch ts now batchData (clr_commandLog clr) in (clr\<lparr>clr_commandLog := cl\<rparr>, r))"

definition clr_GetCurrentSequence :: "CommandLogReplicator \<Rightarrow> u64" where
  "clr_GetCurrentSequence clr = GetCurrentSequence (clr_commandLog clr)"

definition GetReplicatedSequence :: "CommandLogReplicator \<Rightarrow> u64" where
  "GetReplicatedSequence clr = clr_replicatedSeq clr"

text \<open>The difference is taken in 64 bits.\<close>

definition GetReplicationLag :: "CommandLogReplicator \<Rightarrow> u64" where
  "GetReplicationLag clr = clr_GetCurrentSequence clr - GetReplicatedSequence clr"

definition clr_ReplayTo ::
    "('db, 'x) engine_scheme \<Rightarrow> 'db \<Rightarrow> u64 \<Rightarrow> CommandLogReplicator \<Rightarrow> ('db \<times> u64) \<times> err option" where
  "clr_ReplayTo eng db fromSeq clr = cl_ReplayTo eng db fromSeq (clr_commandLog clr)"

definition clr_Sync :: "CommandLogReplicator \<Rightarrow> CommandLogReplicator \<times> err option" where
  "clr_Sync clr = (let (cl, e) = cl_Sync (clr_commandLog clr) in (clr\<lparr>clr_commandLog := cl\<rparr>, e))"

definition UpdateReplicaAddr :: "string \<Rightarrow> CommandLogReplicator \<Rightarrow> CommandLogReplicator" where
  "UpdateReplicaAddr addr clr =
     (if clr_replicaAddr clr = addr then clr
      else clr\<lparr>clr_replicaAddr := addr, clr_connected := False\<rparr>)"

section \<open>Sending\<close>

text \<open>The entries of a request; \<open>int64\<close> values are words compared as signed.\<close>

definition to_ReplicationEntry :: "CommandEntry \<Rightarrow> ReplicationEntry" where
  "to_ReplicationEntry entry =
     \<lparr>re_offset = ce_Sequence entry, re_key = ce_Key entry, re_value = ce_Value entry,
      re_is_delete = (ce_CmdType entry = CmdTypeDelete), re_timestamp = ce_Timestamp entry,
      re_op_type =
        (if ce_CmdType entry = CmdTypePut then REP_OP_PUT
         else if ce_CmdType entry = CmdTypeDelete then REP_OP_DELETE
         else if ce_CmdType entry = CmdTypeFieldBatch then REP_OP_FIELD_BATCH
         else REP_OP_PUT)\<rparr>"

definition clr_sendBatch ::
    "('r \<Rightarrow> ReplicateRequest \<Rightarrow> 'r \<times> (err + ReplicateResponse)) \<Rightarrow> CommandLogReplicator \<Rightarrow> CommandEntry list \<Rightarrow>
     'r \<Rightarrow> 'r \<times> err option" where
  "clr_sendBatch rpc clr es r =
     (if \<not> clr_connected clr then (r, None)
      else
        let maxOffset = fold (\<lambda>entry mx. if sint (ce_Sequence entry) > sint mx then ce_Sequence entry else mx) es 0;
            (r', resp) = rpc r \<lparr>rq_partition_id = clr_partitionID clr,
                               rq_entries = map to_ReplicationEntry es, rq_commit_offset = maxOffset\<rparr>
        in case resp of Inl e \<Rightarrow> (r', Some e) | Inr _ \<Rightarrow> (r', None))"

definition saveCheckpoint :: "u64 \<Rightarrow> CommandLogReplicator \<Rightarrow> CommandLogReplicator" where
  "saveCheckpoint seq clr =
     (case cl_fault (clr_commandLog clr) of
        Some _ \<Rightarrow> clr
      | None \<Rightarrow> clr\<lparr>clr_checkpoint := Some (FormatUint seq)\<rparr>)"

definition connectToReplica :: "err option \<Rightarrow> CommandLogReplicator \<Rightarrow> CommandLogReplicator \<times> err option" where
  "connectToReplica dial clr =
     (if clr_connected clr then (clr, None)
      else case dial of Some e \<Rightarrow> (clr, Some e) | None \<Rightarrow> (clr\<lparr>clr_connected := True\<rparr>, None))"

definition clr_syncToReplica ::
    "err option \<Rightarrow> ('r \<Rightarrow> ReplicateRequest \<Rightarrow> 'r \<times> (err + ReplicateResponse)) \<Rightarrow>
     CommandLogReplicator \<Rightarrow> 'r \<Rightarrow> CommandLogReplicator \<times> 'r" where
  "clr_syncToReplica dial rpc clr r =
     (let currentSeq = clr_GetCurrentSequence clr; replicatedSeq = GetReplicatedSequence clr in
      if currentSeq \<le> replicatedSeq then (clr, r)
      else
        case connectToReplica dial clr of
          (clr, Some _) \<Rightarrow> (clr, r)
        | (clr, None) \<Rightarrow>
            let es = cl_ReadFrom (replicatedSeq + 1) CLBatchSize (clr_commandLog clr) in
            if es = [] then (clr, r)
            else
              case clr_sendBatch rpc clr es r of
                (r', Some _) \<Rightarrow> (clr\<lparr>clr_connected := False\<rparr>, r')
              | (r', None) \<Rightarrow>
                  let lastSeq = ce_Sequence (last es)
                  in (saveCheckpoint lastSeq (clr\<lparr>clr_replicatedSeq := lastSeq\<rparr>), r'))"

text \<open>\<open>Stop\<close>: the loop, if it runs, sends once more before it ends; then the log is closed.\<close>

definition clr_Stop ::
    "err option \<Rightarrow> ('r \<Rightarrow> ReplicateRequest \<Rightarrow> 'r \<times> (err + ReplicateResponse)) \<Rightarrow>
     CommandLogReplicator \<Rightarrow> 'r \<Rightarrow> CommandLogReplicator \<times> 'r" where
  "clr_Stop dial rpc clr r =
     (let (clr, r) = (if clr_running clr then clr_syncToReplica dial rpc clr r else (clr, r))
      in (clr\<lparr>clr_commandLog := cl_Close (clr_commandLog clr), clr_connected := False, clr_running := False\<rparr>, r))"

definition clr_dir :: "CommandLogReplicator \<Rightarrow> logdir" where
  "clr_dir clr = \<lparr>ld_files = cl_files (clr_commandLog clr), ld_checkpoint = clr_checkpoint clr\<rparr>"

section \<open>What a round sends\<close>

text \<open>The entries on disk that are not replicated yet.\<close>

definition pending :: "CommandLogReplicator \<Rightarrow> CommandEntry list" where
  "pending clr = filter (\<lambda>e. clr_replicatedSeq clr < ce_Sequence e)
     (disk_entries (log_files (cl_files (clr_commandLog clr))))"

definition clr_inv :: "CommandLogReplicator \<Rightarrow> bool" where
  "clr_inv clr \<longleftrightarrow> (\<exists>old cur. log_inv old cur (clr_commandLog clr))"

text \<open>A working transport: every call returns a response, and the request of a batch.\<close>

definition reachable_rpc :: "('r \<Rightarrow> ReplicateRequest \<Rightarrow> 'r \<times> (err + ReplicateResponse)) \<Rightarrow> bool" where
  "reachable_rpc rpc \<longleftrightarrow> (\<forall>r rq. \<exists>resp. snd (rpc r rq) = Inr resp)"

definition batch_request :: "CommandLogReplicator \<Rightarrow> CommandEntry list \<Rightarrow> ReplicateRequest" where
  "batch_request clr es =
     \<lparr>rq_partition_id = clr_partitionID clr, rq_entries = map to_ReplicationEntry es,
      rq_commit_offset = fold (\<lambda>entry mx. if sint (ce_Sequence entry) > sint mx then ce_Sequence entry else mx) es 0\<rparr>"

lemma filter_after:
  assumes "increasing es" and P: "P = filter (\<lambda>e. s < ce_Sequence e) es" and "P \<noteq> []" and "0 < k"
  shows "filter (\<lambda>e. ce_Sequence (last (take k P)) < ce_Sequence e) es = drop k P"
proof -
  let ?l = "last (take k P)"
  have ne: "take k P \<noteq> []"
    using assms(3,4) by simp
  then have "?l \<in> set (take k P)"
    by (rule last_in_set)
  then have "?l \<in> set P"
    by (rule in_set_takeD)
  then have l: "s < ce_Sequence ?l"
    by (simp add: P)
  have inc: "increasing P"
    using assms(1) by (simp add: P increasing_def sorted_wrt_map sorted_wrt_filter)
  have before: "ce_Sequence e \<le> ce_Sequence ?l" if "e \<in> set (take k P)" for e
  proof -
    have "increasing (butlast (take k P) @ [?l])"
      using inc ne by (metis append_butlast_last_id append_take_drop_id increasing_def map_append sorted_wrt_append)
    moreover have "e \<in> set (butlast (take k P)) \<or> e = ?l"
      using that ne by (metis append_butlast_last_id rotate1.simps(2) set_ConsD set_rotate1)
    ultimately show ?thesis
      by (auto simp: increasing_def sorted_wrt_append intro: less_imp_le)
  qed
  have after: "ce_Sequence ?l < ce_Sequence e" if "e \<in> set (drop k P)" for e
  proof -
    have "increasing (take k P @ drop k P)"
      using inc by simp
    then show ?thesis
      using that \<open>?l \<in> set (take k P)\<close> by (auto simp: increasing_def sorted_wrt_append simp del: append_take_drop_id)
  qed
  have "filter (\<lambda>e. ce_Sequence ?l < ce_Sequence e) es = filter (\<lambda>e. ce_Sequence ?l < ce_Sequence e) P"
  proof -
    have "filter (\<lambda>e. x < ce_Sequence e) es = filter (\<lambda>e. x < ce_Sequence e) (filter (\<lambda>e. s < ce_Sequence e) es)"
      if "s < x" for x
      using that by (auto intro!: filter_cong dest: less_trans)
    then show ?thesis
      using l unfolding P [symmetric] .
  qed
  also have "\<dots> = filter (\<lambda>e. ce_Sequence ?l < ce_Sequence e) (take k P) @ filter (\<lambda>e. ce_Sequence ?l < ce_Sequence e) (drop k P)"
    by (metis append_take_drop_id filter_append)
  also have "\<dots> = drop k P"
    using before after by (simp add: filter_False filter_True leD)
  finally show ?thesis .
qed

lemma pending_read:
  assumes "clr_inv clr"
  shows "clr_GetCurrentSequence clr \<le> clr_replicatedSeq clr \<Longrightarrow> pending clr = []"
    and "\<not> clr_GetCurrentSequence clr \<le> clr_replicatedSeq clr \<Longrightarrow>
      cl_ReadFrom (clr_replicatedSeq clr + 1) limit (clr_commandLog clr) = take limit (pending clr)"
proof -
  obtain old cur where inv: "log_inv old cur (clr_commandLog clr)"
    using assms by (auto simp: clr_inv_def)
  show "pending clr = []" if "clr_GetCurrentSequence clr \<le> clr_replicatedSeq clr"
  proof -
    have "\<not> clr_replicatedSeq clr < ce_Sequence e" if "e \<in> set (disk_entries (log_files (cl_files (clr_commandLog clr))))" for e
      using disk_entries_props(2) [OF inv] that \<open>clr_GetCurrentSequence clr \<le> clr_replicatedSeq clr\<close>
      by (fastforce simp: clr_GetCurrentSequence_def GetCurrentSequence_def)
    then show ?thesis
      by (simp add: pending_def filter_empty_conv)
  qed
  show "cl_ReadFrom (clr_replicatedSeq clr + 1) limit (clr_commandLog clr) = take limit (pending clr)"
    if "\<not> clr_GetCurrentSequence clr \<le> clr_replicatedSeq clr"
  proof -
    have "clr_replicatedSeq clr \<noteq> -1"
      using that by auto
    then have "clr_replicatedSeq clr + 1 \<le> w \<longleftrightarrow> clr_replicatedSeq clr < w" for w
      by (simp add: word_le_nat_alt word_less_nat_alt unat_add_1 Suc_le_eq)
    then show ?thesis
      by (simp add: ReadFrom_eq [OF inv] pending_def)
  qed
qed

lemma sync_idle:
  assumes "clr_inv clr" and "pending clr = []"
  shows "\<exists>c. clr_syncToReplica None rpc clr r = (clr\<lparr>clr_connected := c\<rparr>, r)"
proof (cases "clr_GetCurrentSequence clr \<le> clr_replicatedSeq clr")
  case True
  then have "clr_syncToReplica None rpc clr r = (clr\<lparr>clr_connected := clr_connected clr\<rparr>, r)"
    by (simp add: clr_syncToReplica_def GetReplicatedSequence_def)
  then show ?thesis ..
next
  case False
  then have "clr_syncToReplica None rpc clr r = (clr\<lparr>clr_connected := True\<rparr>, r)"
    using pending_read(2) [OF assms(1) False] assms(2)
    by (auto simp: clr_syncToReplica_def GetReplicatedSequence_def connectToReplica_def Let_def)
  then show ?thesis ..
qed

lemma sync_round:
  assumes inv: "clr_inv clr" and rpc: "reachable_rpc rpc" and ne: "pending clr \<noteq> []"
  shows "clr_syncToReplica None rpc clr r =
     (let b = take CLBatchSize (pending clr); lastSeq = ce_Sequence (last b)
      in (clr\<lparr>clr_connected := True, clr_replicatedSeq := lastSeq, clr_checkpoint := Some (FormatUint lastSeq)\<rparr>,
          fst (rpc r (batch_request clr b))))"
proof -
  have new: "\<not> clr_GetCurrentSequence clr \<le> clr_replicatedSeq clr"
    using pending_read(1) [OF inv] ne by blast
  have conn: "connectToReplica None clr = (clr\<lparr>clr_connected := True\<rparr>, None)"
    by (simp add: connectToReplica_def)
  have read: "cl_ReadFrom (clr_replicatedSeq clr + 1) CLBatchSize (clr_commandLog clr) = take CLBatchSize (pending clr)"
    by (rule pending_read(2) [OF inv new])
  have b: "take CLBatchSize (pending clr) \<noteq> []"
    using ne by (simp add: CLBatchSize_def)
  have fault: "cl_fault (clr_commandLog clr) = None"
    using inv by (auto simp: clr_inv_def log_inv_def healthy_def)
  obtain resp where "snd (rpc r (batch_request clr (take CLBatchSize (pending clr)))) = Inr resp"
    using rpc by (auto simp: reachable_rpc_def)
  then have "clr_sendBatch rpc (clr\<lparr>clr_connected := True\<rparr>) (take CLBatchSize (pending clr)) r =
      (fst (rpc r (batch_request clr (take CLBatchSize (pending clr)))), None)"
    by (auto simp: clr_sendBatch_def batch_request_def Let_def split: prod.splits)
  with new conn read b fault show ?thesis
    by (simp add: clr_syncToReplica_def GetReplicatedSequence_def saveCheckpoint_def Let_def)
qed

lemma pending_round:
  assumes inv: "clr_inv clr" and ne: "pending clr \<noteq> []"
  shows "pending (clr\<lparr>clr_connected := c, clr_replicatedSeq := ce_Sequence (last (take CLBatchSize (pending clr))),
     clr_checkpoint := ck\<rparr>) = drop CLBatchSize (pending clr)"
proof -
  obtain old cur where "log_inv old cur (clr_commandLog clr)"
    using inv by (auto simp: clr_inv_def)
  from filter_after [OF disk_entries_props(1) [OF this], of "pending clr" "clr_replicatedSeq clr" CLBatchSize] ne
  show ?thesis
    by (simp add: pending_def CLBatchSize_def)
qed

text \<open>Several rounds of the replication loop, and the batches of a list of entries.\<close>

fun sync_rounds ::
    "('r \<Rightarrow> ReplicateRequest \<Rightarrow> 'r \<times> (err + ReplicateResponse)) \<Rightarrow> nat \<Rightarrow>
     CommandLogReplicator \<times> 'r \<Rightarrow> CommandLogReplicator \<times> 'r" where
  "sync_rounds rpc 0 st = st"
| "sync_rounds rpc (Suc n) st = sync_rounds rpc n (clr_syncToReplica None rpc (fst st) (snd st))"

function batches :: "CommandEntry list \<Rightarrow> CommandEntry list list" where
  "batches es = (if es = [] then [] else take CLBatchSize es # batches (drop CLBatchSize es))"
  by auto
termination
  by (relation "measure length") (auto simp: CLBatchSize_def)

declare batches.simps [simp del]

definition deliver ::
    "('r \<Rightarrow> ReplicateRequest \<Rightarrow> 'r \<times> (err + ReplicateResponse)) \<Rightarrow> CommandLogReplicator \<Rightarrow> CommandEntry list \<Rightarrow> 'r \<Rightarrow> 'r" where
  "deliver rpc clr es r = fold (\<lambda>b r. fst (rpc r (batch_request clr b))) (batches es) r"

lemma concat_batches: "concat (batches es) = es"
  by (induction es rule: batches.induct) (subst batches.simps, simp)

lemma deliver_cong:
  "clr_partitionID clr = clr_partitionID clr' \<Longrightarrow> deliver rpc clr es r = deliver rpc clr' es r"
  by (simp add: deliver_def batch_request_def)

lemma sync_rounds_idle:
  "clr_inv clr \<Longrightarrow> pending clr = [] \<Longrightarrow>
   \<exists>c. sync_rounds rpc n (clr, r) = (clr\<lparr>clr_connected := c\<rparr>, r)"
proof (induction n arbitrary: clr)
  case 0
  show ?case
    by (intro exI [of _ "clr_connected clr"]) simp
next
  case (Suc n)
  obtain c where c: "clr_syncToReplica None rpc clr r = (clr\<lparr>clr_connected := c\<rparr>, r)"
    using sync_idle [OF Suc.prems, of rpc r] by blast
  have "clr_inv (clr\<lparr>clr_connected := c\<rparr>)" "pending (clr\<lparr>clr_connected := c\<rparr>) = []"
    using Suc.prems by (simp_all add: clr_inv_def pending_def)
  from Suc.IH [OF this] show ?case
    using c by auto
qed

lemma sync_rounds_drain:
  assumes "clr_inv clr" and rpc: "reachable_rpc rpc" and "length (pending clr) \<le> n * CLBatchSize"
  shows "\<exists>clr'. sync_rounds rpc n (clr, r) = (clr', deliver rpc clr (pending clr) r) \<and> pending clr' = [] \<and>
     clr_commandLog clr' = clr_commandLog clr \<and>
     clr_replicatedSeq clr' = (if pending clr = [] then clr_replicatedSeq clr else ce_Sequence (last (pending clr))) \<and>
     clr_checkpoint clr' = (if pending clr = [] then clr_checkpoint clr else Some (FormatUint (ce_Sequence (last (pending clr)))))"
  using assms(1,3)
proof (induction n arbitrary: clr r)
  case 0
  then show ?case
    by (simp add: deliver_def batches.simps)
next
  case (Suc n)
  show ?case
  proof (cases "pending clr = []")
    case True
    obtain c where "sync_rounds rpc (Suc n) (clr, r) = (clr\<lparr>clr_connected := c\<rparr>, r)"
      using sync_rounds_idle [OF Suc.prems(1) True, of rpc "Suc n" r] by blast
    then show ?thesis
      using True by (simp add: deliver_def batches.simps pending_def)
  next
    case False
    let ?b = "take CLBatchSize (pending clr)"
    define clr1 where "clr1 = clr\<lparr>clr_connected := True, clr_replicatedSeq := ce_Sequence (last ?b),
        clr_checkpoint := Some (FormatUint (ce_Sequence (last ?b)))\<rparr>"
    have step: "clr_syncToReplica None rpc clr r = (clr1, fst (rpc r (batch_request clr ?b)))"
      using sync_round [OF Suc.prems(1) rpc False, of r] by (simp add: Let_def clr1_def)
    have pend: "pending clr1 = drop CLBatchSize (pending clr)"
      using pending_round [OF Suc.prems(1) False] by (simp add: clr1_def)
    have "clr_inv clr1" "length (pending clr1) \<le> n * CLBatchSize"
      using Suc.prems pend by (simp_all add: clr_inv_def clr1_def)
    from Suc.IH [OF this, of "fst (rpc r (batch_request clr ?b))"] obtain clr' where IH:
      "sync_rounds rpc n (clr1, fst (rpc r (batch_request clr ?b))) =
         (clr', deliver rpc clr1 (pending clr1) (fst (rpc r (batch_request clr ?b))))"
      "pending clr' = []" "clr_commandLog clr' = clr_commandLog clr1"
      "clr_replicatedSeq clr' = (if pending clr1 = [] then clr_replicatedSeq clr1 else ce_Sequence (last (pending clr1))) \<and>
     clr_checkpoint clr' = (if pending clr1 = [] then clr_checkpoint clr1 else Some (FormatUint (ce_Sequence (last (pending clr1)))))"
      by blast
    have "deliver rpc clr1 (pending clr1) (fst (rpc r (batch_request clr ?b))) = deliver rpc clr (pending clr) r"
      using False deliver_cong [of clr1 clr rpc] unfolding pend
      by (simp add: clr1_def deliver_def batches.simps [of "pending clr"])
    moreover have "(if pending clr1 = [] then ce_Sequence (last ?b) else ce_Sequence (last (pending clr1))) = ce_Sequence (last (pending clr))"
      by (simp add: pend last_drop)
    ultimately show ?thesis
      using IH step False by (auto simp: clr1_def split: if_splits)
  qed
qed

section \<open>Properties\<close>

text \<open>C23. Replication makes progress. While the replica answers, a number of rounds of the loop
  that covers the entries on disk sends all of them, each once, in the order of the log and in
  batches of at most 500; nothing is left to send, the replicated sequence is that of the last
  entry, and the checkpoint file says so.\<close>

theorem replication_drains:
  assumes "clr_inv clr" and "reachable_rpc rpc" and "length (pending clr) \<le> n * CLBatchSize"
  shows "\<exists>clr'. sync_rounds rpc n (clr, r) =
       (clr', fold (\<lambda>b r. fst (rpc r (batch_request clr b))) (batches (pending clr)) r) \<and>
     concat (batches (pending clr)) = pending clr \<and> pending clr' = [] \<and>
     clr_commandLog clr' = clr_commandLog clr \<and>
     (pending clr \<noteq> [] \<longrightarrow> clr_replicatedSeq clr' = ce_Sequence (last (pending clr)) \<and>
        loadCheckpoint (clr_checkpoint clr') = clr_replicatedSeq clr')"
  using sync_rounds_drain [OF assms, of r] by (auto simp: deliver_def concat_batches loadCheckpoint_def)

definition example_clr :: "CommandLogReplicator" where
  "example_clr = \<lparr>clr_partitionID = 7, clr_replicaAddr = ''n2'', clr_isPrimary = True,
     clr_commandLog = fst (cl_Sync (fst (cl_Append 5 6 CmdTypePut [1] [2] (empty_log 7 3)))),
     clr_checkpoint = None, clr_replicatedSeq = 0, clr_connected = False, clr_running = True\<rparr>"

definition log_rpc :: "ReplicateRequest list \<Rightarrow> ReplicateRequest \<Rightarrow> ReplicateRequest list \<times> (err + ReplicateResponse)" where
  "log_rpc r rq = (r @ [rq], Inr \<lparr>rr_success = True, rr_last_applied_offset = rq_commit_offset rq, rr_error_message = NoMessage\<rparr>)"

lemma example_clr:
  "clr_inv example_clr" "pending example_clr = [log_entry 5 1 CmdTypePut [1] [2]]"
  "disk_entries (log_files (cl_files (clr_commandLog example_clr))) = [log_entry 5 1 CmdTypePut [1] [2]]"
proof -
  obtain cl old cur where a: "cl_Append 5 6 CmdTypePut [1] [2] (empty_log 7 3) = (cl, Inr 1)" "log_inv old cur cl"
    "log_entries old cur = log_entries [] [] @ [log_entry 5 1 CmdTypePut [1] [2]]"
    using Append_inv [OF empty_log(2) [of 7 3], of "[1]" "[2]" 6 5 CmdTypePut] empty_log(3-5) [of 7 3] by auto
  obtain cl' where s: "cl_Sync cl = (cl', None)" "log_inv old cur cl'"
    "cl_files cl' = old_bytes old @ [(cl_currentFile cl', enc_all cur)]"
    using Sync_inv [OF a(2)] by auto
  have c: "clr_commandLog example_clr = cl'" "clr_replicatedSeq example_clr = 0"
    using a(1) s(1) by (simp_all add: example_clr_def)
  show "clr_inv example_clr"
    using s(2) by (auto simp: clr_inv_def c)
  show disk: "disk_entries (log_files (cl_files (clr_commandLog example_clr))) = [log_entry 5 1 CmdTypePut [1] [2]]"
    using disk_entries_synced [OF s(2,3)] a(3) by (simp add: c log_entries_def)
  show "pending example_clr = [log_entry 5 1 CmdTypePut [1] [2]]"
    unfolding pending_def disk by (simp add: c log_entry_def Let_def)
qed

theorem replication_drains_witness:
  "\<exists>clr'. sync_rounds log_rpc 1 (example_clr, []) = (clr', [batch_request example_clr [log_entry 5 1 CmdTypePut [1] [2]]]) \<and>
     clr_replicatedSeq clr' = 1"
proof -
  have "reachable_rpc log_rpc"
    by (simp add: reachable_rpc_def log_rpc_def)
  moreover have "batches [log_entry 5 1 CmdTypePut [1] [2]] = [[log_entry 5 1 CmdTypePut [1] [2]]]"
    by (simp add: batches.simps CLBatchSize_def)
  ultimately show ?thesis
    using replication_drains [OF example_clr(1), of log_rpc 1 "[]"]
    by (auto simp: example_clr(2) CLBatchSize_def log_rpc_def log_entry_def Let_def)
qed

text \<open>A replica that refuses every batch (\<open>Success\<close> false, nothing applied) is treated like
  one that applied it: \<open>sendBatch\<close> looks only at the transport error, so the replicated sequence
  and the checkpoint move past entries the replica does not hold, and they are never sent again.\<close>

theorem refused_batches_are_skipped:
  assumes "clr_inv clr" and "\<forall>r rq. \<exists>resp. rpc r rq = (r, Inr resp) \<and> \<not> rr_success resp"
    and "length (pending clr) \<le> n * CLBatchSize"
  shows "\<exists>clr'. sync_rounds rpc n (clr, r) = (clr', r) \<and> pending clr' = [] \<and>
     (pending clr \<noteq> [] \<longrightarrow> loadCheckpoint (clr_checkpoint clr') = ce_Sequence (last (pending clr)))"
proof -
  have fst: "fst (rpc r rq) = r" for r rq
    using assms(2) by (metis fst_conv)
  have "reachable_rpc rpc"
    using assms(2) by (metis reachable_rpc_def snd_conv)
  from sync_rounds_drain [OF assms(1) this assms(3), of r] show ?thesis
    by (auto simp: deliver_def fst fold_id [of _ "\<lambda>_. id", unfolded id_def] loadCheckpoint_def)
qed

definition refuse_rpc :: "ReplicateRequest list \<Rightarrow> ReplicateRequest \<Rightarrow> ReplicateRequest list \<times> (err + ReplicateResponse)" where
  "refuse_rpc r rq = (r, Inr \<lparr>rr_success = False, rr_last_applied_offset = 0, rr_error_message = Message ''partition not found''\<rparr>)"

theorem refused_batches_are_skipped_witness:
  "\<exists>clr'. sync_rounds refuse_rpc 1 (example_clr, []) = (clr', []) \<and> pending clr' = [] \<and>
     loadCheckpoint (clr_checkpoint clr') = 1"
  using refused_batches_are_skipped [OF example_clr(1), of refuse_rpc 1 "[]"]
  by (simp add: example_clr(2) CLBatchSize_def refuse_rpc_def log_entry_def Let_def)

end
