(* ===== verification/Storage_Server.thy ===== *)
theory Storage_Server
  imports Field_Storage Partitions Replicator
begin

text \<open>
  The storage server, \<open>src/pkg/storage/server.go\<close>: the lease of the node, the handlers of the
  storage service, the receiving side of replication, the replicators of the partitions and the
  update from a route subscription.

  The server's database is the one of its partition manager. The clock readings of a write (the
  time stamp of a log entry and the number of a log file opened by it) are arguments. Metrics
  and logging are not represented.
\<close>

section \<open>State\<close>

text \<open>\<open>srv_logdirs\<close> is the command-log directory on disk, for the partitions without an open log.\<close>

record 'db Server =
  srv_pm :: "'db PartitionManager"
  srv_etcdClient :: bool
  srv_nodeLease :: u64
  srv_nodeLeaseLost :: bool
  srv_monitoring :: bool
  srv_replicators :: "(u32 \<times> CommandLogReplicator) list"
  srv_logdirs :: "u32 \<Rightarrow> logdir"

abbreviation srv_db :: "'db Server \<Rightarrow> 'db" where
  "srv_db s \<equiv> pm_db (srv_pm s)"

definition set_db :: "'db \<Rightarrow> 'db Server \<Rightarrow> 'db Server" where
  "set_db db s = s\<lparr>srv_pm := (srv_pm s)\<lparr>pm_db := db\<rparr>\<rparr>"

record ServerConfig =
  cfg_NodeID :: NodeID
  cfg_ListenAddr :: string
  cfg_MetadataAddr :: string
  cfg_EtcdEndpoints :: "string list"
  cfg_SSTDir :: string
  cfg_CommandLogDir :: string

definition DefaultServerConfig :: ServerConfig where
  "DefaultServerConfig =
     \<lparr>cfg_NodeID = ''storage-1'', cfg_ListenAddr = '':9001'', cfg_MetadataAddr = ''localhost:9000'',
      cfg_EtcdEndpoints = [''localhost:2379''], cfg_SSTDir = ''/tmp/rockskv/sst'',
      cfg_CommandLogDir = ''/tmp/rockskv/cmdlog''\<rparr>"

section \<open>The node lease\<close>

text \<open>
  The outcomes of the calls to etcd, the file system and RocksDB during start-up.
\<close>

record 'db startup =
  st_OpenDB :: "err + 'db"
  st_MkdirSST :: "err option"
  st_MkdirLog :: "err option"
  st_EtcdNew :: "err option"
  st_EtcdStatus :: "err option"
  st_Grant :: "err + u64"
  st_KeepAlive :: "err option"

definition acquireNodeLease :: "'db startup \<Rightarrow> 'db Server \<Rightarrow> 'db Server \<times> err option" where
  "acquireNodeLease env s =
     (if \<not> srv_etcdClient s then (s, Some (ErrRemote ''etcd client not initialized''))
      else
        case st_Grant env of
          Inl e \<Rightarrow> (s, Some e)
        | Inr lease \<Rightarrow>
            (case st_KeepAlive env of
               Some e \<Rightarrow> (s, Some e)
             | None \<Rightarrow>
                 (s\<lparr>srv_nodeLease := lease, srv_nodeLeaseLost := False, srv_monitoring := True\<rparr>, None)))"

definition NewServer ::
    "ServerConfig option \<Rightarrow> 'db startup \<Rightarrow> (string \<Rightarrow> int) \<Rightarrow> (u32 \<Rightarrow> logdir) \<Rightarrow> err + 'db Server" where
  "NewServer config env gauge dirs =
     (let config = (case config of None \<Rightarrow> DefaultServerConfig | Some c \<Rightarrow> c) in
      case st_OpenDB env of Inl e \<Rightarrow> Inl e | Inr db \<Rightarrow>
        let partitionManager = NewPartitionManager (cfg_NodeID config) db gauge in
        case st_MkdirSST env of Some e \<Rightarrow> Inl e | None \<Rightarrow>
        (case st_MkdirLog env of Some e \<Rightarrow> Inl e | None \<Rightarrow>
         if cfg_EtcdEndpoints config = []
         then Inl (ErrRemote ''etcd endpoints required for node-level lease management'')
         else
           (case st_EtcdNew env of Some e \<Rightarrow> Inl e | None \<Rightarrow>
            (case st_EtcdStatus env of Some e \<Rightarrow> Inl e | None \<Rightarrow>
             let server = \<lparr>srv_pm = partitionManager, srv_etcdClient = True, srv_nodeLease = 0,
                           srv_nodeLeaseLost = False, srv_monitoring = False, srv_replicators = [],
                           srv_logdirs = dirs\<rparr>
             in case acquireNodeLease env server of
                  (_, Some e) \<Rightarrow> Inl e
                | (server, None) \<Rightarrow> Inr server))))"

text \<open>
  One pass of the loop that watches the lease: the context is cancelled, the channel of
  keep-alive responses is closed, or it delivers a response, \<open>nil\<close> or not.
\<close>

datatype lease_event = LeaseCtxDone | KeepaliveClosed | KeepaliveNil | KeepaliveRenewed

definition monitorNodeLease :: "lease_event \<Rightarrow> 'db Server \<Rightarrow> 'db Server" where
  "monitorNodeLease ev s =
     (if \<not> srv_monitoring s then s
      else case ev of
             LeaseCtxDone \<Rightarrow> s\<lparr>srv_monitoring := False\<rparr>
           | KeepaliveClosed \<Rightarrow> s\<lparr>srv_nodeLeaseLost := True, srv_monitoring := False\<rparr>
           | KeepaliveNil \<Rightarrow> s\<lparr>srv_nodeLeaseLost := True, srv_monitoring := False\<rparr>
           | KeepaliveRenewed \<Rightarrow> s)"

definition releaseAllLeases :: "'db Server \<Rightarrow> 'db Server" where
  "releaseAllLeases s = s\<lparr>srv_nodeLease := 0, srv_nodeLeaseLost := True\<rparr>"

definition canWrite :: "'db Server \<Rightarrow> bool" where
  "canWrite s \<longleftrightarrow> srv_etcdClient s \<and> \<not> srv_nodeLeaseLost s \<and> srv_nodeLease s \<noteq> 0"

section \<open>Logging writes for replication\<close>

definition enqueueReplication ::
    "nat \<Rightarrow> nat \<Rightarrow> u32 \<Rightarrow> bytes \<Rightarrow> bytes \<Rightarrow> bool \<Rightarrow> 'db Server \<Rightarrow> 'db Server" where
  "enqueueReplication ts now partitionID key val isDelete s =
     (case map_of (srv_replicators s) partitionID of
        None \<Rightarrow> s
      | Some replicator \<Rightarrow>
          let (replicator', _) = (if isDelete then clr_AppendDelete ts now key replicator
                                  else clr_AppendPut ts now key val replicator)
          in s\<lparr>srv_replicators := AList.update partitionID replicator' (srv_replicators s)\<rparr>)"

definition enqueueFieldBatchReplication ::
    "nat \<Rightarrow> nat \<Rightarrow> u32 \<Rightarrow> bytes \<Rightarrow> 'db Server \<Rightarrow> 'db Server" where
  "enqueueFieldBatchReplication ts now partitionID batchData s =
     (case map_of (srv_replicators s) partitionID of
        None \<Rightarrow> s
      | Some replicator \<Rightarrow>
          let (replicator', _) = clr_AppendFieldBatch ts now batchData replicator
          in s\<lparr>srv_replicators := AList.update partitionID replicator' (srv_replicators s)\<rparr>)"

section \<open>Read handlers\<close>

definition srv_Get :: "('db, 'x) engine_scheme \<Rightarrow> StorageGetRequest \<Rightarrow> 'db Server \<Rightarrow> StorageGetResponse" where
  "srv_Get eng req s =
     (if \<not> HasPartition (srv_pm s) (sgq_partition_id req)
      then \<lparr>sgr_value = [], sgr_found = False, sgr_error = PARTITION_NOT_FOUND\<rparr>
      else
        case pm_Get eng (srv_pm s) (sgq_key req) (sgq_partition_id req) of
          Inl _ \<Rightarrow> \<lparr>sgr_value = [], sgr_found = False, sgr_error = INTERNAL_ERROR\<rparr>
        | Inr None \<Rightarrow> \<lparr>sgr_value = [], sgr_found = False, sgr_error = OK\<rparr>
        | Inr (Some val) \<Rightarrow> \<lparr>sgr_value = val, sgr_found = True, sgr_error = OK\<rparr>)"

definition srv_GetField ::
    "('db, 'x) engine_scheme \<Rightarrow> StorageGetFieldRequest \<Rightarrow> 'db Server \<Rightarrow> StorageGetResponse" where
  "srv_GetField eng req s =
     (if \<not> HasPartition (srv_pm s) (sgf_partition_id req)
      then \<lparr>sgr_value = [], sgr_found = False, sgr_error = PARTITION_NOT_FOUND\<rparr>
      else
        case GetField eng (srv_db s) (sgf_partition_id req) (sgf_primary_key req) (sgf_field_name req) of
          Inl _ \<Rightarrow> \<lparr>sgr_value = [], sgr_found = False, sgr_error = INTERNAL_ERROR\<rparr>
        | Inr None \<Rightarrow> \<lparr>sgr_value = [], sgr_found = False, sgr_error = OK\<rparr>
        | Inr (Some val) \<Rightarrow> \<lparr>sgr_value = val, sgr_found = True, sgr_error = OK\<rparr>)"

text \<open>A panic inside the scan is a panic of the handler, not a response.\<close>

definition srv_GetAllFields ::
    "('db, 'x) engine_scheme \<Rightarrow> StorageGetAllFieldsRequest \<Rightarrow> 'db Server \<Rightarrow> err + StorageGetAllFieldsResponse" where
  "srv_GetAllFields eng req s =
     (if \<not> HasPartition (srv_pm s) (saf_partition_id req)
      then Inr \<lparr>sga_fields = [], sga_found = False, sga_error = PARTITION_NOT_FOUND\<rparr>
      else
        case GetAllFields eng (srv_db s) (saf_partition_id req) (saf_primary_key req) of
          Inl e \<Rightarrow> if e = GoPanic then Inl GoPanic
                    else Inr \<lparr>sga_fields = [], sga_found = False, sga_error = INTERNAL_ERROR\<rparr>
        | Inr fieldMap \<Rightarrow>
            if fieldMap = [] then Inr \<lparr>sga_fields = [], sga_found = False, sga_error = OK\<rparr>
            else Inr \<lparr>sga_fields = fieldMap, sga_found = True, sga_error = OK\<rparr>)"

section \<open>Write handlers\<close>

text \<open>
  The four checks with which every write handler opens: node lease, partition, role, epoch.
\<close>

definition write_checks :: "'db Server \<Rightarrow> u32 \<Rightarrow> u64 \<Rightarrow> ErrorCode option" where
  "write_checks s partitionID epoch =
     (if \<not> canWrite s then Some INTERNAL_ERROR
      else if \<not> HasPartition (srv_pm s) partitionID then Some PARTITION_NOT_FOUND
      else if \<not> IsPrimary (srv_pm s) partitionID then Some NOT_PRIMARY
      else if ValidateEpoch (srv_pm s) partitionID epoch \<noteq> None then Some EPOCH_FENCED
      else None)"

definition srv_Put ::
    "('db, 'x) engine_scheme \<Rightarrow> nat \<Rightarrow> nat \<Rightarrow> StoragePutRequest \<Rightarrow> 'db Server \<Rightarrow>
     'db Server \<times> StorageWriteResponse" where
  "srv_Put eng ts now req s =
     (case write_checks s (spq_partition_id req) (spq_epoch req) of
        Some code \<Rightarrow> (s, \<lparr>swr_success = False, swr_error = code\<rparr>)
      | None \<Rightarrow>
          (case pm_Put eng (spq_key req) (spq_value req) (spq_partition_id req) (srv_pm s) of
             (pm, Some _) \<Rightarrow> (s\<lparr>srv_pm := pm\<rparr>, \<lparr>swr_success = False, swr_error = INTERNAL_ERROR\<rparr>)
           | (pm, None) \<Rightarrow>
               (enqueueReplication ts now (spq_partition_id req) (spq_key req) (spq_value req) False
                  (s\<lparr>srv_pm := pm\<rparr>),
                \<lparr>swr_success = True, swr_error = OK\<rparr>)))"

definition srv_Delete ::
    "('db, 'x) engine_scheme \<Rightarrow> nat \<Rightarrow> nat \<Rightarrow> StorageDeleteRequest \<Rightarrow> 'db Server \<Rightarrow>
     'db Server \<times> StorageWriteResponse" where
  "srv_Delete eng ts now req s =
     (case write_checks s (sdq_partition_id req) (sdq_epoch req) of
        Some code \<Rightarrow> (s, \<lparr>swr_success = False, swr_error = code\<rparr>)
      | None \<Rightarrow>
          (case pm_Delete eng (sdq_key req) (sdq_partition_id req) (srv_pm s) of
             (pm, Some _) \<Rightarrow> (s\<lparr>srv_pm := pm\<rparr>, \<lparr>swr_success = False, swr_error = INTERNAL_ERROR\<rparr>)
           | (pm, None) \<Rightarrow>
               (enqueueReplication ts now (sdq_partition_id req) (sdq_key req) [] True (s\<lparr>srv_pm := pm\<rparr>),
                \<lparr>swr_success = True, swr_error = OK\<rparr>)))"

definition to_FieldUpdate :: "FieldValue \<Rightarrow> FieldUpdate" where
  "to_FieldUpdate fv =
     \<lparr>fu_FieldName = fv_field_name fv, fu_Value = fv_value fv, fu_IsDelete = fv_is_delete fv\<rparr>"

definition srv_SetFields ::
    "('db, 'x) engine_scheme \<Rightarrow> nat \<Rightarrow> nat \<Rightarrow> StorageSetFieldsRequest \<Rightarrow> 'db Server \<Rightarrow>
     'db Server \<times> StorageWriteResponse" where
  "srv_SetFields eng ts now req s =
     (case write_checks s (ssf_partition_id req) (ssf_epoch req) of
        Some code \<Rightarrow> (s, \<lparr>swr_success = False, swr_error = code\<rparr>)
      | None \<Rightarrow>
          let fb = \<lparr>fb_PartitionID = ssf_partition_id req, fb_PrimaryKey = ssf_primary_key req,
                    fb_Updates = map to_FieldUpdate (ssf_fields req)\<rparr>
          in case ApplyFieldBatch eng (srv_db s) (ssf_partition_id req) fb of
               (db, Some _) \<Rightarrow> (set_db db s, \<lparr>swr_success = False, swr_error = INTERNAL_ERROR\<rparr>)
             | (db, None) \<Rightarrow>
                 (enqueueFieldBatchReplication ts now (ssf_partition_id req) (FieldBatch_Encode fb) (set_db db s),
                  \<lparr>swr_success = True, swr_error = OK\<rparr>))"

definition srv_DeleteField ::
    "('db, 'x) engine_scheme \<Rightarrow> nat \<Rightarrow> nat \<Rightarrow> StorageDeleteFieldRequest \<Rightarrow> 'db Server \<Rightarrow>
     'db Server \<times> StorageWriteResponse" where
  "srv_DeleteField eng ts now req s =
     (case write_checks s (sdf_partition_id req) (sdf_epoch req) of
        Some code \<Rightarrow> (s, \<lparr>swr_success = False, swr_error = code\<rparr>)
      | None \<Rightarrow>
          (case DeleteField eng (srv_db s) (sdf_partition_id req) (sdf_primary_key req) (sdf_field_name req) of
             (db, Some _) \<Rightarrow> (set_db db s, \<lparr>swr_success = False, swr_error = INTERNAL_ERROR\<rparr>)
           | (db, None) \<Rightarrow>
               let fb = \<lparr>fb_PartitionID = sdf_partition_id req, fb_PrimaryKey = sdf_primary_key req,
                         fb_Updates = [\<lparr>fu_FieldName = sdf_field_name req, fu_Value = [], fu_IsDelete = True\<rparr>]\<rparr>
               in (enqueueFieldBatchReplication ts now (sdf_partition_id req) (FieldBatch_Encode fb) (set_db db s),
                   \<lparr>swr_success = True, swr_error = OK\<rparr>)))"

text \<open>The items of a batch are logged one by one; \<open>clock i\<close> are the readings for item \<open>i\<close>.\<close>

fun enqueue_items ::
    "(nat \<Rightarrow> nat \<times> nat) \<Rightarrow> u32 \<Rightarrow> nat \<Rightarrow> pb_KeyValue list \<Rightarrow> 'db Server \<Rightarrow> 'db Server" where
  "enqueue_items clock partitionID i [] s = s"
| "enqueue_items clock partitionID i (item # items) s =
     enqueue_items clock partitionID (Suc i) items
       (enqueueReplication (fst (clock i)) (snd (clock i)) partitionID (pkv_key item) (pkv_value item) False s)"

definition srv_BatchPut ::
    "('db, 'x) engine_scheme \<Rightarrow> (nat \<Rightarrow> nat \<times> nat) \<Rightarrow> StorageBatchPutRequest \<Rightarrow> 'db Server \<Rightarrow>
     'db Server \<times> StorageBatchPutResponse" where
  "srv_BatchPut eng clock req s =
     (case write_checks s (sbq_partition_id req) (sbq_epoch req) of
        Some code \<Rightarrow> (s, \<lparr>sbp_success = False, sbp_count = 0, sbp_error = code\<rparr>)
      | None \<Rightarrow>
          let items = map (\<lambda>item. \<lparr>kv_Key = pkv_key item, kv_Value = pkv_value item\<rparr>) (sbq_items req)
          in case pm_BatchPut eng items (sbq_partition_id req) (srv_pm s) of
               (pm, Some _) \<Rightarrow> (s\<lparr>srv_pm := pm\<rparr>, \<lparr>sbp_success = False, sbp_count = 0, sbp_error = INTERNAL_ERROR\<rparr>)
             | (pm, None) \<Rightarrow>
                 (enqueue_items clock (sbq_partition_id req) 0 (sbq_items req) (s\<lparr>srv_pm := pm\<rparr>),
                  \<lparr>sbp_success = True, sbp_count = of_nat (length items), sbp_error = OK\<rparr>))"

section \<open>Receiving replication\<close>

definition apply_replicated ::
    "('db, 'x) engine_scheme \<Rightarrow> u32 \<Rightarrow> ReplicationEntry \<Rightarrow> 'db Server \<Rightarrow> 'db Server \<times> err option" where
  "apply_replicated eng reqID entry s =
     (let put = (let (pm, e) = pm_Put eng (re_key entry) (re_value entry) reqID (srv_pm s) in (s\<lparr>srv_pm := pm\<rparr>, e));
          del = (let (pm, e) = pm_Delete eng (re_key entry) reqID (srv_pm s) in (s\<lparr>srv_pm := pm\<rparr>, e))
      in case re_op_type entry of
           REP_OP_DELETE \<Rightarrow> del
         | REP_OP_FIELD_BATCH \<Rightarrow>
             (case DecodeFieldBatch (re_value entry) of
                Inl e \<Rightarrow> (s, Some e)
              | Inr fb \<Rightarrow>
                  let partitionID = (if fb_PartitionID fb = 0 then reqID else fb_PartitionID fb);
                      (db, e) = ApplyFieldBatch eng (srv_db s) partitionID fb
                  in (set_db db s, e))
         | REP_OP_PUT \<Rightarrow> put
         | REP_OP_unrecognized _ \<Rightarrow> if re_is_delete entry then del else put)"

fun replicate_entries ::
    "('db, 'x) engine_scheme \<Rightarrow> u32 \<Rightarrow> ReplicationEntry list \<Rightarrow> u64 \<Rightarrow> 'db Server \<Rightarrow>
     'db Server \<times> ReplicateResponse" where
  "replicate_entries eng reqID [] lastApplied s =
     (s, \<lparr>rr_success = True, rr_last_applied_offset = lastApplied, rr_error_message = NoMessage\<rparr>)"
| "replicate_entries eng reqID (entry # es) lastApplied s =
     (case apply_replicated eng reqID entry s of
        (s, Some e) \<Rightarrow>
          (s, \<lparr>rr_success = False, rr_last_applied_offset = lastApplied, rr_error_message = ErrorText e\<rparr>)
      | (s, None) \<Rightarrow> replicate_entries eng reqID es (re_offset entry) s)"

definition Replicate ::
    "('db, 'x) engine_scheme \<Rightarrow> ReplicateRequest \<Rightarrow> 'db Server \<Rightarrow> 'db Server \<times> ReplicateResponse" where
  "Replicate eng req s =
     (if \<not> HasPartition (srv_pm s) (rq_partition_id req)
      then (s, \<lparr>rr_success = False, rr_last_applied_offset = 0, rr_error_message = Message ''partition not found''\<rparr>)
      else replicate_entries eng (rq_partition_id req) (rq_entries req) 0 s)"

definition GetReplicationStatus :: "u32 \<Rightarrow> 'db Server \<Rightarrow> GetReplicationStatusResponse" where
  "GetReplicationStatus partitionID s =
     (case map_of (srv_replicators s) partitionID of
        None \<Rightarrow> \<lparr>grs_partition_id = partitionID, grs_is_primary = False, grs_current_offset = 0,
                  grs_committed_offset = 0, grs_replication_lag = 0, grs_replica_addr = []\<rparr>
      | Some replicator \<Rightarrow>
          \<lparr>grs_partition_id = partitionID, grs_is_primary = clr_isPrimary replicator,
           grs_current_offset = clr_GetCurrentSequence replicator,
           grs_committed_offset = GetReplicatedSequence replicator,
           grs_replication_lag = GetReplicationLag replicator,
           grs_replica_addr = clr_replicaAddr replicator\<rparr>)"

definition RecoverPartition ::
    "('db, 'x) engine_scheme \<Rightarrow> u32 \<Rightarrow> 'db Server \<Rightarrow> 'db Server \<times> err option" where
  "RecoverPartition eng partitionID s =
     (case map_of (srv_replicators s) partitionID of
        None \<Rightarrow> (s, Some (ErrNoReplicator partitionID))
      | Some replicator \<Rightarrow>
          let ((db, lastSeq), e) = clr_ReplayTo eng (srv_db s) 0 replicator in (set_db db s, e))"

section \<open>Replicators and the route subscription\<close>

text \<open>
  What lies outside the node when a replicator is started or stopped: dialling and calling a
  replica by its address, the disk of a partition's log, and the clock when a log is opened.
\<close>

record 'r outside =
  out_dial :: "string \<Rightarrow> err option"
  out_rpc :: "string \<Rightarrow> 'r \<Rightarrow> ReplicateRequest \<Rightarrow> 'r \<times> (err + ReplicateResponse)"
  out_fault :: "u32 \<Rightarrow> (nat \<times> err) option"
  out_now :: "u32 \<Rightarrow> nat"

definition stop_one :: "'r outside \<Rightarrow> CommandLogReplicator \<Rightarrow> 'r \<Rightarrow> CommandLogReplicator \<times> 'r" where
  "stop_one out replicator r =
     clr_Stop (out_dial out (clr_replicaAddr replicator)) (out_rpc out (clr_replicaAddr replicator)) replicator r"

text \<open>A replicator that was stopped stays in the table when its successor cannot be created.\<close>

definition initializeReplicator ::
    "'r outside \<Rightarrow> u32 \<Rightarrow> bool \<Rightarrow> string \<Rightarrow> 'db Server \<Rightarrow> 'r \<Rightarrow> 'db Server \<times> 'r" where
  "initializeReplicator out partitionID isPrimary replicaAddr s r =
     (let (s, r) =
            (case map_of (srv_replicators s) partitionID of
               None \<Rightarrow> (s, r)
             | Some existing \<Rightarrow>
                 let (existing', r') = stop_one out existing r
                 in (s\<lparr>srv_replicators := AList.update partitionID existing' (srv_replicators s),
                       srv_logdirs := (srv_logdirs s)(partitionID := clr_dir existing')\<rparr>, r'))
      in case NewCommandLogReplicator partitionID isPrimary replicaAddr (srv_logdirs s partitionID)
                (out_fault out partitionID) (out_now out partitionID) of
           Inl _ \<Rightarrow> (s, r)
         | Inr replicator \<Rightarrow>
             (s\<lparr>srv_replicators := AList.update partitionID (clr_Start replicator) (srv_replicators s)\<rparr>, r))"

definition stopReplicator :: "'r outside \<Rightarrow> u32 \<Rightarrow> 'db Server \<Rightarrow> 'r \<Rightarrow> 'db Server \<times> 'r" where
  "stopReplicator out partitionID s r =
     (case map_of (srv_replicators s) partitionID of
        None \<Rightarrow> (s, r)
      | Some replicator \<Rightarrow>
          let (replicator', r') = stop_one out replicator r
          in (s\<lparr>srv_replicators := AList.delete partitionID (srv_replicators s),
                srv_logdirs := (srv_logdirs s)(partitionID := clr_dir replicator')\<rparr>, r'))"

text \<open>The two loops of \<open>updatePartitionsFromRoute\<close>.\<close>

fun subscribe_step ::
    "'r outside \<Rightarrow> string \<Rightarrow> pb_PartitionInfo \<Rightarrow> 'db Server \<times> 'r \<times> u32 list \<Rightarrow> 'db Server \<times> 'r \<times> u32 list" where
  "subscribe_step out myAddr p (s, r, shouldExist) =
     (let isPrimary = (pbi_primary p = myAddr);
          isReplica = (pbi_replica p = myAddr);
          i = pbi_partition_id p
      in if isPrimary \<or> isReplica then
           if \<not> HasPartition (srv_pm s) i then
             case AddPartitionWithEpoch i isPrimary (pbi_epoch p) (srv_pm s) of
               (pm, Some _) \<Rightarrow> (s\<lparr>srv_pm := pm\<rparr>, r, i # shouldExist)
             | (pm, None) \<Rightarrow>
                 let (s, r) = (if isPrimary
                               then initializeReplicator out i True (pbi_replica p) (s\<lparr>srv_pm := pm\<rparr>) r
                               else initializeReplicator out i False [] (s\<lparr>srv_pm := pm\<rparr>) r)
                 in (s, r, i # shouldExist)
           else (s\<lparr>srv_pm := fst (UpdatePartitionEpoch i (pbi_epoch p) (srv_pm s))\<rparr>, r, i # shouldExist)
         else (s, r, shouldExist))"

fun remove_step :: "'r outside \<Rightarrow> u32 list \<Rightarrow> u32 \<Rightarrow> 'db Server \<times> 'r \<Rightarrow> 'db Server \<times> 'r" where
  "remove_step out shouldExist i (s, r) =
     (if i \<in> set shouldExist then (s, r)
      else
        let (s, r) = stopReplicator out i s r
        in (s\<lparr>srv_pm := fst (RemovePartition i (srv_pm s))\<rparr>, r))"

definition updatePartitionsFromRoute ::
    "'r outside \<Rightarrow> pb_PartitionInfo list \<Rightarrow> string \<Rightarrow> 'db Server \<Rightarrow> 'r \<Rightarrow> 'db Server \<times> 'r" where
  "updatePartitionsFromRoute out parts myAddr s r =
     (let (s, r, shouldExist) = fold (subscribe_step out myAddr) parts (s, r, [])
      in fold (remove_step out shouldExist) (ListPartitions (srv_pm s)) (s, r))"

section \<open>Executions\<close>

text \<open>
  One call of a handler or one event of the server's background loops, with the state \<open>r\<close> of
  the rest of the cluster, which also changes on its own.
\<close>

inductive srv_step :: "('db, 'x) engine_scheme \<Rightarrow> 'db Server \<times> 'r \<Rightarrow> 'db Server \<times> 'r \<Rightarrow> bool" for eng where
  step_srv_Put: "srv_step eng (s, r) (fst (srv_Put eng ts now req s), r)"
| step_srv_Delete: "srv_step eng (s, r) (fst (srv_Delete eng ts now req s), r)"
| step_srv_SetFields: "srv_step eng (s, r) (fst (srv_SetFields eng ts now req s), r)"
| step_srv_DeleteField: "srv_step eng (s, r) (fst (srv_DeleteField eng ts now req s), r)"
| step_srv_BatchPut: "srv_step eng (s, r) (fst (srv_BatchPut eng clock req s), r)"
| step_Replicate: "srv_step eng (s, r) (fst (Replicate eng req s), r)"
| step_Recover: "srv_step eng (s, r) (fst (RecoverPartition eng i s), r)"
| step_routes: "srv_step eng (s, r) (updatePartitionsFromRoute out parts myAddr s r)"
| step_monitor: "srv_step eng (s, r) (monitorNodeLease ev s, r)"
| step_release: "srv_step eng (s, r) (releaseAllLeases s, r)"
| step_remote: "srv_step eng (s, r) (s, r')"

inductive srv_steps :: "('db, 'x) engine_scheme \<Rightarrow> 'db Server \<times> 'r \<Rightarrow> 'db Server \<times> 'r \<Rightarrow> bool" for eng where
  steps_refl: "srv_steps eng st st"
| steps_step: "srv_steps eng st st' \<Longrightarrow> srv_step eng st' st'' \<Longrightarrow> srv_steps eng st st''"

text \<open>The part of the state that decides about the lease; only the lease operations touch it.\<close>

definition lease_state :: "'db Server \<Rightarrow> bool \<times> u64 \<times> bool" where
  "lease_state s = (srv_etcdClient s, srv_nodeLease s, srv_nodeLeaseLost s)"

lemma canWrite_lease_state: "lease_state s = lease_state s' \<Longrightarrow> canWrite s = canWrite s'"
  by (simp add: canWrite_def lease_state_def)

lemma lease_state_simps [simp]:
  "lease_state (s\<lparr>srv_pm := pm\<rparr>) = lease_state s"
  "lease_state (set_db db s) = lease_state s"
  "lease_state (s\<lparr>srv_replicators := reps\<rparr>) = lease_state s"
  "lease_state (s\<lparr>srv_replicators := reps, srv_logdirs := dirs\<rparr>) = lease_state s"
  by (simp_all add: lease_state_def set_db_def)

lemma lease_state_enqueue [simp]:
  "lease_state (enqueueReplication ts now i key val d s) = lease_state s"
  "lease_state (enqueueFieldBatchReplication ts now i b s) = lease_state s"
  by (simp_all add: enqueueReplication_def enqueueFieldBatchReplication_def split: option.splits prod.splits)

lemma lease_state_enqueue_items [simp]: "lease_state (enqueue_items clock i n items s) = lease_state s"
  by (induction clock i n items s rule: enqueue_items.induct) simp_all

lemma lease_state_replicate:
  "lease_state (fst (apply_replicated eng i entry s)) = lease_state s"
  "lease_state (fst (replicate_entries eng i es off s)) = lease_state s"
proof -
  show *: "lease_state (fst (apply_replicated eng i entry s)) = lease_state s" for entry s
    by (simp add: apply_replicated_def Let_def split: ReplicationOpType.splits sum.splits prod.splits)
  show "lease_state (fst (replicate_entries eng i es off s)) = lease_state s"
  proof (induction es arbitrary: off s)
    case (Cons entry es)
    obtain s1 e where "apply_replicated eng i entry s = (s1, e)"
      by force
    with * [of entry s] Cons show ?case
      by (simp split: option.splits)
  qed simp
qed

text \<open>Starting and stopping replicators changes nothing else of the server.\<close>

lemma server_frame: "s = s\<lparr>srv_replicators := srv_replicators s, srv_logdirs := srv_logdirs s\<rparr>"
  by simp

lemma stopReplicator_frame:
  "\<exists>dirs r'. stopReplicator out i s r =
     (s\<lparr>srv_replicators := AList.delete i (srv_replicators s), srv_logdirs := dirs\<rparr>, r')"
proof (cases "map_of (srv_replicators s) i")
  case None
  then have "AList.delete i (srv_replicators s) = srv_replicators s"
    by (simp add: AList.delete_eq map_of_eq_None_iff filter_id_conv) force
  then have "stopReplicator out i s r =
      (s\<lparr>srv_replicators := AList.delete i (srv_replicators s), srv_logdirs := srv_logdirs s\<rparr>, r)"
    using None by (simp add: stopReplicator_def)
  then show ?thesis by blast
next
  case (Some replicator)
  obtain replicator' r' where "stop_one out replicator r = (replicator', r')"
    by force
  with Some show ?thesis
    by (auto simp: stopReplicator_def)
qed

lemma initializeReplicator_frame:
  "\<exists>reps dirs r'. initializeReplicator out i prim addr s r =
     (s\<lparr>srv_replicators := reps, srv_logdirs := dirs\<rparr>, r') \<and>
     dom (map_of reps) \<subseteq> insert i (dom (map_of (srv_replicators s)))"
proof -
  obtain reps dirs r' where stop: "(case map_of (srv_replicators s) i of None \<Rightarrow> (s, r)
      | Some existing \<Rightarrow>
          let (existing', r') = stop_one out existing r
          in (s\<lparr>srv_replicators := AList.update i existing' (srv_replicators s),
                srv_logdirs := (srv_logdirs s)(i := clr_dir existing')\<rparr>, r')) =
      (s\<lparr>srv_replicators := reps, srv_logdirs := dirs\<rparr>, r')"
    and reps: "dom (map_of reps) \<subseteq> insert i (dom (map_of (srv_replicators s)))"
  proof (cases "map_of (srv_replicators s) i")
    case None
    with that [where reps = "srv_replicators s" and dirs = "srv_logdirs s" and r' = r] show ?thesis
      by auto
  next
    case (Some existing)
    obtain existing' r' where "stop_one out existing r = (existing', r')"
      by force
    with that [where reps = "AList.update i existing' (srv_replicators s)" and
        dirs = "(srv_logdirs s)(i := clr_dir existing')" and r' = r'] Some
    show ?thesis
      by (auto simp: update_conv')
  qed
  show ?thesis
    unfolding initializeReplicator_def unfolding stop unfolding Let_def prod.case
  proof (split sum.split, intro conjI allI impI)
    fix e
    show "\<exists>reps' dirs' r''. (s\<lparr>srv_replicators := reps, srv_logdirs := dirs\<rparr>, r') =
        (s\<lparr>srv_replicators := reps', srv_logdirs := dirs'\<rparr>, r'') \<and>
        dom (map_of reps') \<subseteq> insert i (dom (map_of (srv_replicators s)))"
      using reps by blast
  next
    fix replicator
    let ?reps = "AList.update i replicator reps"
    have "dom (map_of ?reps) \<subseteq> insert i (dom (map_of (srv_replicators s)))"
      using reps by (auto simp: update_conv')
    then show "\<exists>reps' dirs' r''. (s\<lparr>srv_replicators := reps, srv_logdirs := dirs,
          srv_replicators := AList.update i replicator (srv_replicators (s\<lparr>srv_replicators := reps, srv_logdirs := dirs\<rparr>))\<rparr>, r') =
        (s\<lparr>srv_replicators := reps', srv_logdirs := dirs'\<rparr>, r'') \<and>
        dom (map_of reps') \<subseteq> insert i (dom (map_of (srv_replicators s)))"
      by (intro exI [of _ ?reps] exI [of _ dirs] exI [of _ r']) simp
  qed
qed

lemma fold_invariant:
  assumes "\<And>x st. P (f x st) = P st"
  shows "P (fold f xs st) = P st"
  using assms by (induction xs arbitrary: st) simp_all

text \<open>
  What one route entry does to the table of partitions, and to the rest of the server.
\<close>

definition subscribe_table :: "string \<Rightarrow> pb_PartitionInfo \<Rightarrow> 'db PartitionManager \<Rightarrow> 'db PartitionManager" where
  "subscribe_table myAddr p pm =
     (if pbi_primary p = myAddr \<or> pbi_replica p = myAddr
      then if HasPartition pm (pbi_partition_id p)
           then fst (UpdatePartitionEpoch (pbi_partition_id p) (pbi_epoch p) pm)
           else fst (AddPartitionWithEpoch (pbi_partition_id p) (pbi_primary p = myAddr) (pbi_epoch p) pm)
      else pm)"

lemma subscribe_step_frame:
  "\<exists>reps dirs r'. subscribe_step out myAddr p (s, r, sh) =
     (s\<lparr>srv_pm := subscribe_table myAddr p (srv_pm s), srv_replicators := reps, srv_logdirs := dirs\<rparr>, r',
      if pbi_primary p = myAddr \<or> pbi_replica p = myAddr then pbi_partition_id p # sh else sh) \<and>
     dom (map_of reps) \<subseteq> dom (map_of (srv_replicators s)) \<union>
       dom (map_of (pm_partitions (subscribe_table myAddr p (srv_pm s))))"
proof (cases "(pbi_primary p = myAddr \<or> pbi_replica p = myAddr) \<and> \<not> HasPartition (srv_pm s) (pbi_partition_id p)")
  case True
  let ?i = "pbi_partition_id p" and ?pm = "subscribe_table myAddr p (srv_pm s)"
  have add: "AddPartitionWithEpoch ?i (pbi_primary p = myAddr) (pbi_epoch p) (srv_pm s) = (?pm, None)"
    using True by (auto simp: subscribe_table_def AddPartitionWithEpoch_def HasPartition_def)
  have i: "?i \<in> dom (map_of (pm_partitions ?pm))"
    using True by (auto simp: subscribe_table_def AddPartitionWithEpoch_def HasPartition_def update_conv')
  obtain reps dirs r' where init: "initializeReplicator out ?i (pbi_primary p = myAddr)
      (if pbi_primary p = myAddr then pbi_replica p else []) (s\<lparr>srv_pm := ?pm\<rparr>) r =
      (s\<lparr>srv_pm := ?pm, srv_replicators := reps, srv_logdirs := dirs\<rparr>, r')"
    and reps: "dom (map_of reps) \<subseteq> insert ?i (dom (map_of (srv_replicators s)))"
    using initializeReplicator_frame [of out ?i "pbi_primary p = myAddr"
      "if pbi_primary p = myAddr then pbi_replica p else []" "s\<lparr>srv_pm := ?pm\<rparr>" r] by auto
  have "subscribe_step out myAddr p (s, r, sh) =
      (s\<lparr>srv_pm := ?pm, srv_replicators := reps, srv_logdirs := dirs\<rparr>, r', ?i # sh)"
    using True add init by (cases "pbi_primary p = myAddr") (simp_all add: Let_def)
  with True reps i show ?thesis
    by (intro exI [of _ reps] exI [of _ dirs] exI [of _ r']) auto
next
  case False
  then have "subscribe_step out myAddr p (s, r, sh) =
      (s\<lparr>srv_pm := subscribe_table myAddr p (srv_pm s), srv_replicators := srv_replicators s, srv_logdirs := srv_logdirs s\<rparr>, r,
       if pbi_primary p = myAddr \<or> pbi_replica p = myAddr then pbi_partition_id p # sh else sh)"
    by (auto simp: Let_def subscribe_table_def)
  then show ?thesis
    by (intro exI [of _ "srv_replicators s"] exI [of _ "srv_logdirs s"] exI [of _ r]) simp
qed

text \<open>The first route entry that assigns partition \<open>i\<close> to the address.\<close>

definition assigned :: "string \<Rightarrow> pb_PartitionInfo list \<Rightarrow> u32 \<Rightarrow> pb_PartitionInfo option" where
  "assigned myAddr parts i =
     List.find (\<lambda>p. pbi_partition_id p = i \<and> (pbi_primary p = myAddr \<or> pbi_replica p = myAddr)) parts"

lemma assigned_Cons:
  "assigned myAddr (p # parts) i =
     (if pbi_partition_id p = i \<and> (pbi_primary p = myAddr \<or> pbi_replica p = myAddr) then Some p
      else assigned myAddr parts i)"
  by (auto simp: assigned_def)

lemma assigned_notin: "i \<notin> pbi_partition_id ` set parts \<Longrightarrow> assigned myAddr parts i = None"
  by (induction parts) (auto simp: assigned_def)

definition partition_after :: "string \<Rightarrow> pb_PartitionInfo \<Rightarrow> Partition option \<Rightarrow> Partition" where
  "partition_after myAddr p old =
     (case old of
        None \<Rightarrow> \<lparr>p_ID = pbi_partition_id p, p_Status = NORMAL, p_IsPrime = (pbi_primary p = myAddr), p_Epoch = pbi_epoch p\<rparr>
      | Some part \<Rightarrow> part\<lparr>p_Epoch := max (p_Epoch part) (pbi_epoch p)\<rparr>)"

lemma subscribe_table_lookup:
  "map_of (pm_partitions (subscribe_table myAddr p pm)) i =
     (if pbi_partition_id p = i \<and> (pbi_primary p = myAddr \<or> pbi_replica p = myAddr)
      then Some (partition_after myAddr p (map_of (pm_partitions pm) i)) else map_of (pm_partitions pm) i)"
  by (auto simp: subscribe_table_def HasPartition_def UpdatePartitionEpoch_def AddPartitionWithEpoch_def
      partition_after_def update_conv' max_def not_less split: option.splits)

lemma subscribe_tables_lookup:
  "distinct (map pbi_partition_id parts) \<Longrightarrow>
   map_of (pm_partitions (fold (subscribe_table myAddr) parts pm)) i =
     (case assigned myAddr parts i of
        None \<Rightarrow> map_of (pm_partitions pm) i
      | Some p \<Rightarrow> Some (partition_after myAddr p (map_of (pm_partitions pm) i)))"
proof (induction parts arbitrary: pm)
  case Nil
  show ?case
    by (simp add: assigned_def)
next
  case (Cons p parts)
  have "assigned myAddr parts (pbi_partition_id p) = None"
    using Cons.prems by (intro assigned_notin) simp
  then show ?case
    using Cons by (auto simp: assigned_Cons subscribe_table_lookup split: option.splits)
qed

lemma subscribe_table_frame [simp]:
  "pm_db (subscribe_table myAddr p pm) = pm_db pm" "pm_nodeID (subscribe_table myAddr p pm) = pm_nodeID pm"
  "dom (map_of (pm_partitions pm)) \<subseteq> dom (map_of (pm_partitions (subscribe_table myAddr p pm)))"
  by (auto simp: subscribe_table_def UpdatePartitionEpoch_def AddPartitionWithEpoch_def update_conv'
      split: option.splits if_splits)

lemma subscribe_fold:
  assumes "fold (subscribe_step out myAddr) parts (s, r, sh) = (s', r', sh')"
  shows "srv_pm s' = fold (subscribe_table myAddr) parts (srv_pm s)"
    and "lease_state s' = lease_state s"
    and "set sh' = set sh \<union> {i. assigned myAddr parts i \<noteq> None}"
    and "dom (map_of (srv_replicators s')) \<subseteq> dom (map_of (srv_replicators s)) \<union> dom (map_of (pm_partitions (srv_pm s')))"
    and "dom (map_of (pm_partitions (srv_pm s))) \<subseteq> dom (map_of (pm_partitions (srv_pm s')))"
    and "srv_db s' = srv_db s"
proof -
  have "srv_pm s' = fold (subscribe_table myAddr) parts (srv_pm s) \<and> lease_state s' = lease_state s \<and>
     set sh' = set sh \<union> {i. assigned myAddr parts i \<noteq> None} \<and>
     dom (map_of (srv_replicators s')) \<subseteq> dom (map_of (srv_replicators s)) \<union> dom (map_of (pm_partitions (srv_pm s'))) \<and>
     dom (map_of (pm_partitions (srv_pm s))) \<subseteq> dom (map_of (pm_partitions (srv_pm s'))) \<and> srv_db s' = srv_db s"
    using assms
  proof (induction parts arbitrary: s r sh)
    case Nil
    then show ?case
      by (auto simp: assigned_def)
  next
    case (Cons p parts)
    let ?pm = "subscribe_table myAddr p (srv_pm s)"
      and ?sh = "if pbi_primary p = myAddr \<or> pbi_replica p = myAddr then pbi_partition_id p # sh else sh"
    obtain reps dirs r1 where step: "subscribe_step out myAddr p (s, r, sh) =
        (s\<lparr>srv_pm := ?pm, srv_replicators := reps, srv_logdirs := dirs\<rparr>, r1, ?sh)"
      and reps: "dom (map_of reps) \<subseteq> dom (map_of (srv_replicators s)) \<union> dom (map_of (pm_partitions ?pm))"
      using subscribe_step_frame by metis
    have lease: "lease_state (s\<lparr>srv_pm := ?pm, srv_replicators := reps, srv_logdirs := dirs\<rparr>) = lease_state s"
      by (simp add: lease_state_def)
    have "fold (subscribe_step out myAddr) parts (s\<lparr>srv_pm := ?pm, srv_replicators := reps, srv_logdirs := dirs\<rparr>, r1, ?sh) = (s', r', sh')"
      using Cons.prems step by simp
    note IH = Cons.IH [OF this]
    have doms: "dom (map_of (pm_partitions ?pm)) \<subseteq> dom (map_of (pm_partitions (srv_pm s')))"
      "dom (map_of (srv_replicators s')) \<subseteq> dom (map_of reps) \<union> dom (map_of (pm_partitions (srv_pm s')))"
      using IH [THEN conjunct2] by simp_all
    have "dom (map_of (srv_replicators s')) \<subseteq> dom (map_of (srv_replicators s)) \<union> dom (map_of (pm_partitions (srv_pm s')))"
      using doms reps by blast
    moreover have "dom (map_of (pm_partitions (srv_pm s))) \<subseteq> dom (map_of (pm_partitions (srv_pm s')))"
      using doms(1) subscribe_table_frame(3) [of "srv_pm s" myAddr p] by (rule order_trans [rotated])
    moreover have "set sh' = set sh \<union> {i. assigned myAddr (p # parts) i \<noteq> None}"
      using IH by (auto simp: assigned_Cons)
    moreover have "srv_pm s' = fold (subscribe_table myAddr) (p # parts) (srv_pm s)"
      using IH by simp
    moreover have "lease_state s' = lease_state s" "srv_db s' = srv_db s"
      using IH [THEN conjunct2] lease by simp_all
    ultimately show ?case
      by blast
  qed
  then show "srv_pm s' = fold (subscribe_table myAddr) parts (srv_pm s)" "lease_state s' = lease_state s"
    "set sh' = set sh \<union> {i. assigned myAddr parts i \<noteq> None}"
    "dom (map_of (srv_replicators s')) \<subseteq> dom (map_of (srv_replicators s)) \<union> dom (map_of (pm_partitions (srv_pm s')))"
    "dom (map_of (pm_partitions (srv_pm s))) \<subseteq> dom (map_of (pm_partitions (srv_pm s')))"
    "srv_db s' = srv_db s"
    by blast+
qed

lemma RemovePartition_lookup:
  "map_of (pm_partitions (fst (RemovePartition i pm))) = (map_of (pm_partitions pm))(i := None)"
  "pm_db (fst (RemovePartition i pm)) = pm_db pm"
  by (auto simp: RemovePartition_def delete_conv' split: option.splits)

lemma remove_fold:
  assumes "fold (remove_step out sh) is (s, r) = (s', r')"
  shows "map_of (pm_partitions (srv_pm s')) = map_of (pm_partitions (srv_pm s)) |` (- (set is - set sh)) \<and>
     map_of (srv_replicators s') = map_of (srv_replicators s) |` (- (set is - set sh)) \<and>
     lease_state s' = lease_state s \<and> srv_db s' = srv_db s"
  using assms
proof (induction "is" arbitrary: s r)
  case Nil
  then show ?case
    by (auto simp: restrict_map_def)
next
  case (Cons i "is")
  show ?case
  proof (cases "i \<in> set sh")
    case True
    then show ?thesis
      using Cons by (simp add: insert_Diff_if)
  next
    case False
    obtain dirs r1 where stop: "stopReplicator out i s r =
        (s\<lparr>srv_replicators := AList.delete i (srv_replicators s), srv_logdirs := dirs\<rparr>, r1)"
      using stopReplicator_frame by metis
    let ?s1 = "s\<lparr>srv_replicators := AList.delete i (srv_replicators s), srv_logdirs := dirs, srv_pm := fst (RemovePartition i (srv_pm s))\<rparr>"
    have lease: "lease_state ?s1 = lease_state s"
      by (simp add: lease_state_def)
    have "fold (remove_step out sh) is (?s1, r1) = (s', r')"
      using Cons.prems False stop by simp
    from Cons.IH [OF this] lease False show ?thesis
      by (auto simp: RemovePartition_lookup delete_conv' restrict_map_def fun_eq_iff)
  qed
qed

lemma routes_effect:
  assumes "updatePartitionsFromRoute out parts myAddr s r = (s', r')"
  shows "lease_state s' = lease_state s" and "srv_db s' = srv_db s"
    and "distinct (map pbi_partition_id parts) \<Longrightarrow>
      map_of (pm_partitions (srv_pm s')) i =
        map_option (\<lambda>p. partition_after myAddr p (map_of (pm_partitions (srv_pm s)) i)) (assigned myAddr parts i)"
    and "dom (map_of (srv_replicators s)) \<subseteq> dom (map_of (pm_partitions (srv_pm s))) \<Longrightarrow>
      dom (map_of (srv_replicators s')) \<subseteq> dom (map_of (pm_partitions (srv_pm s')))"
proof -
  obtain s1 r1 sh where f: "fold (subscribe_step out myAddr) parts (s, r, []) = (s1, r1, sh)"
    by (metis prod_cases3)
  note sub = subscribe_fold [OF f]
  have "fold (remove_step out sh) (ListPartitions (srv_pm s1)) (s1, r1) = (s', r')"
    using assms by (simp add: updatePartitionsFromRoute_def f)
  note rem = remove_fold [OF this]
  have keys: "set (ListPartitions (srv_pm s1)) = dom (map_of (pm_partitions (srv_pm s1)))"
    by (simp add: ListPartitions_def dom_map_of_conv_image_fst)
  show "lease_state s' = lease_state s" "srv_db s' = srv_db s"
    using sub rem by simp_all
  have gone: "map_of (pm_partitions (srv_pm s')) i =
      (if assigned myAddr parts i = None then None else map_of (pm_partitions (srv_pm s1)) i)" for i
    using rem sub(3) keys by (cases "i \<in> dom (map_of (pm_partitions (srv_pm s1)))") (auto simp: restrict_map_def)
  show "map_of (pm_partitions (srv_pm s')) i =
        map_option (\<lambda>p. partition_after myAddr p (map_of (pm_partitions (srv_pm s)) i)) (assigned myAddr parts i)"
    if "distinct (map pbi_partition_id parts)"
    using subscribe_tables_lookup [OF that, of myAddr "srv_pm s" i] gone [of i] sub(1) by (auto split: option.splits)
  show "dom (map_of (srv_replicators s')) \<subseteq> dom (map_of (pm_partitions (srv_pm s')))"
    if "dom (map_of (srv_replicators s)) \<subseteq> dom (map_of (pm_partitions (srv_pm s)))"
  proof -
    have "dom (map_of (srv_replicators s1)) \<subseteq> dom (map_of (pm_partitions (srv_pm s1)))"
      using sub(4,5) that by blast
    moreover have "dom (map_of (srv_replicators s')) = dom (map_of (srv_replicators s1)) - (set (ListPartitions (srv_pm s1)) - set sh)"
      "dom (map_of (pm_partitions (srv_pm s'))) = dom (map_of (pm_partitions (srv_pm s1))) - (set (ListPartitions (srv_pm s1)) - set sh)"
      using rem by (auto simp: dom_restrict)
    ultimately show ?thesis
      by blast
  qed
qed

section \<open>The effect of the handlers\<close>

lemma frame_enqueue [simp]:
  "srv_pm (enqueueReplication ts now i key val d s) = srv_pm s"
  "srv_pm (enqueueFieldBatchReplication ts now i b s) = srv_pm s"
  "srv_pm (enqueue_items clock i n items s) = srv_pm s"
  "srv_db (set_db db s) = db" "pm_partitions (srv_pm (set_db db s)) = pm_partitions (srv_pm s)"
proof -
  show *: "srv_pm (enqueueReplication ts now i key val d s) = srv_pm s" for ts now i key val d s
    by (simp add: enqueueReplication_def split: option.splits prod.splits)
  show "srv_pm (enqueueFieldBatchReplication ts now i b s) = srv_pm s"
    by (simp add: enqueueFieldBatchReplication_def split: option.splits prod.splits)
  show "srv_pm (enqueue_items clock i n items s) = srv_pm s"
    by (induction clock i n items s rule: enqueue_items.induct) (simp_all add: *)
  show "srv_db (set_db db s) = db" "pm_partitions (srv_pm (set_db db s)) = pm_partitions (srv_pm s)"
    by (simp_all add: set_db_def)
qed

lemmas write_handler_defs = srv_Put_def srv_Delete_def srv_SetFields_def srv_DeleteField_def srv_BatchPut_def

lemma lease_state_writes [simp]:
  "lease_state (fst (srv_Put eng ts now q s)) = lease_state s"
  "lease_state (fst (srv_Delete eng ts now q' s)) = lease_state s"
  "lease_state (fst (srv_SetFields eng ts now q'' s)) = lease_state s"
  "lease_state (fst (srv_DeleteField eng ts now q3 s)) = lease_state s"
  "lease_state (fst (srv_BatchPut eng clock q4 s)) = lease_state s"
  by (simp_all add: write_handler_defs Let_def split: option.splits prod.splits)

lemma lost_step:
  "srv_step eng st st' \<Longrightarrow> \<not> canWrite (fst st) \<Longrightarrow> \<not> canWrite (fst st')"
proof (induction rule: srv_step.induct)
  case (step_routes s r out parts myAddr)
  obtain s' r' where "updatePartitionsFromRoute out parts myAddr s r = (s', r')"
    by force
  with canWrite_lease_state [OF routes_effect(1) [OF this]] step_routes show ?case
    by simp
next
  case (step_monitor s r ev)
  then show ?case
    by (auto simp: monitorNodeLease_def canWrite_def split: lease_event.splits)
next
  case (step_release s r)
  then show ?case
    by (simp add: releaseAllLeases_def canWrite_def)
next
  case (step_Replicate s r req)
  have "lease_state (fst (Replicate eng req s)) = lease_state s"
    by (simp add: Replicate_def lease_state_replicate)
  from canWrite_lease_state [OF this] step_Replicate show ?case
    by simp
next
  case (step_Recover s r i)
  have "lease_state (fst (RecoverPartition eng i s)) = lease_state s"
    by (simp add: RecoverPartition_def split: option.splits prod.splits)
  from canWrite_lease_state [OF this] step_Recover show ?case
    by simp
qed (simp_all add: canWrite_lease_state [OF lease_state_writes(1)] canWrite_lease_state [OF lease_state_writes(2)]
  canWrite_lease_state [OF lease_state_writes(3)] canWrite_lease_state [OF lease_state_writes(4)]
  canWrite_lease_state [OF lease_state_writes(5)])

lemma lost_steps:
  "srv_steps eng st st' \<Longrightarrow> \<not> canWrite (fst st) \<Longrightarrow> \<not> canWrite (fst st')"
  by (induction rule: srv_steps.induct) (auto dest: lost_step)

lemma write_checks_None:
  "write_checks s i epoch = None \<longleftrightarrow>
   canWrite s \<and> (\<exists>part. map_of (pm_partitions (srv_pm s)) i = Some part \<and> p_IsPrime part \<and> p_Epoch part = epoch)"
  by (auto simp: write_checks_def HasPartition_def IsPrimary_def ValidateEpoch_def split: option.splits)

text \<open>The database operations that an entry of a replication request stands for.\<close>

definition replicated_ops :: "u32 \<Rightarrow> ReplicationEntry \<Rightarrow> batch_op list" where
  "replicated_ops reqID entry =
     (let put = [BatchPut_op (MakePartitionKey reqID (re_key entry)) (re_value entry)];
          del = [BatchDelete_op (MakePartitionKey reqID (re_key entry))]
      in case re_op_type entry of
           REP_OP_DELETE \<Rightarrow> del
         | REP_OP_FIELD_BATCH \<Rightarrow>
             (case DecodeFieldBatch (re_value entry) of
                Inl _ \<Rightarrow> []
              | Inr fb \<Rightarrow> map (field_op (if fb_PartitionID fb = 0 then reqID else fb_PartitionID fb) (fb_PrimaryKey fb)) (fb_Updates fb))
         | REP_OP_PUT \<Rightarrow> put
         | REP_OP_unrecognized _ \<Rightarrow> if re_is_delete entry then del else put)"

context rocks_engine
begin

lemma view_ApplyFieldBatch:
  "ApplyFieldBatch eng db i fb = (db', e) \<Longrightarrow>
   view db' = (if e = None then fold batch_step (map (field_op i (fb_PrimaryKey fb)) (fb_Updates fb)) (view db) else view db)"
  by (simp add: ApplyFieldBatch_def view_Write)

lemma apply_replicated_view:
  assumes "apply_replicated eng i entry s = (s', e)"
  shows "view (srv_db s') = (if e = None then fold batch_step (replicated_ops i entry) (view (srv_db s)) else view (srv_db s))"
    and "pm_partitions (srv_pm s') = pm_partitions (srv_pm s)"
proof -
  obtain pm1 e1 pm2 e2 where put: "pm_Put eng (re_key entry) (re_value entry) i (srv_pm s) = (pm1, e1)"
    and del: "pm_Delete eng (re_key entry) i (srv_pm s) = (pm2, e2)"
    by fastforce
  show "view (srv_db s') = (if e = None then fold batch_step (replicated_ops i entry) (view (srv_db s)) else view (srv_db s))"
    using assms pm_Put_view [OF put] pm_Delete_view [OF del]
    by (auto simp: apply_replicated_def replicated_ops_def put del Let_def dest: view_ApplyFieldBatch
        split: ReplicationOpType.splits sum.splits prod.splits if_splits)
  show "pm_partitions (srv_pm s') = pm_partitions (srv_pm s)"
    using assms pm_partitions_writes(1) [of eng "re_key entry" "re_value entry" i "srv_pm s"]
      pm_partitions_writes(2) [of eng "re_key entry" i "srv_pm s"]
    by (auto simp: apply_replicated_def put del Let_def
        split: ReplicationOpType.splits sum.splits prod.splits if_splits)
qed

lemma replicate_entries_view:
  assumes "replicate_entries eng i es off s = (s', resp)"
  shows "\<exists>n \<le> length es. view (srv_db s') = fold batch_step (concat (map (replicated_ops i) (take n es))) (view (srv_db s)) \<and>
     (rr_success resp \<longleftrightarrow> n = length es) \<and>
     rr_last_applied_offset resp = (if n = 0 then off else re_offset (es ! (n - 1)))"
  using assms
proof (induction es arbitrary: off s)
  case Nil
  then show ?case
    by auto
next
  case (Cons entry es)
  obtain s1 e where step: "apply_replicated eng i entry s = (s1, e)"
    by force
  show ?case
  proof (cases e)
    case None
    then have "replicate_entries eng i es (re_offset entry) s1 = (s', resp)"
      using Cons.prems step by simp
    from Cons.IH [OF this] obtain n where "n \<le> length es"
      "view (srv_db s') = fold batch_step (concat (map (replicated_ops i) (take n es))) (view (srv_db s1))"
      "rr_success resp \<longleftrightarrow> n = length es"
      "rr_last_applied_offset resp = (if n = 0 then re_offset entry else re_offset (es ! (n - 1)))"
      by blast
    then show ?thesis
      using apply_replicated_view(1) [OF step] None
      by (intro exI [of _ "Suc n"]) (auto simp: nth_Cons split: nat.splits)
  next
    case (Some er)
    then have "s' = s1" "\<not> rr_success resp" "rr_last_applied_offset resp = off"
      using Cons.prems step by auto
    then show ?thesis
      using apply_replicated_view(1) [OF step] Some by (intro exI [of _ 0]) simp
  qed
qed

end

text \<open>
  The writes of a client to one partition, the handler that serves each, and the operations
  it stands for.
\<close>

datatype client_write =
    WPut bytes bytes
  | WDelete bytes
  | WSetFields bytes "FieldValue list"
  | WDeleteField bytes bytes

fun serve_write ::
    "('db, 'x) engine_scheme \<Rightarrow> nat \<Rightarrow> nat \<Rightarrow> u32 \<Rightarrow> u64 \<Rightarrow> client_write \<Rightarrow> 'db Server \<Rightarrow> 'db Server \<times> StorageWriteResponse" where
  "serve_write eng ts now i epoch (WPut k v) s =
     srv_Put eng ts now \<lparr>spq_key = k, spq_value = v, spq_partition_id = i, spq_epoch = epoch\<rparr> s"
| "serve_write eng ts now i epoch (WDelete k) s =
     srv_Delete eng ts now \<lparr>sdq_key = k, sdq_partition_id = i, sdq_epoch = epoch\<rparr> s"
| "serve_write eng ts now i epoch (WSetFields pk fs) s =
     srv_SetFields eng ts now \<lparr>ssf_primary_key = pk, ssf_fields = fs, ssf_partition_id = i, ssf_epoch = epoch\<rparr> s"
| "serve_write eng ts now i epoch (WDeleteField pk f) s =
     srv_DeleteField eng ts now \<lparr>sdf_primary_key = pk, sdf_field_name = f, sdf_partition_id = i, sdf_epoch = epoch\<rparr> s"

fun write_batch :: "u32 \<Rightarrow> client_write \<Rightarrow> FieldBatch" where
  "write_batch i (WSetFields pk fs) =
     \<lparr>fb_PartitionID = i, fb_PrimaryKey = pk, fb_Updates = map to_FieldUpdate fs\<rparr>"
| "write_batch i (WDeleteField pk f) =
     \<lparr>fb_PartitionID = i, fb_PrimaryKey = pk,
      fb_Updates = [\<lparr>fu_FieldName = f, fu_Value = [], fu_IsDelete = True\<rparr>]\<rparr>"
| "write_batch i w = \<lparr>fb_PartitionID = i, fb_PrimaryKey = [], fb_Updates = []\<rparr>"

fun write_ops :: "u32 \<Rightarrow> client_write \<Rightarrow> batch_op list" where
  "write_ops i (WPut k v) = [BatchPut_op (MakePartitionKey i k) v]"
| "write_ops i (WDelete k) = [BatchDelete_op (MakePartitionKey i k)]"
| "write_ops i w = map (field_op i (fb_PrimaryKey (write_batch i w))) (fb_Updates (write_batch i w))"

text \<open>The command type, key and value under which a write is logged.\<close>

fun write_cmd :: "u32 \<Rightarrow> client_write \<Rightarrow> byte \<times> bytes \<times> bytes" where
  "write_cmd i (WPut k v) = (CmdTypePut, k, v)"
| "write_cmd i (WDelete k) = (CmdTypeDelete, k, [])"
| "write_cmd i w = (CmdTypeFieldBatch, [], FieldBatch_Encode (write_batch i w))"

definition log_write :: "nat \<Rightarrow> nat \<Rightarrow> u32 \<Rightarrow> client_write \<Rightarrow> 'db Server \<Rightarrow> 'db Server" where
  "log_write ts now i w s =
     (case map_of (srv_replicators s) i of
        None \<Rightarrow> s
      | Some clr \<Rightarrow>
          let (c, k, v) = write_cmd i w; (cl, r) = cl_Append ts now c k v (clr_commandLog clr)
          in s\<lparr>srv_replicators := AList.update i (clr\<lparr>clr_commandLog := cl\<rparr>) (srv_replicators s)\<rparr>)"

lemmas append_defs = clr_AppendPut_def clr_AppendDelete_def clr_AppendFieldBatch_def
  AppendPut_def AppendDelete_def AppendFieldBatch_def

context rocks_engine
begin

lemma serve_write_effect:
  assumes "serve_write eng ts now i epoch w s = (s', resp)"
  shows "if swr_success resp
     then write_checks s i epoch = None \<and>
       (\<exists>s1. view (srv_db s1) = fold batch_step (write_ops i w) (view (srv_db s)) \<and>
          pm_partitions (srv_pm s1) = pm_partitions (srv_pm s) \<and>
          srv_replicators s1 = srv_replicators s \<and> lease_state s1 = lease_state s \<and> s' = log_write ts now i w s1)
     else view (srv_db s') = view (srv_db s) \<and> pm_partitions (srv_pm s') = pm_partitions (srv_pm s) \<and>
       srv_replicators s' = srv_replicators s"
proof (cases w)
  case (WPut k v)
  obtain pm e where put: "pm_Put eng k v i (srv_pm s) = (pm, e)"
    by force
  then show ?thesis
    using assms pm_Put_view [OF put] pm_partitions_writes(1) [of eng k v i "srv_pm s"]
    by (auto simp: WPut srv_Put_def log_write_def enqueueReplication_def append_defs Let_def
        split: option.splits prod.splits intro!: exI [of _ "s\<lparr>srv_pm := pm\<rparr>"])
next
  case (WDelete k)
  obtain pm e where del: "pm_Delete eng k i (srv_pm s) = (pm, e)"
    by force
  then show ?thesis
    using assms pm_Delete_view [OF del] pm_partitions_writes(2) [of eng k i "srv_pm s"]
    by (auto simp: WDelete srv_Delete_def log_write_def enqueueReplication_def append_defs Let_def
        split: option.splits prod.splits intro!: exI [of _ "s\<lparr>srv_pm := pm\<rparr>"])
next
  case (WSetFields pk fs)
  obtain db e where app: "ApplyFieldBatch eng (srv_db s) i (write_batch i w) = (db, e)"
    by force
  have reps: "srv_replicators (set_db db s) = srv_replicators s"
    by (simp add: set_db_def)
  show ?thesis
    using assms app reps view_ApplyFieldBatch [OF app]
    by (auto simp: WSetFields srv_SetFields_def log_write_def enqueueFieldBatchReplication_def append_defs Let_def
        split: option.splits prod.splits intro!: exI [of _ "set_db db s"])
next
  case (WDeleteField pk f)
  obtain db e where del: "DeleteField eng (srv_db s) i pk f = (db, e)"
    by force
  have reps: "srv_replicators (set_db db s) = srv_replicators s"
    by (simp add: set_db_def)
  have v: "view db = (if e = None then (view (srv_db s))(MakeFieldKey i pk f := None) else view (srv_db s))"
    using view_Delete [of "srv_db s" "MakeFieldKey i pk f" db e] del by (simp add: DeleteField_def)
  show ?thesis
    using assms del reps v
    by (auto simp: WDeleteField srv_DeleteField_def log_write_def enqueueFieldBatchReplication_def append_defs Let_def field_op_def
        split: option.splits prod.splits intro!: exI [of _ "set_db db s"])
qed

end

lemma BatchPut_effect:
  assumes "rocks_engine eng view" and "srv_BatchPut eng clock q s = (s', resp)"
  shows "if sbp_success resp
     then write_checks s (sbq_partition_id q) (sbq_epoch q) = None \<and>
       partition_view (view (srv_db s')) (sbq_partition_id q) =
         partition_view (view (srv_db s)) (sbq_partition_id q) ++
           map_of (rev (map (\<lambda>item. (pkv_key item, pkv_value item)) (sbq_items q)))
     else view (srv_db s') = view (srv_db s) \<and> srv_replicators s' = srv_replicators s"
proof -
  let ?items = "map (\<lambda>item. \<lparr>kv_Key = pkv_key item, kv_Value = pkv_value item\<rparr>) (sbq_items q)"
  obtain pm e where put: "pm_BatchPut eng ?items (sbq_partition_id q) (srv_pm s) = (pm, e)"
    by force
  from rocks_engine.pm_BatchPut_view [OF assms(1) put]
  have v: "view (pm_db pm) = (if e = None
      then view (srv_db s) ++ map_of (map (\<lambda>(k, v). (MakePartitionKey (sbq_partition_id q) k, v))
             (rev (map (\<lambda>item. (pkv_key item, pkv_value item)) (sbq_items q))))
      else view (srv_db s))"
    by (simp add: comp_def)
  show ?thesis
    using assms(2) put v by (auto simp: srv_BatchPut_def Let_def partition_view_add split: option.splits)
qed

section \<open>Properties\<close>

text \<open>C3. A write is acknowledged only by a node that holds its lease, for a partition of which
  it is the primary and with the partition's current epoch; then the database has exactly the
  writes of the request. A write that is not acknowledged leaves the data and the
  replication log as they were.\<close>

theorem acknowledged_write_is_fenced:
  assumes "rocks_engine eng view"
  shows "(serve_write eng ts now i epoch w s = (s', resp) \<longrightarrow>
      (if swr_success resp
       then canWrite s \<and> (\<exists>part. GetPartition (srv_pm s) i = Some part \<and> p_IsPrime part \<and> p_Epoch part = epoch) \<and>
         view (srv_db s') = fold batch_step (write_ops i w) (view (srv_db s))
       else view (srv_db s') = view (srv_db s) \<and> srv_replicators s' = srv_replicators s)) \<and>
    (srv_BatchPut eng clock q s = (s', bresp) \<longrightarrow>
      (if sbp_success bresp
       then canWrite s \<and> (\<exists>part. GetPartition (srv_pm s) (sbq_partition_id q) = Some part \<and> p_IsPrime part \<and> p_Epoch part = sbq_epoch q) \<and>
         partition_view (view (srv_db s')) (sbq_partition_id q) =
           partition_view (view (srv_db s)) (sbq_partition_id q) ++
             map_of (rev (map (\<lambda>item. (pkv_key item, pkv_value item)) (sbq_items q)))
       else view (srv_db s') = view (srv_db s) \<and> srv_replicators s' = srv_replicators s))"
proof (intro conjI impI)
  have log: "srv_db (log_write ts now i w s1) = srv_db s1" for s1
    by (simp add: log_write_def split: option.splits prod.splits)
  assume "serve_write eng ts now i epoch w s = (s', resp)"
  from rocks_engine.serve_write_effect [OF assms this] show "if swr_success resp
       then canWrite s \<and> (\<exists>part. GetPartition (srv_pm s) i = Some part \<and> p_IsPrime part \<and> p_Epoch part = epoch) \<and>
         view (srv_db s') = fold batch_step (write_ops i w) (view (srv_db s))
       else view (srv_db s') = view (srv_db s) \<and> srv_replicators s' = srv_replicators s"
    by (auto simp: write_checks_None GetPartition_def log split: if_splits)
next
  assume "srv_BatchPut eng clock q s = (s', bresp)"
  from BatchPut_effect [OF assms this] show "if sbp_success bresp
       then canWrite s \<and> (\<exists>part. GetPartition (srv_pm s) (sbq_partition_id q) = Some part \<and> p_IsPrime part \<and> p_Epoch part = sbq_epoch q) \<and>
         partition_view (view (srv_db s')) (sbq_partition_id q) =
           partition_view (view (srv_db s)) (sbq_partition_id q) ++
             map_of (rev (map (\<lambda>item. (pkv_key item, pkv_value item)) (sbq_items q)))
       else view (srv_db s') = view (srv_db s) \<and> srv_replicators s' = srv_replicators s"
    by (auto simp: write_checks_None GetPartition_def split: if_splits)
qed

text \<open>A node that holds its lease and is primary of partition 7 at epoch 3.\<close>

definition example_server :: "bool \<Rightarrow> mem Server" where
  "example_server prim =
     \<lparr>srv_pm = \<lparr>pm_nodeID = ''n1'',
        pm_partitions = [(7, \<lparr>p_ID = 7, p_Status = NORMAL, p_IsPrime = prim, p_Epoch = 3\<rparr>)],
        pm_db = [(MakePartitionKey 7 [1], [10])], pm_gauge = (\<lambda>_. 0)\<rparr>,
      srv_etcdClient = True, srv_nodeLease = 17, srv_nodeLeaseLost = False, srv_monitoring = True,
      srv_replicators = [], srv_logdirs = (\<lambda>_. \<lparr>ld_files = [], ld_checkpoint = None\<rparr>)\<rparr>"

lemmas example_simps = example_server_def write_checks_def canWrite_def HasPartition_def IsPrimary_def
  ValidateEpoch_def GetPartition_def

theorem acknowledged_write_is_fenced_witness:
  "\<not> swr_success (snd (serve_write (mem_engine None) 0 0 7 2 (WPut [1] [11]) (example_server True))) \<and>
   map_of (srv_db (fst (serve_write (mem_engine None) 0 0 7 3 (WPut [1] [11]) (example_server True)))) =
     [MakePartitionKey 7 [1] \<mapsto> [11]]"
proof -
  let ?r = "serve_write (mem_engine None) 0 0 7 3 (WPut [1] [11]) (example_server True)"
  have "swr_success (snd ?r)"
    by (simp add: srv_Put_def example_simps pm_Put_def RocksDB_Put_def mem_engine_def mem_write_def)
  moreover have "?r = (fst ?r, snd ?r)"
    by simp
  ultimately have "map_of (srv_db (fst ?r)) = fold batch_step (write_ops 7 (WPut [1] [11])) (map_of (srv_db (example_server True)))"
    using acknowledged_write_is_fenced [OF mem.rocks_engine_axioms, of None 0 0 7 3 "WPut [1] [11]" "example_server True" "fst ?r" "snd ?r"]
    by (simp del: serve_write.simps)
  then show ?thesis
    by (simp add: srv_Put_def example_simps)
qed

text \<open>C8. Loss of the node lease is final: whatever handlers and background events run
  afterwards, the node never takes a client write again, answers each with \<open>INTERNAL_ERROR\<close> and
  changes nothing. (There is no path that acquires the lease again.)\<close>

theorem lost_lease_is_final:
  assumes "srv_steps eng (s, r) (s', r')" and "\<not> canWrite s"
  shows "serve_write eng ts now i epoch w s' = (s', \<lparr>swr_success = False, swr_error = INTERNAL_ERROR\<rparr>) \<and>
     srv_BatchPut eng clock q s' = (s', \<lparr>sbp_success = False, sbp_count = 0, sbp_error = INTERNAL_ERROR\<rparr>)"
proof -
  have "\<not> canWrite s'"
    using lost_steps [OF assms(1)] assms(2) by simp
  then have "write_checks s' j e = Some INTERNAL_ERROR" for j e
    by (simp add: write_checks_def)
  then show ?thesis
    by (cases w) (simp_all add: write_handler_defs)
qed

theorem lost_lease_is_final_witness:
  "canWrite (example_server True) \<and>
   serve_write (mem_engine None) 0 0 7 3 (WPut [1] [11]) (monitorNodeLease KeepaliveClosed (example_server True)) =
     (monitorNodeLease KeepaliveClosed (example_server True), \<lparr>swr_success = False, swr_error = INTERNAL_ERROR\<rparr>)"
proof -
  let ?s = "monitorNodeLease KeepaliveClosed (example_server True)"
  have "\<not> canWrite ?s"
    by (simp add: monitorNodeLease_def example_simps)
  from lost_lease_is_final [OF steps_refl [of "mem_engine None" "(?s, ())"] this, of 0 0 7 3 "WPut [1] [11]"] show ?thesis
    by (simp add: example_simps del: serve_write.simps)
qed

text \<open>C26. After a route update the node has exactly the partitions whose entry names its address as
  primary or replica: a new one with the role and epoch of the entry, a known one with its role
  and status unchanged and the larger of the two epochs. No data changes, and no replicator is
  left without its partition.\<close>

theorem route_update_exact:
  assumes "distinct (map pbi_partition_id parts)"
    and "updatePartitionsFromRoute out parts myAddr s r = (s', r')"
  shows "GetPartition (srv_pm s') i =
       (case assigned myAddr parts i of
          None \<Rightarrow> None
        | Some p \<Rightarrow>
            Some (case GetPartition (srv_pm s) i of
                    None \<Rightarrow> \<lparr>p_ID = i, p_Status = NORMAL, p_IsPrime = (pbi_primary p = myAddr), p_Epoch = pbi_epoch p\<rparr>
                  | Some part \<Rightarrow> part\<lparr>p_Epoch := max (p_Epoch part) (pbi_epoch p)\<rparr>)) \<and>
     srv_db s' = srv_db s \<and>
     (dom (map_of (srv_replicators s)) \<subseteq> dom (map_of (pm_partitions (srv_pm s))) \<longrightarrow>
        dom (map_of (srv_replicators s')) \<subseteq> dom (map_of (pm_partitions (srv_pm s'))))"
proof -
  have "assigned myAddr parts i = Some p \<Longrightarrow> pbi_partition_id p = i" for p
    by (auto simp: assigned_def find_Some_iff)
  with routes_effect [OF assms(2)] assms(1) show ?thesis
    by (auto simp: GetPartition_def partition_after_def split: option.splits)
qed

definition example_route :: "pb_PartitionInfo" where
  "example_route = \<lparr>pbi_partition_id = 7, pbi_primary = ''n1:9001'', pbi_replica = ''n2:9001'', pbi_status = NORMAL,
     pbi_migration_target = [], pbi_migration_state = MIGRATION_NONE, pbi_epoch = 5\<rparr>"

definition example_outside :: "unit outside" where
  "example_outside = \<lparr>out_dial = (\<lambda>_. None), out_rpc = (\<lambda>_ _ _. ((), Inl ErrEOF)), out_fault = (\<lambda>_. None), out_now = (\<lambda>_. 1)\<rparr>"

theorem route_update_exact_witness:
  "GetPartition (srv_pm (fst (updatePartitionsFromRoute example_outside [example_route] ''n1:9001'' (example_server False) ()))) 7 =
     Some \<lparr>p_ID = 7, p_Status = NORMAL, p_IsPrime = False, p_Epoch = 5\<rparr>"
proof -
  let ?u = "updatePartitionsFromRoute example_outside [example_route] ''n1:9001'' (example_server False) ()"
  have "?u = (fst ?u, snd ?u)"
    by (rule prod.collapse [symmetric])
  from route_update_exact [OF _ this, of 7] show ?thesis
    by (simp add: assigned_def example_route_def example_server_def GetPartition_def max_def)
qed

text \<open>C39. A replica that a route update promotes stays a replica: the update does not touch the
  role of a partition the node already has, so every write to the new primary is still answered
  with \<open>NOT_PRIMARY\<close>, whatever epoch it carries.\<close>

theorem promoted_replica_refuses_writes:
  assumes "distinct (map pbi_partition_id parts)" and "canWrite s"
    and "GetPartition (srv_pm s) i = Some part" and "\<not> p_IsPrime part"
    and "assigned myAddr parts i = Some p" and "pbi_primary p = myAddr"
    and "updatePartitionsFromRoute out parts myAddr s r = (s', r')"
  shows "serve_write eng ts now i epoch w s' = (s', \<lparr>swr_success = False, swr_error = NOT_PRIMARY\<rparr>)"
proof -
  have "map_of (pm_partitions (srv_pm s')) i = Some (part\<lparr>p_Epoch := max (p_Epoch part) (pbi_epoch p)\<rparr>)"
    using routes_effect(3) [OF assms(7,1), of i] assms(3,5) by (simp add: GetPartition_def partition_after_def)
  moreover have "canWrite s'"
    using canWrite_lease_state [OF routes_effect(1) [OF assms(7)]] assms(2) by simp
  ultimately have "write_checks s' i e = Some NOT_PRIMARY" for e
    using assms(4) by (simp add: write_checks_def HasPartition_def IsPrimary_def)
  then show ?thesis
    by (cases w) (simp_all add: write_handler_defs)
qed

theorem promoted_replica_refuses_writes_witness:
  "snd (serve_write (mem_engine None) 0 0 7 5 (WPut [1] [11])
     (fst (updatePartitionsFromRoute example_outside [example_route] ''n1:9001'' (example_server False) ()))) =
   \<lparr>swr_success = False, swr_error = NOT_PRIMARY\<rparr>"
proof -
  let ?u = "updatePartitionsFromRoute example_outside [example_route] ''n1:9001'' (example_server False) ()"
  have u: "?u = (fst ?u, snd ?u)"
    by (rule prod.collapse [symmetric])
  have "GetPartition (srv_pm (example_server False)) 7 = Some \<lparr>p_ID = 7, p_Status = NORMAL, p_IsPrime = False, p_Epoch = 3\<rparr>"
    "canWrite (example_server False)"
    by (simp_all add: example_simps)
  moreover have "assigned ''n1:9001'' [example_route] 7 = Some example_route" "pbi_primary example_route = ''n1:9001''"
    by (simp_all add: assigned_def example_route_def)
  ultimately show ?thesis
    using promoted_replica_refuses_writes [OF _ _ _ _ _ _ u, of 7 _ example_route "mem_engine None" 0 0 5 "WPut [1] [11]"]
    by (simp del: serve_write.simps)
qed

text \<open>C29. \<open>Replicate\<close> applies the entries of a request in order up to the first that fails: the
  data is that of the entries up to the reported offset, and the response says success exactly
  if all were applied.\<close>

theorem Replicate_applies_prefix:
  assumes "rocks_engine eng view" and "HasPartition (srv_pm s) (rq_partition_id req)"
    and "Replicate eng req s = (s', resp)"
  shows "\<exists>n \<le> length (rq_entries req).
     view (srv_db s') = fold batch_step (concat (map (replicated_ops (rq_partition_id req)) (take n (rq_entries req)))) (view (srv_db s)) \<and>
     (rr_success resp \<longleftrightarrow> n = length (rq_entries req)) \<and>
     rr_last_applied_offset resp = (if n = 0 then 0 else re_offset (rq_entries req ! (n - 1)))"
  using rocks_engine.replicate_entries_view [OF assms(1), of "rq_partition_id req" "rq_entries req" 0 s s' resp] assms(2,3)
  by (simp add: Replicate_def)

definition example_request :: ReplicateRequest where
  "example_request = \<lparr>rq_partition_id = 7, rq_entries =
     [\<lparr>re_offset = 4, re_key = [1], re_value = [12], re_is_delete = False, re_timestamp = 0, re_op_type = REP_OP_PUT\<rparr>,
      \<lparr>re_offset = 5, re_key = [], re_value = [], re_is_delete = False, re_timestamp = 0, re_op_type = REP_OP_FIELD_BATCH\<rparr>],
     rq_commit_offset = 5\<rparr>"

theorem Replicate_applies_prefix_witness:
  "let (s', resp) = Replicate (mem_engine None) example_request (example_server False)
   in map_of (srv_db s') = [MakePartitionKey 7 [1] \<mapsto> [12]] \<and> \<not> rr_success resp \<and> rr_last_applied_offset resp = 4"
proof -
  let ?r = "Replicate (mem_engine None) example_request (example_server False)"
  have r: "?r = (fst ?r, snd ?r)"
    by simp
  have has: "HasPartition (srv_pm (example_server False)) (rq_partition_id example_request)"
    by (simp add: example_simps example_request_def)
  have *: "\<not> rr_success (snd ?r)" "rr_last_applied_offset (snd ?r) = 4"
    using has
    by (simp_all add: Replicate_def example_request_def apply_replicated_def pm_Put_def example_simps RocksDB_Put_def
        mem_engine_def mem_write_def DecodeFieldBatch_def decodeFieldBatchLegacy_def decodeFieldBatchContent_def read_u32_def)
  have len: "length (rq_entries example_request) = 2" and id: "rq_partition_id example_request = 7"
    by (simp_all add: example_request_def)
  from Replicate_applies_prefix [OF mem.rocks_engine_axioms has r, unfolded len id]
  obtain n where n: "n \<le> 2" "rr_success (snd ?r) \<longleftrightarrow> n = 2"
    "rr_last_applied_offset (snd ?r) = (if n = 0 then 0 else re_offset (rq_entries example_request ! (n - 1)))"
    "map_of (srv_db (fst ?r)) = fold batch_step (concat (map (replicated_ops 7) (take n (rq_entries example_request)))) (map_of (srv_db (example_server False)))"
    by blast
  moreover from n(1-3) * have "n = 1"
    by (cases "n = 0") simp_all
  ultimately show ?thesis
    using * by (simp add: example_request_def replicated_ops_def example_server_def case_prod_beta)
qed

end
