(* ===== verification/Agreement.thy ===== *)
theory Agreement
  imports Storage_Server
begin

text \<open>
  The two ends of replication together: what a primary logs while it serves writes, sent to a
  replica and applied there by \<open>Replicate\<close>, makes the same changes to the replica's data.
\<close>

lemma batch_step_pointwise: "m k = m' k \<Longrightarrow> batch_step x m k = batch_step x m' k"
  by (cases x) auto

lemma fold_batch_pointwise: "m k = m' k \<Longrightarrow> fold batch_step ops m k = fold batch_step ops m' k"
proof (induction ops arbitrary: m m')
  case (Cons x ops)
  have "batch_step x m k = batch_step x m' k"
    using Cons.prems by (rule batch_step_pointwise [of m k m'])
  then show ?case
    using Cons.IH [of "batch_step x m" "batch_step x m'"] by simp
qed simp

text \<open>A replay of the files is a replay of the entries on disk.\<close>

lemma replay_entries_append:
  "replay_entries eng pid fromSeq (es @ es') st =
     (case replay_entries eng pid fromSeq es st of
        (st', Some e) \<Rightarrow> (st', Some e)
      | (st', None) \<Rightarrow> replay_entries eng pid fromSeq es' st')"
  by (induction eng pid fromSeq es st rule: replay_entries.induct) (auto split: prod.splits option.splits)

lemma ReplayTo_disk:
  "cl_ReplayTo eng db fromSeq cl =
     replay_entries eng (cl_partitionID cl) fromSeq (disk_entries (log_files (cl_files cl))) (db, 0)"
proof -
  have "replay_files eng pid fromSeq fs st = replay_entries eng pid fromSeq (concat (map decode_all fs)) st" for pid fs st
    by (induction fs arbitrary: st) (auto simp: replay_entries_append split: prod.splits option.splits)
  then show ?thesis
    by (simp add: cl_ReplayTo_def disk_entries_def comp_def)
qed

text \<open>The sizes that the length fields of the log and of a field batch can hold.\<close>

definition write_fits :: "u32 \<Rightarrow> client_write \<Rightarrow> bool" where
  "write_fits i w \<longleftrightarrow> FieldBatch_fits (write_batch i w) \<and>
     (case write_cmd i w of (c, k, v) \<Rightarrow> length k < 2 ^ 32 \<and> length v < 2 ^ 32)"

text \<open>An entry that was logged for a write stands for the operations of the write.\<close>

lemma replicated_ops_log_entry:
  assumes "write_fits i w" and "write_cmd i w = (c, k, v)"
  shows "replicated_ops i (to_ReplicationEntry (log_entry ts seq c k v)) = write_ops i w"
proof (cases w)
  case (WSetFields pk fs)
  have "DecodeFieldBatch (FieldBatch_Encode (write_batch i w)) = Inr (write_batch i w)"
    using assms(1) by (simp add: write_fits_def DecodeFieldBatch_Encode)
  then show ?thesis
    using assms(2) by (auto simp: WSetFields replicated_ops_def to_ReplicationEntry_def log_entry_def Let_def
      CmdTypePut_def CmdTypeDelete_def CmdTypeFieldBatch_def)
next
  case (WDeleteField pk f)
  have "DecodeFieldBatch (FieldBatch_Encode (write_batch i w)) = Inr (write_batch i w)"
    using assms(1) by (simp add: write_fits_def DecodeFieldBatch_Encode)
  then show ?thesis
    using assms(2) by (auto simp: WDeleteField replicated_ops_def to_ReplicationEntry_def log_entry_def Let_def
      CmdTypePut_def CmdTypeDelete_def CmdTypeFieldBatch_def)
qed (use assms(2) in \<open>auto simp: replicated_ops_def to_ReplicationEntry_def log_entry_def Let_def
      CmdTypePut_def CmdTypeDelete_def CmdTypeFieldBatch_def\<close>)

section \<open>What a primary logs\<close>

lemma log_write_inv:
  assumes "map_of (srv_replicators s) i = Some clr" and "log_inv old cur (clr_commandLog clr)"
    and "\<not> cl_closed (clr_commandLog clr)" and "cl_currentSeq (clr_commandLog clr) \<noteq> -1"
    and "cl_currentFile (clr_commandLog clr) < now" and fits: "write_fits i w"
  shows "\<exists>cl' old' cur' e. map_of (srv_replicators (log_write ts now i w s)) i = Some (clr\<lparr>clr_commandLog := cl'\<rparr>) \<and>
     log_inv old' cur' cl' \<and> \<not> cl_closed cl' \<and> log_entries old' cur' = log_entries old cur @ [e] \<and>
     replicated_ops i (to_ReplicationEntry e) = write_ops i w"
proof -
  obtain c k v where cmd: "write_cmd i w = (c, k, v)"
    by (metis prod_cases3)
  have len: "length k < 2 ^ 32" "length v < 2 ^ 32"
    using fits cmd by (simp_all add: write_fits_def)
  let ?e = "log_entry ts (cl_currentSeq (clr_commandLog clr) + 1) c k v"
  obtain cl' old' cur' where "cl_Append ts now c k v (clr_commandLog clr) = (cl', Inr (cl_currentSeq (clr_commandLog clr) + 1))"
    "log_inv old' cur' cl'" "\<not> cl_closed cl'" "log_entries old' cur' = log_entries old cur @ [?e]"
    using Append_inv [OF assms(2,3) len assms(4,5), of ts c] by blast
  with assms(1) cmd replicated_ops_log_entry [OF fits cmd] show ?thesis
    by (intro exI [of _ cl'] exI [of _ old'] exI [of _ cur'] exI [of _ ?e])
      (simp add: log_write_def update_conv')
qed

text \<open>
  Writes that the primary of partition \<open>i\<close> acknowledged one after the other. The clock is
  ahead of the current log file and the sequence numbers are not exhausted.
\<close>

inductive primary_run ::
    "('db, 'x) engine_scheme \<Rightarrow> u32 \<Rightarrow> u64 \<Rightarrow> 'db Server \<Rightarrow> client_write list \<Rightarrow> 'db Server \<Rightarrow> bool" for eng i epoch where
  run_none: "primary_run eng i epoch s [] s"
| run_write: "primary_run eng i epoch s ws s' \<Longrightarrow> write_fits i w \<Longrightarrow>
     map_of (srv_replicators s') i = Some clr \<Longrightarrow> cl_currentFile (clr_commandLog clr) < now \<Longrightarrow>
     cl_currentSeq (clr_commandLog clr) \<noteq> -1 \<Longrightarrow>
     serve_write eng ts now i epoch w s' = (s'', resp) \<Longrightarrow> swr_success resp \<Longrightarrow>
     primary_run eng i epoch s (ws @ [w]) s''"

definition has_log :: "u32 \<Rightarrow> 'db Server \<Rightarrow> CommandEntry list \<Rightarrow> bool" where
  "has_log i s es \<longleftrightarrow> (\<exists>clr old cur. map_of (srv_replicators s) i = Some clr \<and> log_inv old cur (clr_commandLog clr) \<and>
     \<not> cl_closed (clr_commandLog clr) \<and> log_entries old cur = es)"

lemma primary_run_log:
  assumes "primary_run eng i epoch s ws s'" and eng: "rocks_engine eng view" and "has_log i s es0"
  shows "\<exists>es. has_log i s' (es0 @ es) \<and> map (\<lambda>e. replicated_ops i (to_ReplicationEntry e)) es = map (write_ops i) ws \<and>
     view (srv_db s') = fold batch_step (concat (map (write_ops i) ws)) (view (srv_db s))"
  using assms(1,3)
proof (induction rule: primary_run.induct)
  case (run_none s)
  then show ?case
    by (intro exI [of _ "[]"]) simp
next
  case (run_write s ws s' w clr now ts s'' resp)
  then obtain es where es: "has_log i s' (es0 @ es)"
    "map (\<lambda>e. replicated_ops i (to_ReplicationEntry e)) es = map (write_ops i) ws"
    "view (srv_db s') = fold batch_step (concat (map (write_ops i) ws)) (view (srv_db s))"
    by blast
  obtain s1 where s1: "view (srv_db s1) = fold batch_step (write_ops i w) (view (srv_db s'))"
    "srv_replicators s1 = srv_replicators s'" "s'' = log_write ts now i w s1"
    using rocks_engine.serve_write_effect [OF eng run_write.hyps(6)] run_write.hyps(7) by auto
  obtain old cur where l: "log_inv old cur (clr_commandLog clr)" "\<not> cl_closed (clr_commandLog clr)" "log_entries old cur = es0 @ es"
    using es(1) run_write.hyps(3) by (auto simp: has_log_def)
  have "map_of (srv_replicators s1) i = Some clr"
    using s1(2) run_write.hyps(3) by simp
  from log_write_inv [OF this l(1,2) run_write.hyps(5,4,2), of ts]
  obtain cl' old' cur' e where e: "map_of (srv_replicators s'') i = Some (clr\<lparr>clr_commandLog := cl'\<rparr>)"
    "log_inv old' cur' cl'" "\<not> cl_closed cl'" "log_entries old' cur' = (es0 @ es) @ [e]"
    "replicated_ops i (to_ReplicationEntry e) = write_ops i w"
    unfolding s1(3) l(3) by blast
  from e(1-4) have "has_log i s'' (es0 @ es @ [e])"
    unfolding has_log_def
    by (intro exI [of _ "clr\<lparr>clr_commandLog := cl'\<rparr>"] exI [of _ old'] exI [of _ cur']) simp
  moreover have "view (srv_db s'') = view (srv_db s1)"
    by (simp add: s1(3) log_write_def split: option.splits prod.splits)
  ultimately show ?case
    using es(2,3) s1(1) e(5) by (intro exI [of _ "es @ [e]"]) simp
qed

section \<open>Properties\<close>

text \<open>C6. Replication keeps primary and replica together. While a primary acknowledges writes to
  a partition, its command log grows by one entry for each, in order; a replica that accepts
  these entries ends with the same data: every key, of any kind, on which the two databases
  agreed before, they agree on afterwards.\<close>

theorem replica_follows_primary:
  assumes "rocks_engine eng view" and "primary_run eng i epoch s ws s'" and "has_log i s es0"
  shows "\<exists>es. has_log i s' (es0 @ es) \<and> length es = length ws \<and>
     (\<forall>eng2 view2 off t t' resp k. rocks_engine eng2 view2 \<and>
        Replicate eng2 \<lparr>rq_partition_id = i, rq_entries = map to_ReplicationEntry es, rq_commit_offset = off\<rparr> t = (t', resp) \<and>
        rr_success resp \<and> view (srv_db s) k = view2 (srv_db t) k \<longrightarrow>
        view (srv_db s') k = view2 (srv_db t') k)"
proof -
  obtain es where es: "has_log i s' (es0 @ es)"
    "map (\<lambda>e. replicated_ops i (to_ReplicationEntry e)) es = map (write_ops i) ws"
    "view (srv_db s') = fold batch_step (concat (map (write_ops i) ws)) (view (srv_db s))"
    using primary_run_log [OF assms(2,1,3)] by blast
  have "view (srv_db s') k = view2 (srv_db t') k"
    if eng2: "rocks_engine eng2 view2" and rep: "Replicate eng2 \<lparr>rq_partition_id = i,
          rq_entries = map to_ReplicationEntry es, rq_commit_offset = off\<rparr> t = (t', resp)" and ok: "rr_success resp"
      and k: "view (srv_db s) k = view2 (srv_db t) k" for eng2 view2 off t t' resp k
  proof -
    have "replicate_entries eng2 i (map to_ReplicationEntry es) 0 t = (t', resp)"
      using rep ok by (auto simp: Replicate_def split: if_splits)
    from rocks_engine.replicate_entries_view [OF eng2 this] ok
    have "view2 (srv_db t') = fold batch_step (concat (map (\<lambda>e. replicated_ops i (to_ReplicationEntry e)) es)) (view2 (srv_db t))"
      by (auto simp: comp_def)
    then show ?thesis
      using fold_batch_pointwise [of "view (srv_db s)" k "view2 (srv_db t)", OF k] by (simp only: es(2,3))
  qed
  moreover have "length es = length ws"
    using arg_cong [OF es(2), of length] by simp
  ultimately show ?thesis
    using es(1) by blast
qed

definition example_primary :: "mem Server" where
  "example_primary = (example_server True)\<lparr>srv_replicators :=
     [(7, \<lparr>clr_partitionID = 7, clr_replicaAddr = ''n2'', clr_isPrimary = True, clr_commandLog = empty_log 7 3,
           clr_checkpoint = None, clr_replicatedSeq = 0, clr_connected = False, clr_running = True\<rparr>)]\<rparr>"

theorem replica_follows_primary_witness:
  "\<exists>s' es. primary_run (mem_engine None) 7 3 example_primary [WPut [1] [11]] s' \<and> has_log 7 s' es \<and> length es = 1"
proof -
  let ?r = "serve_write (mem_engine None) 0 4 7 3 (WPut [1] [11]) example_primary"
  have ok: "swr_success (snd ?r)"
    by (simp add: srv_Put_def example_simps example_primary_def pm_Put_def RocksDB_Put_def mem_engine_def mem_write_def)
  have "primary_run (mem_engine None) 7 3 example_primary ([] @ [WPut [1] [11]]) (fst ?r)"
  proof (rule run_write [OF run_none])
    show "write_fits 7 (WPut [1] [11])"
      by (simp add: write_fits_def FieldBatch_fits_def)
    show "map_of (srv_replicators example_primary) 7 = Some (snd (hd (srv_replicators example_primary)))"
      "cl_currentFile (clr_commandLog (snd (hd (srv_replicators example_primary)))) < 4"
      "cl_currentSeq (clr_commandLog (snd (hd (srv_replicators example_primary)))) \<noteq> -1"
      by (simp_all add: example_primary_def empty_log(3,5))
    show "?r = (fst ?r, snd ?r)" "swr_success (snd ?r)"
      by (simp_all add: ok del: serve_write.simps)
  qed
  moreover have "has_log 7 example_primary []"
    using empty_log(2,4) [of 7 3] by (auto simp: has_log_def example_primary_def log_entries_def)
  ultimately show ?thesis
    using replica_follows_primary [OF mem.rocks_engine_axioms, of None 7 3 example_primary "[WPut [1] [11]]" "fst ?r" "[]"] by auto
qed

text \<open>What a replay of puts and deletes does to the raw keys.\<close>

definition raw_write :: "CommandEntry \<Rightarrow> contents \<Rightarrow> contents" where
  "raw_write e m = m(ce_Key e := (if ce_CmdType e = CmdTypePut then Some (ce_Value e) else None))"

lemma replay_raw:
  assumes "\<forall>e \<in> set es. ce_CmdType e \<in> {CmdTypePut, CmdTypeDelete} \<and> 0 < ce_Sequence e"
  shows "fold batch_step (replay_ops pid 0 es) m = fold raw_write es m"
  using assms
proof (induction es arbitrary: m)
  case (Cons e es)
  have "fold batch_step (entry_ops pid e) m = raw_write e m"
    using Cons.prems by (auto simp: entry_ops_def raw_write_def CmdTypePut_def CmdTypeDelete_def)
  with Cons show ?case
    by (simp add: replay_ops_def)
qed (simp add: replay_ops_def)

lemma raw_writes_elsewhere:
  "\<forall>e \<in> set es. ce_Key e \<noteq> k \<Longrightarrow> fold raw_write es m k = m k"
  by (induction es arbitrary: m) (auto simp: raw_write_def)

text \<open>C40. \<open>RecoverPartition\<close> does not restore the partition: the log has the clients' keys, and
  the replay uses them as database keys, without the partition prefix. A log of any puts and deletes
  is replayed onto the raw client keys; and unless a client key happens to have the form of a
  storage key of the partition, the contents of the partition stay exactly as they were.\<close>

theorem recovery_writes_raw_keys:
  assumes eng: "rocks_engine eng view" and clr: "map_of (srv_replicators s) i = Some clr"
    and disk: "disk_entries (log_files (cl_files (clr_commandLog clr))) = es"
    and plain: "\<forall>e \<in> set es. ce_CmdType e \<in> {CmdTypePut, CmdTypeDelete} \<and> 0 < ce_Sequence e"
    and rec: "RecoverPartition eng i s = (s', None)"
  shows "view (srv_db s') = fold raw_write es (view (srv_db s)) \<and>
     ((\<forall>e \<in> set es. \<forall>k. ce_Key e \<noteq> MakePartitionKey i k) \<longrightarrow>
        partition_view (view (srv_db s')) i = partition_view (view (srv_db s)) i)"
proof -
  obtain db lastSeq where "cl_ReplayTo eng (srv_db s) 0 (clr_commandLog clr) = ((db, lastSeq), None)" "s' = set_db db s"
    using rec clr by (auto simp: RecoverPartition_def clr_ReplayTo_def split: prod.splits)
  with rocks_engine.ReplayTo_view [OF eng this(1)] disk
  have "view (srv_db s') = fold raw_write es (view (srv_db s))"
    by (simp add: replay_raw [OF plain])
  then show ?thesis
    using raw_writes_elsewhere by (auto simp: partition_view_def fun_eq_iff)
qed

theorem recovery_writes_raw_keys_witness:
  "let s = (example_server True)\<lparr>srv_replicators := [(7, example_clr)]\<rparr>; s' = fst (RecoverPartition (mem_engine None) 7 s)
   in map_of (srv_db s') = [MakePartitionKey 7 [1] \<mapsto> [10], [1] \<mapsto> [2]] \<and>
      partition_view (map_of (srv_db s')) 7 = partition_view (map_of (srv_db s)) 7"
proof -
  let ?s = "(example_server True)\<lparr>srv_replicators := [(7, example_clr)]\<rparr>"
  let ?r = "RecoverPartition (mem_engine None) 7 ?s"
  let ?e = "log_entry 5 1 CmdTypePut [1] [2]"
  have "snd ?r = None"
    by (simp add: RecoverPartition_def clr_ReplayTo_def ReplayTo_disk example_clr(3) log_entry_def Let_def apply_entry_def
        RocksDB_Put_def mem_engine_def mem_write_def split: prod.splits)
  then have r: "?r = (fst ?r, None)"
    by (metis prod.collapse)
  have e: "ce_CmdType ?e = CmdTypePut" "ce_Sequence ?e = 1" "ce_Key ?e = [1]" "ce_Value ?e = [2]"
    by (simp_all add: log_entry_def Let_def)
  have "MakePartitionKey 7 k \<noteq> [1]" for k
    by (rule notI, drule arg_cong [where f = length]) simp
  with recovery_writes_raw_keys [OF mem.rocks_engine_axioms _ example_clr(3) _ r] show ?thesis
    by (simp add: e raw_write_def example_server_def partition_view_def eq_commute [of "[1]"])
qed

end
