(* ===== verification/Compute.thy ===== *)
theory Compute
  imports Keys Proto "HOL-Library.AList" "HOL-Library.Sublist"
begin

text \<open>
  The compute node: the router with its copy of the route table (\<open>src/pkg/compute/router.go\<close>),
  the pool of connections to storage nodes (\<open>pool.go\<close>) and the handlers of the key-value
  service (\<open>server.go\<close>).

  The storage nodes and the gRPC connections to them are a record of operations on a state
  \<open>'n\<close>, the network; the locale \<open>storage_service\<close> states what the handlers rely on. A request
  is the list of its fields. Deadlines of calls show as errors of the network; metrics and
  logging are not represented.
\<close>

section \<open>The router\<close>

record compute_PartitionInfo =
  cpi_ID :: u32
  cpi_Primary :: NodeID
  cpi_Replica :: NodeID
  cpi_Status :: PartitionStatus
  cpi_MigrationTarget :: NodeID
  cpi_MigrationState :: MigrationState
  cpi_Epoch :: u64

record compute_RouteTable =
  crt_Version :: u64
  crt_Partitions :: "(u32 \<times> compute_PartitionInfo) list"

record compute_Router =
  cr_metadataAddr :: string
  cr_nodeID :: NodeID
  cr_routeTable :: compute_RouteTable

definition compute_NewRouter :: "NodeID \<Rightarrow> string \<Rightarrow> compute_Router" where
  "compute_NewRouter nodeID metadataAddr =
     \<lparr>cr_metadataAddr = metadataAddr, cr_nodeID = nodeID, cr_routeTable = \<lparr>crt_Version = 0, crt_Partitions = []\<rparr>\<rparr>"

definition compute_TotalPartitions :: nat where "compute_TotalPartitions = 4096"

definition compute_CalculatePartition :: "(bytes \<Rightarrow> u64) \<Rightarrow> bytes \<Rightarrow> u32" where
  "compute_CalculatePartition sum64 key = ucast (sum64 key mod of_nat compute_TotalPartitions)"

text \<open>The results are primary, replica, partition and epoch.\<close>

definition GetPartitionNodesByID :: "compute_Router \<Rightarrow> u32 \<Rightarrow> err + NodeID \<times> NodeID \<times> u32 \<times> u64" where
  "GetPartitionNodesByID r partitionID =
     (case map_of (crt_Partitions (cr_routeTable r)) partitionID of
        None \<Rightarrow> Inl (ErrPartitionNotFound partitionID)
      | Some part \<Rightarrow> Inr (cpi_Primary part, cpi_Replica part, partitionID, cpi_Epoch part))"

definition compute_GetPartitionNodes ::
    "(bytes \<Rightarrow> u64) \<Rightarrow> compute_Router \<Rightarrow> bytes \<Rightarrow> err + NodeID \<times> NodeID \<times> u32 \<times> u64" where
  "compute_GetPartitionNodes sum64 r key = GetPartitionNodesByID r (compute_CalculatePartition sum64 key)"

definition GetWriteTargetsByID :: "compute_Router \<Rightarrow> u32 \<Rightarrow> err + NodeID list \<times> u32 \<times> u64" where
  "GetWriteTargetsByID r partitionID =
     (case map_of (crt_Partitions (cr_routeTable r)) partitionID of
        None \<Rightarrow> Inl (ErrPartitionNotFound partitionID)
      | Some part \<Rightarrow>
          let targets = [cpi_Primary part, cpi_Replica part];
              targets =
                (if cpi_MigrationState part = MIGRATION_COPYING \<or> cpi_MigrationState part = MIGRATION_CATCHUP
                 then if cpi_MigrationTarget part \<noteq> [] \<and> cpi_MigrationTarget part \<noteq> cpi_Primary part \<and>
                         cpi_MigrationTarget part \<noteq> cpi_Replica part
                      then targets @ [cpi_MigrationTarget part] else targets
                 else targets)
          in Inr (targets, partitionID, cpi_Epoch part))"

definition GetWriteTargets :: "(bytes \<Rightarrow> u64) \<Rightarrow> compute_Router \<Rightarrow> bytes \<Rightarrow> err + NodeID list \<times> u32 \<times> u64" where
  "GetWriteTargets sum64 r key = GetWriteTargetsByID r (compute_CalculatePartition sum64 key)"

definition IsMigrating :: "compute_Router \<Rightarrow> u32 \<Rightarrow> bool" where
  "IsMigrating r partitionID =
     (case map_of (crt_Partitions (cr_routeTable r)) partitionID of
        None \<Rightarrow> False
      | Some part \<Rightarrow> cpi_MigrationState part \<noteq> MIGRATION_NONE \<and> cpi_MigrationState part \<noteq> MIGRATION_COMPLETE)"

definition from_pb :: "pb_PartitionInfo \<Rightarrow> compute_PartitionInfo" where
  "from_pb p =
     \<lparr>cpi_ID = pbi_partition_id p, cpi_Primary = pbi_primary p, cpi_Replica = pbi_replica p, cpi_Status = pbi_status p,
      cpi_MigrationTarget = pbi_migration_target p, cpi_MigrationState = pbi_migration_state p, cpi_Epoch = pbi_epoch p\<rparr>"

text \<open>The assignments \<open>newTable.Partitions[p.PartitionId] = ...\<close>, one after the other.\<close>

definition store_partitions ::
    "pb_PartitionInfo list \<Rightarrow> (u32 \<times> compute_PartitionInfo) list \<Rightarrow> (u32 \<times> compute_PartitionInfo) list" where
  "store_partitions ps table = fold (\<lambda>p. AList.update (pbi_partition_id p) (from_pb p)) ps table"

definition compute_updateRouteTable :: "pb_RouteTable \<Rightarrow> compute_Router \<Rightarrow> compute_Router" where
  "compute_updateRouteTable pbTable r =
     r\<lparr>cr_routeTable := \<lparr>crt_Version = pbt_version pbTable, crt_Partitions = store_partitions (pbt_partitions pbTable) []\<rparr>\<rparr>"

definition updateRouteTableFromUpdate :: "RouteUpdate \<Rightarrow> compute_Router \<Rightarrow> compute_Router" where
  "updateRouteTableFromUpdate update r =
     (let currentTable = cr_routeTable r in
      if pbu_version update \<le> crt_Version currentTable then r
      else r\<lparr>cr_routeTable := \<lparr>crt_Version = pbu_version update,
                crt_Partitions = store_partitions (pbu_partitions update) (crt_Partitions currentTable)\<rparr>\<rparr>)"

text \<open>\<open>get\<close> is the call of the metadata service; its response may have no route table.\<close>

definition refreshRouteTable ::
    "(u64 \<Rightarrow> err + pb_RouteTable option) \<Rightarrow> compute_Router \<Rightarrow> compute_Router \<times> err option" where
  "refreshRouteTable get r =
     (case get (crt_Version (cr_routeTable r)) of
        Inl e \<Rightarrow> (r, Some e)
      | Inr None \<Rightarrow> (r, None)
      | Inr (Some pbTable) \<Rightarrow>
          if pbt_partitions pbTable = [] then (r, None) else (compute_updateRouteTable pbTable r, None))"

section \<open>The connection pool\<close>

text \<open>A gRPC connection; two connections to one address differ in their number.\<close>

record Conn =
  conn_target :: string
  conn_number :: nat

text \<open>
  What gRPC and the storage nodes offer. \<open>sn_GetState\<close> is the state of a connection as a
  number, 4 for one that was shut down.
\<close>

record 'n storage_net =
  sn_Dial :: "'n \<Rightarrow> string \<Rightarrow> err + Conn"
  sn_GetState :: "'n \<Rightarrow> Conn \<Rightarrow> nat"
  sn_Close :: "Conn \<Rightarrow> 'n \<Rightarrow> 'n \<times> err option"
  sn_Get :: "Conn \<Rightarrow> StorageGetRequest \<Rightarrow> 'n \<Rightarrow> 'n \<times> (err + StorageGetResponse)"
  sn_Put :: "Conn \<Rightarrow> StoragePutRequest \<Rightarrow> 'n \<Rightarrow> 'n \<times> (err + StorageWriteResponse)"
  sn_Delete :: "Conn \<Rightarrow> StorageDeleteRequest \<Rightarrow> 'n \<Rightarrow> 'n \<times> (err + StorageWriteResponse)"
  sn_GetField :: "Conn \<Rightarrow> StorageGetFieldRequest \<Rightarrow> 'n \<Rightarrow> 'n \<times> (err + StorageGetResponse)"
  sn_SetFields :: "Conn \<Rightarrow> StorageSetFieldsRequest \<Rightarrow> 'n \<Rightarrow> 'n \<times> (err + StorageWriteResponse)"
  sn_DeleteField :: "Conn \<Rightarrow> StorageDeleteFieldRequest \<Rightarrow> 'n \<Rightarrow> 'n \<times> (err + StorageWriteResponse)"
  sn_GetAllFields :: "Conn \<Rightarrow> StorageGetAllFieldsRequest \<Rightarrow> 'n \<Rightarrow> 'n \<times> (err + StorageGetAllFieldsResponse)"
  sn_BatchPut :: "Conn \<Rightarrow> StorageBatchPutRequest \<Rightarrow> 'n \<Rightarrow> 'n \<times> (err + StorageBatchPutResponse)"

record ConnectionPool =
  pool_conns :: "(string \<times> Conn) list"

definition NewConnectionPool :: ConnectionPool where
  "NewConnectionPool = \<lparr>pool_conns = []\<rparr>"

text \<open>The part of \<open>getConn\<close> that runs under the write lock.\<close>

definition getConn_locked ::
    "('n, 'x) storage_net_scheme \<Rightarrow> 'n \<Rightarrow> string \<Rightarrow> ConnectionPool \<Rightarrow> ConnectionPool \<times> (err + Conn)" where
  "getConn_locked net n addr p =
     (case map_of (pool_conns p) addr of
        Some conn \<Rightarrow> (p, Inr conn)
      | None \<Rightarrow>
          (case sn_Dial net n addr of
             Inl e \<Rightarrow> (p, Inl e)
           | Inr conn \<Rightarrow> (p\<lparr>pool_conns := AList.update addr conn (pool_conns p)\<rparr>, Inr conn)))"

definition getConn ::
    "('n, 'x) storage_net_scheme \<Rightarrow> 'n \<Rightarrow> string \<Rightarrow> ConnectionPool \<Rightarrow> ConnectionPool \<times> (err + Conn)" where
  "getConn net n addr p =
     (case map_of (pool_conns p) addr of
        None \<Rightarrow> getConn_locked net n addr p
      | Some conn \<Rightarrow>
          if sn_GetState net n conn \<noteq> 4 then (p, Inr conn)
          else getConn_locked net n addr (p\<lparr>pool_conns := AList.delete addr (pool_conns p)\<rparr>))"

definition pool_Close :: "('n, 'x) storage_net_scheme \<Rightarrow> ConnectionPool \<Rightarrow> 'n \<Rightarrow> ConnectionPool \<times> 'n" where
  "pool_Close net p n =
     (p\<lparr>pool_conns := []\<rparr>, fold (\<lambda>(addr, conn) n. fst (sn_Close net conn n)) (pool_conns p) n)"

definition RemoveConn ::
    "('n, 'x) storage_net_scheme \<Rightarrow> string \<Rightarrow> ConnectionPool \<Rightarrow> 'n \<Rightarrow> ConnectionPool \<times> 'n" where
  "RemoveConn net addr p n =
     (case map_of (pool_conns p) addr of
        None \<Rightarrow> (p, n)
      | Some conn \<Rightarrow>
          (p\<lparr>pool_conns := AList.delete addr (pool_conns p)\<rparr>, fst (sn_Close net conn n)))"

definition pool_Size :: "ConnectionPool \<Rightarrow> nat" where
  "pool_Size p = length (pool_conns p)"

record NodeResolver =
  nr_cache :: "(NodeID \<times> string) list"

definition NewNodeResolver :: NodeResolver where
  "NewNodeResolver = \<lparr>nr_cache = []\<rparr>"

definition ResolveAddr :: "NodeID \<Rightarrow> NodeResolver \<Rightarrow> NodeResolver \<times> string" where
  "ResolveAddr nodeID nr =
     (case map_of (nr_cache nr) nodeID of
        Some addr \<Rightarrow> (nr, addr)
      | None \<Rightarrow> (nr\<lparr>nr_cache := AList.update nodeID nodeID (nr_cache nr)\<rparr>, nodeID))"

definition InvalidateCache :: "NodeID \<Rightarrow> NodeResolver \<Rightarrow> NodeResolver" where
  "InvalidateCache nodeID nr = nr\<lparr>nr_cache := AList.delete nodeID (nr_cache nr)\<rparr>"

section \<open>The server\<close>

record compute_ServerConfig =
  ccfg_NodeID :: NodeID
  ccfg_ListenAddr :: string
  ccfg_MetadataAddr :: string

definition compute_DefaultServerConfig :: compute_ServerConfig where
  "compute_DefaultServerConfig =
     \<lparr>ccfg_NodeID = ''compute-1'', ccfg_ListenAddr = '':8000'', ccfg_MetadataAddr = ''localhost:9000''\<rparr>"

record compute_Server =
  cs_config :: compute_ServerConfig
  cs_router :: compute_Router
  cs_pool :: ConnectionPool
  cs_nodeResolver :: NodeResolver

definition compute_NewServer :: "compute_ServerConfig option \<Rightarrow> compute_Server" where
  "compute_NewServer config =
     (let config = (case config of None \<Rightarrow> compute_DefaultServerConfig | Some c \<Rightarrow> c)
      in \<lparr>cs_config = config, cs_router = compute_NewRouter (ccfg_NodeID config) (ccfg_MetadataAddr config),
          cs_pool = NewConnectionPool, cs_nodeResolver = NewNodeResolver\<rparr>)"

text \<open>
  A handler runs on the server and the network. Every \<open>do...\<close> function opens by resolving
  the node and taking a connection from the pool.
\<close>

definition storage_client ::
    "('n, 'x) storage_net_scheme \<Rightarrow> NodeID \<Rightarrow> compute_Server \<times> 'n \<Rightarrow> compute_Server \<times> (err + Conn)" where
  "storage_client net nodeID = (\<lambda>(s, n).
     let (nr, addr) = ResolveAddr nodeID (cs_nodeResolver s);
         (p, c) = getConn net n addr (cs_pool s)
     in (s\<lparr>cs_nodeResolver := nr, cs_pool := p\<rparr>, c))"

text \<open>One call on the node: no connection and a failed call are errors, \<open>k\<close> reads the response.\<close>

definition on_node ::
    "('n, 'x) storage_net_scheme \<Rightarrow> NodeID \<Rightarrow> (Conn \<Rightarrow> 'n \<Rightarrow> 'n \<times> (err + 'r)) \<Rightarrow> ('r \<Rightarrow> err + 'a) \<Rightarrow>
     compute_Server \<times> 'n \<Rightarrow> (compute_Server \<times> 'n) \<times> (err + 'a)" where
  "on_node net nodeID call k = (\<lambda>(s, n).
     case storage_client net nodeID (s, n) of
       (s, Inl e) \<Rightarrow> ((s, n), Inl e)
     | (s, Inr conn) \<Rightarrow>
         (case call conn n of
            (n, Inl e) \<Rightarrow> ((s, n), Inl e)
          | (n, Inr resp) \<Rightarrow> ((s, n), k resp)))"

definition storage_error :: "ErrorCode \<Rightarrow> err" where
  "storage_error code = ErrText (''storage error: '' @ ErrorCode_String code)"

definition write_result :: "bool \<Rightarrow> ErrorCode \<Rightarrow> err + unit" where
  "write_result success code = (if \<not> success \<or> code \<noteq> OK then Inl (storage_error code) else Inr ())"

definition doGet ::
    "('n, 'x) storage_net_scheme \<Rightarrow> NodeID \<Rightarrow> bytes \<Rightarrow> u32 \<Rightarrow> compute_Server \<times> 'n \<Rightarrow>
     (compute_Server \<times> 'n) \<times> (err + GetResponse)" where
  "doGet net nodeID key partitionID =
     on_node net nodeID (\<lambda>conn. sn_Get net conn \<lparr>sgq_key = key, sgq_partition_id = partitionID\<rparr>)
       (\<lambda>resp. if sgr_error resp \<noteq> OK then Inl (storage_error (sgr_error resp))
               else Inr \<lparr>gr_value = sgr_value resp, gr_found = sgr_found resp\<rparr>)"

text \<open>Reads ask the primary and, if that fails, the replica.\<close>

definition with_fallback ::
    "(NodeID \<Rightarrow> 'st \<Rightarrow> 'st \<times> (err + 'a)) \<Rightarrow> NodeID \<Rightarrow> NodeID \<Rightarrow> 'st \<Rightarrow> 'st \<times> (err + 'a)" where
  "with_fallback f primary replica st =
     (case f primary st of
        (st, Inr resp) \<Rightarrow> (st, Inr resp)
      | (st, Inl _) \<Rightarrow>
          (case f replica st of
             (st, Inl e) \<Rightarrow> (st, Inl (ErrStatus Code_Internal e))
           | (st, Inr resp) \<Rightarrow> (st, Inr resp)))"

definition compute_Get ::
    "(bytes \<Rightarrow> u64) \<Rightarrow> ('n, 'x) storage_net_scheme \<Rightarrow> bytes \<Rightarrow> compute_Server \<times> 'n \<Rightarrow>
     (compute_Server \<times> 'n) \<times> (err + GetResponse)" where
  "compute_Get sum64 net key st =
     (case compute_GetPartitionNodes sum64 (cs_router (fst st)) key of
        Inl e \<Rightarrow> (st, Inl (ErrStatus Code_Internal e))
      | Inr (primary, replica, partitionID, _) \<Rightarrow>
          with_fallback (\<lambda>nodeID. doGet net nodeID key partitionID) primary replica st)"

definition doPut ::
    "('n, 'x) storage_net_scheme \<Rightarrow> NodeID \<Rightarrow> bytes \<Rightarrow> bytes \<Rightarrow> u32 \<Rightarrow> u64 \<Rightarrow> compute_Server \<times> 'n \<Rightarrow>
     (compute_Server \<times> 'n) \<times> (err + unit)" where
  "doPut net nodeID key val partitionID epoch =
     on_node net nodeID
       (\<lambda>conn. sn_Put net conn \<lparr>spq_key = key, spq_value = val, spq_partition_id = partitionID, spq_epoch = epoch\<rparr>)
       (\<lambda>resp. write_result (swr_success resp) (swr_error resp))"

text \<open>A write goes to the primary only; \<open>send\<close> is the \<open>do...\<close> function.\<close>

definition to_primary ::
    "(bytes \<Rightarrow> u64) \<Rightarrow> bytes \<Rightarrow> (NodeID \<Rightarrow> u32 \<Rightarrow> u64 \<Rightarrow> compute_Server \<times> 'n \<Rightarrow> (compute_Server \<times> 'n) \<times> (err + unit)) \<Rightarrow>
     compute_Server \<times> 'n \<Rightarrow> (compute_Server \<times> 'n) \<times> (err + bool)" where
  "to_primary sum64 key send st =
     (case compute_GetPartitionNodes sum64 (cs_router (fst st)) key of
        Inl e \<Rightarrow> (st, Inl (ErrStatus Code_Internal e))
      | Inr (primary, _, partitionID, epoch) \<Rightarrow>
          (case send primary partitionID epoch st of
             (st, Inl e) \<Rightarrow> (st, Inl (ErrStatus Code_Internal e))
           | (st, Inr _) \<Rightarrow> (st, Inr True)))"

definition compute_Put ::
    "(bytes \<Rightarrow> u64) \<Rightarrow> ('n, 'x) storage_net_scheme \<Rightarrow> bytes \<Rightarrow> bytes \<Rightarrow> compute_Server \<times> 'n \<Rightarrow>
     (compute_Server \<times> 'n) \<times> (err + bool)" where
  "compute_Put sum64 net key val =
     to_primary sum64 key (\<lambda>nodeID partitionID epoch. doPut net nodeID key val partitionID epoch)"

definition doDelete ::
    "('n, 'x) storage_net_scheme \<Rightarrow> NodeID \<Rightarrow> bytes \<Rightarrow> u32 \<Rightarrow> u64 \<Rightarrow> compute_Server \<times> 'n \<Rightarrow>
     (compute_Server \<times> 'n) \<times> (err + unit)" where
  "doDelete net nodeID key partitionID epoch =
     on_node net nodeID
       (\<lambda>conn. sn_Delete net conn \<lparr>sdq_key = key, sdq_partition_id = partitionID, sdq_epoch = epoch\<rparr>)
       (\<lambda>resp. write_result (swr_success resp) (swr_error resp))"

definition compute_Delete ::
    "(bytes \<Rightarrow> u64) \<Rightarrow> ('n, 'x) storage_net_scheme \<Rightarrow> bytes \<Rightarrow> compute_Server \<times> 'n \<Rightarrow>
     (compute_Server \<times> 'n) \<times> (err + bool)" where
  "compute_Delete sum64 net key =
     to_primary sum64 key (\<lambda>nodeID partitionID epoch. doDelete net nodeID key partitionID epoch)"

definition doGetField ::
    "('n, 'x) storage_net_scheme \<Rightarrow> NodeID \<Rightarrow> bytes \<Rightarrow> bytes \<Rightarrow> u32 \<Rightarrow> compute_Server \<times> 'n \<Rightarrow>
     (compute_Server \<times> 'n) \<times> (err + GetResponse)" where
  "doGetField net nodeID pk fieldName partitionID =
     on_node net nodeID
       (\<lambda>conn. sn_GetField net conn \<lparr>sgf_primary_key = pk, sgf_field_name = fieldName, sgf_partition_id = partitionID\<rparr>)
       (\<lambda>resp. if sgr_error resp \<noteq> OK then Inl (storage_error (sgr_error resp))
               else Inr \<lparr>gr_value = sgr_value resp, gr_found = sgr_found resp\<rparr>)"

definition compute_GetField ::
    "(bytes \<Rightarrow> u64) \<Rightarrow> ('n, 'x) storage_net_scheme \<Rightarrow> bytes \<Rightarrow> bytes \<Rightarrow> compute_Server \<times> 'n \<Rightarrow>
     (compute_Server \<times> 'n) \<times> (err + GetResponse)" where
  "compute_GetField sum64 net pk fieldName st =
     (case compute_GetPartitionNodes sum64 (cs_router (fst st)) pk of
        Inl e \<Rightarrow> (st, Inl (ErrStatus Code_Internal e))
      | Inr (primary, replica, partitionID, _) \<Rightarrow>
          with_fallback (\<lambda>nodeID. doGetField net nodeID pk fieldName partitionID) primary replica st)"

definition doSetFields ::
    "('n, 'x) storage_net_scheme \<Rightarrow> NodeID \<Rightarrow> bytes \<Rightarrow> FieldValue list \<Rightarrow> u32 \<Rightarrow> u64 \<Rightarrow> compute_Server \<times> 'n \<Rightarrow>
     (compute_Server \<times> 'n) \<times> (err + unit)" where
  "doSetFields net nodeID pk fvs partitionID epoch =
     on_node net nodeID
       (\<lambda>conn. sn_SetFields net conn
          \<lparr>ssf_primary_key = pk, ssf_fields = fvs, ssf_partition_id = partitionID, ssf_epoch = epoch\<rparr>)
       (\<lambda>resp. write_result (swr_success resp) (swr_error resp))"

definition compute_SetFields ::
    "(bytes \<Rightarrow> u64) \<Rightarrow> ('n, 'x) storage_net_scheme \<Rightarrow> bytes \<Rightarrow> FieldValue list \<Rightarrow> compute_Server \<times> 'n \<Rightarrow>
     (compute_Server \<times> 'n) \<times> (err + bool)" where
  "compute_SetFields sum64 net pk fvs =
     to_primary sum64 pk (\<lambda>nodeID partitionID epoch. doSetFields net nodeID pk fvs partitionID epoch)"

definition compute_SetField ::
    "(bytes \<Rightarrow> u64) \<Rightarrow> ('n, 'x) storage_net_scheme \<Rightarrow> bytes \<Rightarrow> bytes \<Rightarrow> bytes \<Rightarrow> compute_Server \<times> 'n \<Rightarrow>
     (compute_Server \<times> 'n) \<times> (err + bool)" where
  "compute_SetField sum64 net pk fieldName val =
     to_primary sum64 pk (\<lambda>nodeID partitionID epoch. doSetFields net nodeID pk
       [\<lparr>fv_field_name = fieldName, fv_value = val, fv_is_delete = False\<rparr>] partitionID epoch)"

definition doDeleteField ::
    "('n, 'x) storage_net_scheme \<Rightarrow> NodeID \<Rightarrow> bytes \<Rightarrow> bytes \<Rightarrow> u32 \<Rightarrow> u64 \<Rightarrow> compute_Server \<times> 'n \<Rightarrow>
     (compute_Server \<times> 'n) \<times> (err + unit)" where
  "doDeleteField net nodeID pk fieldName partitionID epoch =
     on_node net nodeID
       (\<lambda>conn. sn_DeleteField net conn
          \<lparr>sdf_primary_key = pk, sdf_field_name = fieldName, sdf_partition_id = partitionID, sdf_epoch = epoch\<rparr>)
       (\<lambda>resp. write_result (swr_success resp) (swr_error resp))"

definition compute_DeleteField ::
    "(bytes \<Rightarrow> u64) \<Rightarrow> ('n, 'x) storage_net_scheme \<Rightarrow> bytes \<Rightarrow> bytes \<Rightarrow> compute_Server \<times> 'n \<Rightarrow>
     (compute_Server \<times> 'n) \<times> (err + bool)" where
  "compute_DeleteField sum64 net pk fieldName =
     to_primary sum64 pk (\<lambda>nodeID partitionID epoch. doDeleteField net nodeID pk fieldName partitionID epoch)"

definition doGetAllFields ::
    "('n, 'x) storage_net_scheme \<Rightarrow> NodeID \<Rightarrow> bytes \<Rightarrow> u32 \<Rightarrow> compute_Server \<times> 'n \<Rightarrow>
     (compute_Server \<times> 'n) \<times> (err + GetAllFieldsResponse)" where
  "doGetAllFields net nodeID pk partitionID =
     on_node net nodeID (\<lambda>conn. sn_GetAllFields net conn \<lparr>saf_primary_key = pk, saf_partition_id = partitionID\<rparr>)
       (\<lambda>resp. if sga_error resp \<noteq> OK then Inl (storage_error (sga_error resp))
               else Inr \<lparr>gaf_fields = sga_fields resp, gaf_found = sga_found resp\<rparr>)"

definition compute_GetAllFields ::
    "(bytes \<Rightarrow> u64) \<Rightarrow> ('n, 'x) storage_net_scheme \<Rightarrow> bytes \<Rightarrow> compute_Server \<times> 'n \<Rightarrow>
     (compute_Server \<times> 'n) \<times> (err + GetAllFieldsResponse)" where
  "compute_GetAllFields sum64 net pk st =
     (case compute_GetPartitionNodes sum64 (cs_router (fst st)) pk of
        Inl e \<Rightarrow> (st, Inl (ErrStatus Code_Internal e))
      | Inr (primary, replica, partitionID, _) \<Rightarrow>
          with_fallback (\<lambda>nodeID. doGetAllFields net nodeID pk partitionID) primary replica st)"

fun compute_BatchGet ::
    "(bytes \<Rightarrow> u64) \<Rightarrow> ('n, 'x) storage_net_scheme \<Rightarrow> bytes list \<Rightarrow> compute_Server \<times> 'n \<Rightarrow>
     (compute_Server \<times> 'n) \<times> pb_KeyValue list" where
  "compute_BatchGet sum64 net [] st = (st, [])"
| "compute_BatchGet sum64 net (key # keys) st =
     (let (st, r) = compute_Get sum64 net key st;
          item = (case r of
                    Inl _ \<Rightarrow> \<lparr>pkv_key = key, pkv_value = [], pkv_found = False\<rparr>
                  | Inr resp \<Rightarrow> \<lparr>pkv_key = key, pkv_value = gr_value resp, pkv_found = gr_found resp\<rparr>);
          (st, items) = compute_BatchGet sum64 net keys st
      in (st, item # items))"

definition doBatchPut ::
    "('n, 'x) storage_net_scheme \<Rightarrow> NodeID \<Rightarrow> pb_KeyValue list \<Rightarrow> u32 \<Rightarrow> u64 \<Rightarrow> compute_Server \<times> 'n \<Rightarrow>
     (compute_Server \<times> 'n) \<times> (err + unit)" where
  "doBatchPut net nodeID items partitionID epoch =
     on_node net nodeID
       (\<lambda>conn. sn_BatchPut net conn \<lparr>sbq_items = items, sbq_partition_id = partitionID, sbq_epoch = epoch\<rparr>)
       (\<lambda>resp. write_result (sbp_success resp) (sbp_error resp))"

text \<open>
  The items of a batch by partition. The loop over this map takes it in any order,
  \<open>order\<close>, and starts a goroutine for each partition until one cannot be routed; the
  goroutines finish in any order, \<open>finish\<close> of the started ones. They run also when the
  handler has returned early.
\<close>

definition items_at :: "(u32 \<times> pb_KeyValue list) list \<Rightarrow> u32 \<Rightarrow> pb_KeyValue list" where
  "items_at partitionItems i = (case map_of partitionItems i of None \<Rightarrow> [] | Some items \<Rightarrow> items)"

definition group_items :: "(bytes \<Rightarrow> u64) \<Rightarrow> pb_KeyValue list \<Rightarrow> (u32 \<times> pb_KeyValue list) list" where
  "group_items sum64 items =
     fold (\<lambda>item partitionItems.
         let i = compute_CalculatePartition sum64 (pkv_key item)
         in AList.update i (items_at partitionItems i @ [item]) partitionItems) items []"

fun route_all :: "compute_Router \<Rightarrow> u32 list \<Rightarrow> (u32 \<times> NodeID \<times> u64) list \<times> err option" where
  "route_all r [] = ([], None)"
| "route_all r (i # is) =
     (case GetPartitionNodesByID r i of
        Inl e \<Rightarrow> ([], Some (ErrStatus Code_Internal e))
      | Inr (primary, _, _, epoch) \<Rightarrow> let (started, e) = route_all r is in ((i, primary, epoch) # started, e))"

fun run_puts ::
    "('n, 'x) storage_net_scheme \<Rightarrow> (u32 \<times> pb_KeyValue list) list \<Rightarrow> (u32 \<times> NodeID \<times> u64) list \<Rightarrow>
     compute_Server \<times> 'n \<Rightarrow> (compute_Server \<times> 'n) \<times> u32 \<times> err list" where
  "run_puts net partitionItems [] st = (st, 0, [])"
| "run_puts net partitionItems ((i, primary, epoch) # started) st =
     (let items = items_at partitionItems i;
          (st, r) = doBatchPut net primary items i epoch st;
          (st, count, errs) = run_puts net partitionItems started st
      in case r of
           Inl e \<Rightarrow> (st, count, e # errs)
         | Inr _ \<Rightarrow> (st, count + of_nat (length items), errs))"

definition compute_BatchPut ::
    "(bytes \<Rightarrow> u64) \<Rightarrow> ('n, 'x) storage_net_scheme \<Rightarrow> u32 list \<Rightarrow>
     ((u32 \<times> NodeID \<times> u64) list \<Rightarrow> (u32 \<times> NodeID \<times> u64) list) \<Rightarrow> pb_KeyValue list \<Rightarrow> compute_Server \<times> 'n \<Rightarrow>
     (compute_Server \<times> 'n) \<times> (err + BatchPutResponse)" where
  "compute_BatchPut sum64 net order finish items st =
     (let (started, e) = route_all (cs_router (fst st)) order;
          (st, count, errs) = run_puts net (group_items sum64 items) (finish started) st
      in case e of
           Some e \<Rightarrow> (st, Inl e)
         | None \<Rightarrow>
             (case errs of
                e # _ \<Rightarrow> (st, Inl (ErrStatus Code_Internal e))
              | [] \<Rightarrow> (st, Inr \<lparr>bpr_success = True, bpr_count = count\<rparr>)))"

section \<open>What the handlers rely on\<close>

text \<open>
  The contents of a partition on a node are a map from keys; a field has the key
  \<open>field_slot\<close>. A write that is acknowledged changes exactly the contents it names, a write that
  is refused changes nothing, and a write whose call failed has or has not been done.
\<close>

definition field_slot :: "bytes \<Rightarrow> bytes \<Rightarrow> bytes" where
  "field_slot pk fieldName = [0x3A, FieldKeyMarker] @ PutUint32 (of_nat (length pk)) @ pk @ fieldName"

type_synonym 'n node_contents = "'n \<Rightarrow> string \<Rightarrow> u32 \<Rightarrow> bytes \<rightharpoonup> bytes"

definition write_outcome ::
    "'n node_contents \<Rightarrow> 'n \<Rightarrow> 'n \<Rightarrow> string \<Rightarrow> u32 \<Rightarrow> ((bytes \<rightharpoonup> bytes) \<Rightarrow> bytes \<rightharpoonup> bytes) \<Rightarrow> bool option \<Rightarrow> bool" where
  "write_outcome kv n n' a i f acked \<longleftrightarrow>
     (let done = (kv n)(a := (kv n a)(i := f (kv n a i)))
      in case acked of
           Some True \<Rightarrow> kv n' = done
         | Some False \<Rightarrow> kv n' = kv n
         | None \<Rightarrow> kv n' = kv n \<or> kv n' = done)"

definition acked :: "('r \<Rightarrow> bool) \<Rightarrow> ('r \<Rightarrow> ErrorCode) \<Rightarrow> err + 'r \<Rightarrow> bool option" where
  "acked success code r = (case r of Inl _ \<Rightarrow> None | Inr resp \<Rightarrow> Some (success resp \<and> code resp = OK))"

definition set_field :: "bytes \<Rightarrow> FieldValue \<Rightarrow> (bytes \<rightharpoonup> bytes) \<Rightarrow> bytes \<rightharpoonup> bytes" where
  "set_field pk fv m = m(field_slot pk (fv_field_name fv) := (if fv_is_delete fv then None else Some (fv_value fv)))"

definition put_item :: "pb_KeyValue \<Rightarrow> (bytes \<rightharpoonup> bytes) \<Rightarrow> bytes \<rightharpoonup> bytes" where
  "put_item item m = m(pkv_key item \<mapsto> pkv_value item)"

definition read_result :: "StorageGetResponse \<Rightarrow> bytes option" where
  "read_result resp = (if sgr_found resp then Some (sgr_value resp) else None)"

locale storage_service =
  fixes net :: "('n, 'x) storage_net_scheme" and kv :: "'n node_contents"
  assumes Dial_target: "sn_Dial net n addr = Inr conn \<Longrightarrow> conn_target conn = addr"
    and Get_answer: "sn_Get net conn gq n = (n', gr) \<Longrightarrow> kv n' = kv n \<and>
      (case gr of Inl _ \<Rightarrow> True | Inr resp \<Rightarrow> sgr_error resp = OK \<longrightarrow>
         read_result resp = kv n (conn_target conn) (sgq_partition_id gq) (sgq_key gq))"
    and GetField_answer: "sn_GetField net conn fq n = (n', fr) \<Longrightarrow> kv n' = kv n \<and>
      (case fr of Inl _ \<Rightarrow> True | Inr resp \<Rightarrow> sgr_error resp = OK \<longrightarrow>
         read_result resp = kv n (conn_target conn) (sgf_partition_id fq) (field_slot (sgf_primary_key fq) (sgf_field_name fq)))"
    and GetAllFields_same: "sn_GetAllFields net conn aq n = (n', ar) \<Longrightarrow> kv n' = kv n"
    and Put_done: "sn_Put net conn pq n = (n', pr) \<Longrightarrow>
      write_outcome kv n n' (conn_target conn) (spq_partition_id pq) (\<lambda>m. m(spq_key pq \<mapsto> spq_value pq))
        (acked swr_success swr_error pr)"
    and Delete_done: "sn_Delete net conn dq n = (n', dr) \<Longrightarrow>
      write_outcome kv n n' (conn_target conn) (sdq_partition_id dq) (\<lambda>m. m(sdq_key dq := None))
        (acked swr_success swr_error dr)"
    and SetFields_done: "sn_SetFields net conn sq n = (n', sr) \<Longrightarrow>
      write_outcome kv n n' (conn_target conn) (ssf_partition_id sq) (fold (set_field (ssf_primary_key sq)) (ssf_fields sq))
        (acked swr_success swr_error sr)"
    and DeleteField_done: "sn_DeleteField net conn eq n = (n', er) \<Longrightarrow>
      write_outcome kv n n' (conn_target conn) (sdf_partition_id eq)
        (\<lambda>m. m(field_slot (sdf_primary_key eq) (sdf_field_name eq) := None)) (acked swr_success swr_error er)"
    and BatchPut_done: "sn_BatchPut net conn bq n = (n', br) \<Longrightarrow>
      write_outcome kv n n' (conn_target conn) (sbq_partition_id bq) (fold put_item (sbq_items bq))
        (acked sbp_success sbp_error br)"

section \<open>Effect of the handlers\<close>

text \<open>A pooled connection leads to the address it is pooled for, and nodes are known by their address.\<close>

definition cs_wf :: "compute_Server \<Rightarrow> bool" where
  "cs_wf s \<longleftrightarrow> list_all (\<lambda>(addr, conn). conn_target conn = addr) (pool_conns (cs_pool s)) \<and>
     list_all (\<lambda>(nodeID, addr). addr = nodeID) (nr_cache (cs_nodeResolver s))"

lemma cs_wf_NewServer: "cs_wf (compute_NewServer config)"
  by (simp add: cs_wf_def compute_NewServer_def NewConnectionPool_def NewNodeResolver_def Let_def)

lemma list_all_AList:
  "list_all P xs \<Longrightarrow> P (k, v) \<Longrightarrow> list_all P (AList.update k v xs)"
  "list_all P xs \<Longrightarrow> list_all P (AList.delete k xs)"
proof -
  show "list_all P xs \<Longrightarrow> P (k, v) \<Longrightarrow> list_all P (AList.update k v xs)"
    by (induction xs) auto
  show "list_all P xs \<Longrightarrow> list_all P (AList.delete k xs)"
    by (auto simp: list_all_iff AList.delete_eq)
qed

lemma list_all_map_of: "list_all P xs \<Longrightarrow> map_of xs k = Some v \<Longrightarrow> P (k, v)"
  by (auto simp: list_all_iff dest: map_of_SomeD)

definition same_routes :: "compute_Server \<Rightarrow> compute_Server \<Rightarrow> bool" where
  "same_routes s s' \<longleftrightarrow> cs_wf s' \<and> cs_router s' = cs_router s"

definition store_of :: "'n node_contents \<Rightarrow> compute_Server \<times> 'n \<Rightarrow> u32 \<Rightarrow> bytes \<rightharpoonup> bytes" where
  "store_of kv st i =
     (case map_of (crt_Partitions (cr_routeTable (cs_router (fst st)))) i of
        None \<Rightarrow> Map.empty
      | Some part \<Rightarrow> kv (snd st) (cpi_Primary part) i)"

lemma same_routes_store:
  "same_routes s s' \<Longrightarrow> kv n' = kv n \<Longrightarrow> store_of kv (s', n') = store_of kv (s, n)"
  by (simp add: store_of_def same_routes_def fun_eq_iff split: option.splits)

context storage_service
begin

lemma getConn_target:
  assumes "list_all (\<lambda>(addr, conn). conn_target conn = addr) (pool_conns p)" and "getConn net n addr p = (p', r)"
  shows "list_all (\<lambda>(addr, conn). conn_target conn = addr) (pool_conns p') \<and> (\<forall>conn. r = Inr conn \<longrightarrow> conn_target conn = addr)"
  using assms
  by (auto simp: getConn_def getConn_locked_def list_all_AList delete_conv' Dial_target dest: list_all_map_of
      split: option.splits sum.splits if_splits)

lemma storage_client_wf:
  assumes "cs_wf s" and "storage_client net nodeID (s, n) = (s', r)"
  shows "same_routes s s' \<and> (\<forall>conn. r = Inr conn \<longrightarrow> conn_target conn = nodeID)"
proof -
  obtain nr addr where nr: "ResolveAddr nodeID (cs_nodeResolver s) = (nr, addr)"
    by force
  obtain p c where p: "getConn net n addr (cs_pool s) = (p, c)"
    by force
  have "addr = nodeID" "list_all (\<lambda>(nodeID, addr). addr = nodeID) (nr_cache nr)"
    using nr assms(1) by (auto simp: ResolveAddr_def cs_wf_def list_all_AList dest: list_all_map_of split: option.splits)
  then show ?thesis
    using assms nr p getConn_target [OF _ p] by (auto simp: storage_client_def same_routes_def cs_wf_def)
qed

lemma on_node_cases:
  assumes "cs_wf s" and "on_node net nodeID call k (s, n) = ((s', n'), r)"
  obtains e where "same_routes s s'" "n' = n" "r = Inl e"
    | conn cr where "same_routes s s'" "conn_target conn = nodeID" "call conn n = (n', cr)"
        "r = (case cr of Inl e \<Rightarrow> Inl e | Inr resp \<Rightarrow> k resp)"
proof -
  obtain s1 c where c: "storage_client net nodeID (s, n) = (s1, c)"
    by force
  note wf = storage_client_wf [OF assms(1) c]
  show ?thesis
  proof (cases c)
    case (Inl e)
    then show ?thesis
      using assms(2) c wf that(1) [of e] by (simp add: on_node_def)
  next
    case (Inr conn)
    obtain n1 cr where cr: "call conn n = (n1, cr)"
      by force
    show ?thesis
      using assms(2) c wf cr that(2) [of conn cr] Inr by (auto simp: on_node_def split: sum.splits)
  qed
qed

text \<open>The write to one node: done when it is acknowledged, done or not otherwise.\<close>

lemma on_node_write:
  assumes wf: "cs_wf s"
    and on: "on_node net nodeID call (\<lambda>resp. write_result (success resp) (code resp)) (s, n) = ((s', n'), r)"
    and call: "\<And>conn n n' cr. call conn n = (n', cr) \<Longrightarrow>
      write_outcome kv n n' (conn_target conn) i f (acked success code cr)"
  shows "same_routes s s' \<and> (kv n' = (kv n)(nodeID := (kv n nodeID)(i := f (kv n nodeID i))) \<or> (\<exists>e. r = Inl e) \<and> kv n' = kv n)"
proof (rule on_node_cases [OF wf on])
  fix e
  assume "same_routes s s'" "n' = n" "r = Inl e"
  then show ?thesis by simp
next
  fix conn cr
  assume "same_routes s s'" "conn_target conn = nodeID" "call conn n = (n', cr)"
    "r = (case cr of Inl e \<Rightarrow> Inl e | Inr resp \<Rightarrow> write_result (success resp) (code resp))"
  then show ?thesis
    using call [of conn n n' cr]
    by (cases cr) (auto simp: write_outcome_def acked_def write_result_def Let_def split: if_splits bool.splits)
qed

lemmas do_write_defs = doPut_def doDelete_def doSetFields_def doDeleteField_def doBatchPut_def

lemma do_writes:
  assumes wf: "cs_wf s"
  shows "doPut net nodeID key val i epoch (s, n) = ((s', n'), r) \<Longrightarrow> same_routes s s' \<and>
      (kv n' = (kv n)(nodeID := (kv n nodeID)(i := (kv n nodeID i)(key \<mapsto> val))) \<or> (\<exists>e. r = Inl e) \<and> kv n' = kv n)"
    and "doDelete net nodeID key i epoch (s, n) = ((s', n'), r) \<Longrightarrow> same_routes s s' \<and>
      (kv n' = (kv n)(nodeID := (kv n nodeID)(i := (kv n nodeID i)(key := None))) \<or> (\<exists>e. r = Inl e) \<and> kv n' = kv n)"
    and "doSetFields net nodeID pk fvs i epoch (s, n) = ((s', n'), r) \<Longrightarrow> same_routes s s' \<and>
      (kv n' = (kv n)(nodeID := (kv n nodeID)(i := fold (set_field pk) fvs (kv n nodeID i))) \<or> (\<exists>e. r = Inl e) \<and> kv n' = kv n)"
    and "doDeleteField net nodeID pk fn i epoch (s, n) = ((s', n'), r) \<Longrightarrow> same_routes s s' \<and>
      (kv n' = (kv n)(nodeID := (kv n nodeID)(i := (kv n nodeID i)(field_slot pk fn := None))) \<or> (\<exists>e. r = Inl e) \<and> kv n' = kv n)"
    and "doBatchPut net nodeID items i epoch (s, n) = ((s', n'), r) \<Longrightarrow> same_routes s s' \<and>
      (kv n' = (kv n)(nodeID := (kv n nodeID)(i := fold put_item items (kv n nodeID i))) \<or> (\<exists>e. r = Inl e) \<and> kv n' = kv n)"
proof -
  assume "doPut net nodeID key val i epoch (s, n) = ((s', n'), r)"
  then show "same_routes s s' \<and> (kv n' = (kv n)(nodeID := (kv n nodeID)(i := (kv n nodeID i)(key \<mapsto> val))) \<or> (\<exists>e. r = Inl e) \<and> kv n' = kv n)"
    unfolding do_write_defs by (rule on_node_write [OF wf, where f = "\<lambda>m. m(key \<mapsto> val)"]) (drule Put_done, simp)
next
  assume "doDelete net nodeID key i epoch (s, n) = ((s', n'), r)"
  then show "same_routes s s' \<and> (kv n' = (kv n)(nodeID := (kv n nodeID)(i := (kv n nodeID i)(key := None))) \<or> (\<exists>e. r = Inl e) \<and> kv n' = kv n)"
    unfolding do_write_defs by (rule on_node_write [OF wf, where f = "\<lambda>m. m(key := None)"]) (drule Delete_done, simp)
next
  assume "doSetFields net nodeID pk fvs i epoch (s, n) = ((s', n'), r)"
  then show "same_routes s s' \<and> (kv n' = (kv n)(nodeID := (kv n nodeID)(i := fold (set_field pk) fvs (kv n nodeID i))) \<or> (\<exists>e. r = Inl e) \<and> kv n' = kv n)"
    unfolding do_write_defs by (rule on_node_write [OF wf, where f = "fold (set_field pk) fvs"]) (drule SetFields_done, simp)
next
  assume "doDeleteField net nodeID pk fn i epoch (s, n) = ((s', n'), r)"
  then show "same_routes s s' \<and> (kv n' = (kv n)(nodeID := (kv n nodeID)(i := (kv n nodeID i)(field_slot pk fn := None))) \<or> (\<exists>e. r = Inl e) \<and> kv n' = kv n)"
    unfolding do_write_defs by (rule on_node_write [OF wf, where f = "\<lambda>m. m(field_slot pk fn := None)"]) (drule DeleteField_done, simp)
next
  assume "doBatchPut net nodeID items i epoch (s, n) = ((s', n'), r)"
  then show "same_routes s s' \<and> (kv n' = (kv n)(nodeID := (kv n nodeID)(i := fold put_item items (kv n nodeID i))) \<or> (\<exists>e. r = Inl e) \<and> kv n' = kv n)"
    unfolding do_write_defs by (rule on_node_write [OF wf, where f = "fold put_item items"]) (drule BatchPut_done, simp)
qed

end

text \<open>The requests of a client, the handler that serves each, and what it does to partition \<open>i\<close>.\<close>

datatype kv_op =
    KV_Put bytes bytes
  | KV_Delete bytes
  | KV_SetField bytes bytes bytes
  | KV_SetFields bytes "FieldValue list"
  | KV_DeleteField bytes bytes
  | KV_BatchPut "u32 list" "(u32 \<times> NodeID \<times> u64) list \<Rightarrow> (u32 \<times> NodeID \<times> u64) list" "pb_KeyValue list"
  | KV_Get bytes
  | KV_GetField bytes bytes

definition get_value :: "GetResponse \<Rightarrow> bytes option" where
  "get_value resp = (if gr_found resp then Some (gr_value resp) else None)"

fun kv_exec ::
    "(bytes \<Rightarrow> u64) \<Rightarrow> ('n, 'x) storage_net_scheme \<Rightarrow> kv_op \<Rightarrow> compute_Server \<times> 'n \<Rightarrow>
     (compute_Server \<times> 'n) \<times> (err + bytes option)" where
  "kv_exec sum64 net (KV_Put k v) st = map_prod id (map_sum id Map.empty) (compute_Put sum64 net k v st)"
| "kv_exec sum64 net (KV_Delete k) st = map_prod id (map_sum id Map.empty) (compute_Delete sum64 net k st)"
| "kv_exec sum64 net (KV_SetField pk f v) st = map_prod id (map_sum id Map.empty) (compute_SetField sum64 net pk f v st)"
| "kv_exec sum64 net (KV_SetFields pk fvs) st = map_prod id (map_sum id Map.empty) (compute_SetFields sum64 net pk fvs st)"
| "kv_exec sum64 net (KV_DeleteField pk f) st = map_prod id (map_sum id Map.empty) (compute_DeleteField sum64 net pk f st)"
| "kv_exec sum64 net (KV_BatchPut order finish items) st =
     map_prod id (map_sum id Map.empty) (compute_BatchPut sum64 net order finish items st)"
| "kv_exec sum64 net (KV_Get k) st = map_prod id (map_sum id get_value) (compute_Get sum64 net k st)"
| "kv_exec sum64 net (KV_GetField pk f) st = map_prod id (map_sum id get_value) (compute_GetField sum64 net pk f st)"

fun op_at :: "(bytes \<Rightarrow> u64) \<Rightarrow> u32 \<Rightarrow> kv_op \<Rightarrow> (bytes \<rightharpoonup> bytes) \<Rightarrow> bytes \<rightharpoonup> bytes" where
  "op_at sum64 i (KV_Put k v) m = (if compute_CalculatePartition sum64 k = i then m(k \<mapsto> v) else m)"
| "op_at sum64 i (KV_Delete k) m = (if compute_CalculatePartition sum64 k = i then m(k := None) else m)"
| "op_at sum64 i (KV_SetField pk f v) m =
     (if compute_CalculatePartition sum64 pk = i then m(field_slot pk f \<mapsto> v) else m)"
| "op_at sum64 i (KV_SetFields pk fvs) m =
     (if compute_CalculatePartition sum64 pk = i then fold (set_field pk) fvs m else m)"
| "op_at sum64 i (KV_DeleteField pk f) m =
     (if compute_CalculatePartition sum64 pk = i then m(field_slot pk f := None) else m)"
| "op_at sum64 i (KV_BatchPut _ _ items) m =
     fold put_item (filter (\<lambda>item. compute_CalculatePartition sum64 (pkv_key item) = i) items) m"
| "op_at sum64 i (KV_Get k) m = m"
| "op_at sum64 i (KV_GetField pk f) m = m"

text \<open>The orders of a batch put: its partitions once each, and a permutation of the started calls.\<close>

fun op_ok :: "(bytes \<Rightarrow> u64) \<Rightarrow> kv_op \<Rightarrow> bool" where
  "op_ok sum64 (KV_BatchPut order finish items) \<longleftrightarrow>
     distinct order \<and> set order = set (map (\<lambda>item. compute_CalculatePartition sum64 (pkv_key item)) items) \<and>
     (\<forall>started. distinct started \<longrightarrow> distinct (finish started) \<and> set (finish started) = set started)"
| "op_ok sum64 _ \<longleftrightarrow> True"

lemma group_items_fold:
  "items_at (fold (\<lambda>item partitionItems.
       let i = compute_CalculatePartition sum64 (pkv_key item)
       in AList.update i (items_at partitionItems i @ [item]) partitionItems) items groups) i =
   items_at groups i @ filter (\<lambda>item. compute_CalculatePartition sum64 (pkv_key item) = i) items"
  by (induction items arbitrary: groups) (auto simp: Let_def items_at_def update_conv')

lemma items_at_group_items:
  "items_at (group_items sum64 items) i = filter (\<lambda>item. compute_CalculatePartition sum64 (pkv_key item) = i) items"
  unfolding group_items_def group_items_fold by (simp add: items_at_def)

text \<open>Every partition has the effect of the write, or the write failed and it has not.\<close>

definition writes_through ::
    "'n node_contents \<Rightarrow> compute_Server \<times> 'n \<Rightarrow> compute_Server \<times> 'n \<Rightarrow> (u32 \<Rightarrow> (bytes \<rightharpoonup> bytes) \<Rightarrow> bytes \<rightharpoonup> bytes) \<Rightarrow> err + 'a \<Rightarrow> bool" where
  "writes_through kv st st' f r \<longleftrightarrow> same_routes (fst st) (fst st') \<and>
     (\<forall>i. store_of kv st' i = f i (store_of kv st i) \<or> (\<exists>e. r = Inl e) \<and> store_of kv st' i = store_of kv st i)"

lemma writes_through_map_sum [simp]: "writes_through kv st st' f (map_sum id g r) = writes_through kv st st' f r"
  by (cases r) (simp_all add: writes_through_def)

lemma same_routes_refl: "cs_wf s \<Longrightarrow> same_routes s s"
  by (simp add: same_routes_def)

lemma same_routes_trans: "same_routes s s' \<Longrightarrow> same_routes s' s'' \<Longrightarrow> same_routes s s''"
  by (simp add: same_routes_def)

text \<open>A node write of partition \<open>i\<close> by its primary changes the store at \<open>i\<close> only.\<close>

lemma store_of_node_write:
  assumes "same_routes s s'" and "map_of (crt_Partitions (cr_routeTable (cs_router s))) i = Some part"
    and "kv n' = (kv n)(cpi_Primary part := (kv n (cpi_Primary part))(i := f (kv n (cpi_Primary part) i)))"
  shows "store_of kv (s', n') j = (if j = i then f (store_of kv (s, n) i) else store_of kv (s, n) j)"
  using assms by (auto simp: store_of_def same_routes_def split: option.splits)

lemma to_primary_effect:
  assumes wf: "cs_wf s" and to: "to_primary sum64 key send (s, n) = ((s', n'), r)"
    and send: "\<And>nodeID epoch s' n' r. send nodeID (compute_CalculatePartition sum64 key) epoch (s, n) = ((s', n'), r) \<Longrightarrow>
      same_routes s s' \<and> (kv n' = (kv n)(nodeID := (kv n nodeID)(compute_CalculatePartition sum64 key :=
         f (kv n nodeID (compute_CalculatePartition sum64 key)))) \<or> (\<exists>e. r = Inl e) \<and> kv n' = kv n)"
  shows "writes_through kv (s, n) (s', n') (\<lambda>i m. if compute_CalculatePartition sum64 key = i then f m else m) r"
proof (cases "map_of (crt_Partitions (cr_routeTable (cs_router s))) (compute_CalculatePartition sum64 key)")
  case None
  then show ?thesis
    using to wf by (auto simp: to_primary_def compute_GetPartitionNodes_def GetPartitionNodesByID_def writes_through_def same_routes_refl)
next
  case (Some part)
  let ?i = "compute_CalculatePartition sum64 key"
  obtain s1 n1 r1 where s1: "send (cpi_Primary part) ?i (cpi_Epoch part) (s, n) = ((s1, n1), r1)"
    by (metis prod.collapse)
  have r: "s' = s1" "n' = n1" "(\<exists>e. r1 = Inl e) \<longleftrightarrow> (\<exists>e. r = Inl e)"
    using to Some s1 by (auto simp: to_primary_def compute_GetPartitionNodes_def GetPartitionNodesByID_def split: sum.splits)
  from send [OF s1] have same: "same_routes s s'"
    and eff: "kv n' = (kv n)(cpi_Primary part := (kv n (cpi_Primary part))(?i := f (kv n (cpi_Primary part) ?i))) \<or>
      (\<exists>e. r = Inl e) \<and> kv n' = kv n"
    using r by auto
  from eff show ?thesis
  proof
    assume "kv n' = (kv n)(cpi_Primary part := (kv n (cpi_Primary part))(?i := f (kv n (cpi_Primary part) ?i)))"
    from store_of_node_write [OF same Some, where kv = kv and n = n and n' = n' and f = f, OF this] show ?thesis
      using same by (auto simp: writes_through_def)
  next
    assume "(\<exists>e. r = Inl e) \<and> kv n' = kv n"
    then show ?thesis
      using same same_routes_store [OF same, of kv n' n] by (auto simp: writes_through_def)
  qed
qed

lemma op_at_eqs:
  "op_at sum64 i (KV_Put k v) = (\<lambda>m. if compute_CalculatePartition sum64 k = i then m(k \<mapsto> v) else m)"
  "op_at sum64 i (KV_Delete k) = (\<lambda>m. if compute_CalculatePartition sum64 k = i then m(k := None) else m)"
  "op_at sum64 i (KV_SetField k f v) = (\<lambda>m. if compute_CalculatePartition sum64 k = i then m(field_slot k f \<mapsto> v) else m)"
  "op_at sum64 i (KV_SetFields k fvs) = (\<lambda>m. if compute_CalculatePartition sum64 k = i then fold (set_field k) fvs m else m)"
  "op_at sum64 i (KV_DeleteField k f) = (\<lambda>m. if compute_CalculatePartition sum64 k = i then m(field_slot k f := None) else m)"
  by (simp_all add: fun_eq_iff)

context storage_service
begin

lemma compute_writes:
  assumes wf: "cs_wf s"
  shows "compute_Put sum64 net k v (s, n) = ((s', n'), r) \<Longrightarrow>
      writes_through kv (s, n) (s', n') (\<lambda>i. op_at sum64 i (KV_Put k v)) r"
    and "compute_Delete sum64 net k (s, n) = ((s', n'), r) \<Longrightarrow>
      writes_through kv (s, n) (s', n') (\<lambda>i. op_at sum64 i (KV_Delete k)) r"
    and "compute_SetFields sum64 net k fvs (s, n) = ((s', n'), r) \<Longrightarrow>
      writes_through kv (s, n) (s', n') (\<lambda>i. op_at sum64 i (KV_SetFields k fvs)) r"
    and "compute_SetField sum64 net k f v (s, n) = ((s', n'), r) \<Longrightarrow>
      writes_through kv (s, n) (s', n') (\<lambda>i. op_at sum64 i (KV_SetField k f v)) r"
    and "compute_DeleteField sum64 net k f (s, n) = ((s', n'), r) \<Longrightarrow>
      writes_through kv (s, n) (s', n') (\<lambda>i. op_at sum64 i (KV_DeleteField k f)) r"
proof -
  assume "compute_Put sum64 net k v (s, n) = ((s', n'), r)"
  from to_primary_effect [OF wf this [unfolded compute_Put_def], where f = "\<lambda>m. m(k \<mapsto> v)" and kv = kv]
  show "writes_through kv (s, n) (s', n') (\<lambda>i. op_at sum64 i (KV_Put k v)) r"
    using do_writes(1) [OF wf] by (simp add: op_at_eqs)
next
  assume "compute_Delete sum64 net k (s, n) = ((s', n'), r)"
  from to_primary_effect [OF wf this [unfolded compute_Delete_def], where f = "\<lambda>m. m(k := None)" and kv = kv]
  show "writes_through kv (s, n) (s', n') (\<lambda>i. op_at sum64 i (KV_Delete k)) r"
    using do_writes(2) [OF wf] by (simp add: op_at_eqs)
next
  assume "compute_SetFields sum64 net k fvs (s, n) = ((s', n'), r)"
  from to_primary_effect [OF wf this [unfolded compute_SetFields_def], where f = "fold (set_field k) fvs" and kv = kv]
  show "writes_through kv (s, n) (s', n') (\<lambda>i. op_at sum64 i (KV_SetFields k fvs)) r"
    using do_writes(3) [OF wf] by (simp add: op_at_eqs)
next
  let ?fv = "\<lparr>fv_field_name = f, fv_value = v, fv_is_delete = False\<rparr>"
  assume "compute_SetField sum64 net k f v (s, n) = ((s', n'), r)"
  from to_primary_effect [OF wf this [unfolded compute_SetField_def], where f = "\<lambda>m. m(field_slot k f \<mapsto> v)" and kv = kv]
  show "writes_through kv (s, n) (s', n') (\<lambda>i. op_at sum64 i (KV_SetField k f v)) r"
    using do_writes(3) [OF wf, where fvs = "[?fv]"] by (simp add: op_at_eqs set_field_def)
next
  assume "compute_DeleteField sum64 net k f (s, n) = ((s', n'), r)"
  from to_primary_effect [OF wf this [unfolded compute_DeleteField_def], where f = "\<lambda>m. m(field_slot k f := None)" and kv = kv]
  show "writes_through kv (s, n) (s', n') (\<lambda>i. op_at sum64 i (KV_DeleteField k f)) r"
    using do_writes(4) [OF wf] by (simp add: op_at_eqs)
qed

text \<open>A batch put: the calls change the partitions they are for, one after the other.\<close>

lemma run_puts_effect:
  assumes "cs_wf s" and "run_puts net groups started (s, n) = ((s', n'), count, errs)"
    and "\<forall>(i, a, ep) \<in> set started.
      \<exists>part. map_of (crt_Partitions (cr_routeTable (cs_router s))) i = Some part \<and> cpi_Primary part = a"
    and "distinct (map fst started)"
  shows "same_routes s s' \<and> (\<forall>i. i \<notin> fst ` set started \<longrightarrow> store_of kv (s', n') i = store_of kv (s, n) i) \<and>
     (\<forall>i \<in> fst ` set started. store_of kv (s', n') i = fold put_item (items_at groups i) (store_of kv (s, n) i) \<or>
        errs \<noteq> [] \<and> store_of kv (s', n') i = store_of kv (s, n) i) \<and>
     (errs = [] \<longrightarrow> count = of_nat (sum_list (map (\<lambda>(i, _). length (items_at groups i)) started)))"
  using assms
proof (induction started arbitrary: s n s' n' count errs)
  case Nil
  then show ?case
    by (simp add: same_routes_refl)
next
  case (Cons x started)
  obtain i a ep where x: "x = (i, a, ep)"
    by (cases x)
  obtain s1 n1 r where put: "doBatchPut net a (items_at groups i) i ep (s, n) = ((s1, n1), r)"
    by (metis prod.collapse)
  obtain s2 n2 count' errs' where rest: "run_puts net groups started (s1, n1) = ((s2, n2), count', errs')"
    by (metis prod.collapse)
  have eqs: "s' = s2" "n' = n2" "errs = (case r of Inl e \<Rightarrow> e # errs' | Inr _ \<Rightarrow> errs')"
    "errs = [] \<longrightarrow> count = count' + of_nat (length (items_at groups i))"
    using Cons.prems(2) put rest by (auto simp: x Let_def split: sum.splits)
  obtain part where part: "map_of (crt_Partitions (cr_routeTable (cs_router s))) i = Some part" "cpi_Primary part = a"
    using Cons.prems(3) by (auto simp: x)
  from do_writes(5) [OF Cons.prems(1) put] have same: "same_routes s s1"
    and eff: "kv n1 = (kv n)(a := (kv n a)(i := fold put_item (items_at groups i) (kv n a i))) \<or> (\<exists>e. r = Inl e) \<and> kv n1 = kv n"
    by auto
  have store1: "(\<forall>j. store_of kv (s1, n1) j = (if j = i then fold put_item (items_at groups i) (store_of kv (s, n) i) else store_of kv (s, n) j)) \<or>
      (\<exists>e. r = Inl e) \<and> store_of kv (s1, n1) = store_of kv (s, n)"
    using eff store_of_node_write [OF same part(1), where kv = kv and n = n and n' = n1 and f = "fold put_item (items_at groups i)"]
      same_routes_store [OF same, of kv n1 n] by (auto simp: part(2))
  have wf1: "cs_wf s1" "cs_router s1 = cs_router s"
    using same by (simp_all add: same_routes_def)
  have dist: "i \<notin> fst ` set started" "distinct (map fst started)"
    using Cons.prems(4) by (simp_all add: x)
  have IH: "same_routes s1 s2 \<and> (\<forall>i. i \<notin> fst ` set started \<longrightarrow> store_of kv (s2, n2) i = store_of kv (s1, n1) i) \<and>
     (\<forall>i \<in> fst ` set started. store_of kv (s2, n2) i = fold put_item (items_at groups i) (store_of kv (s1, n1) i) \<or>
        errs' \<noteq> [] \<and> store_of kv (s2, n2) i = store_of kv (s1, n1) i) \<and>
     (errs' = [] \<longrightarrow> count' = of_nat (sum_list (map (\<lambda>(i, _). length (items_at groups i)) started)))"
    using Cons.prems(3) by (intro Cons.IH [OF wf1(1) rest _ dist(2)]) (auto simp: wf1(2))
  have errs: "errs' \<noteq> [] \<Longrightarrow> errs \<noteq> []" "(\<exists>e. r = Inl e) \<Longrightarrow> errs \<noteq> []"
    using eqs(3) by (auto split: sum.splits)
  have other: "store_of kv (s1, n1) j = store_of kv (s, n) j" if "j \<noteq> i" for j
    using store1 that by auto
  show ?case
  proof (intro conjI allI ballI impI)
    show "same_routes s s'"
      using same IH same_routes_trans eqs(1) by blast
  next
    fix j
    assume "j \<notin> fst ` set (x # started)"
    then show "store_of kv (s', n') j = store_of kv (s, n) j"
      using IH other [of j] by (simp add: x eqs(1,2))
  next
    fix j
    assume j: "j \<in> fst ` set (x # started)"
    show "store_of kv (s', n') j = fold put_item (items_at groups j) (store_of kv (s, n) j) \<or>
        errs \<noteq> [] \<and> store_of kv (s', n') j = store_of kv (s, n) j"
    proof (cases "j = i")
      case True
      then have "store_of kv (s', n') j = store_of kv (s1, n1) j"
        using IH dist(1) eqs(1,2) by blast
      then show ?thesis
        using store1 errs(2) True by auto
    next
      case False
      then have "j \<in> fst ` set started"
        using j by (auto simp: x)
      then have "store_of kv (s', n') j = fold put_item (items_at groups j) (store_of kv (s1, n1) j) \<or>
          errs' \<noteq> [] \<and> store_of kv (s', n') j = store_of kv (s1, n1) j"
        using IH eqs(1,2) by blast
      then show ?thesis
        using errs(1) other [OF False] by auto
    qed
  next
    assume "errs = []"
    then show "count = of_nat (sum_list (map (\<lambda>(i, _). length (items_at groups i)) (x # started)))"
      using IH eqs(4) errs(1) by (auto simp: x)
  qed
qed

end

lemma route_all_routed:
  assumes "route_all r is = (started, e)"
  shows "prefix (map fst started) is \<and> (e = None \<longrightarrow> map fst started = is) \<and>
     (\<forall>(i, a, ep) \<in> set started. \<exists>part. map_of (crt_Partitions (cr_routeTable r)) i = Some part \<and> cpi_Primary part = a)"
  using assms
proof (induction "is" arbitrary: started e)
  case (Cons i "is")
  obtain started' e' where rest: "route_all r is = (started', e')"
    by force
  show ?case
    using Cons.IH [OF rest] Cons.prems rest by (auto simp: GetPartitionNodesByID_def split: option.splits)
qed simp

lemma distinct_map_fst_permuted:
  assumes "distinct (map fst xs)" and "distinct ys" and "set ys = set xs"
  shows "distinct (map fst ys)"
  using assms by (simp add: distinct_map)

lemma fold_put_item_Nil: "i \<notin> set (map (\<lambda>item. compute_CalculatePartition sum64 (pkv_key item)) items) \<Longrightarrow>
   filter (\<lambda>item. compute_CalculatePartition sum64 (pkv_key item) = i) items = []"
  by (auto simp: filter_empty_conv)

text \<open>A sequence of requests, with the result of each.\<close>

fun kv_runs ::
    "(bytes \<Rightarrow> u64) \<Rightarrow> ('n, 'x) storage_net_scheme \<Rightarrow> kv_op list \<Rightarrow> compute_Server \<times> 'n \<Rightarrow>
     (compute_Server \<times> 'n) \<times> (err + bytes option) list" where
  "kv_runs sum64 net [] st = (st, [])"
| "kv_runs sum64 net (oper # opers) st =
     (let (st, r) = kv_exec sum64 net oper st; (st, rs) = kv_runs sum64 net opers st in (st, r # rs))"

text \<open>The chosen requests, done one after the other on the contents of partition \<open>i\<close>.\<close>

definition chosen_ops :: "(bytes \<Rightarrow> u64) \<Rightarrow> u32 \<Rightarrow> bool list \<Rightarrow> kv_op list \<Rightarrow> (bytes \<rightharpoonup> bytes) \<Rightarrow> bytes \<rightharpoonup> bytes" where
  "chosen_ops sum64 i chosen opers = fold (\<lambda>(c, oper) m. if c then op_at sum64 i oper m else m) (zip chosen opers)"

lemma chosen_ops_Cons:
  "chosen_ops sum64 i (c # chosen) (oper # opers) m =
   chosen_ops sum64 i chosen opers (if c then op_at sum64 i oper m else m)"
  by (simp add: chosen_ops_def)

definition acknowledged :: "err + 'a \<Rightarrow> bool \<Rightarrow> bool" where
  "acknowledged r c \<longleftrightarrow> (case r of Inl _ \<Rightarrow> True | Inr _ \<Rightarrow> c)"

context storage_service
begin

lemma compute_BatchPut_effect:
  assumes wf: "cs_wf s" and put: "compute_BatchPut sum64 net order finish items (s, n) = ((s', n'), r)"
    and ok: "op_ok sum64 (KV_BatchPut order finish items)"
  shows "writes_through kv (s, n) (s', n') (\<lambda>i. op_at sum64 i (KV_BatchPut order finish items)) r"
proof -
  let ?groups = "group_items sum64 items"
  obtain started e where started: "route_all (cs_router s) order = (started, e)"
    by force
  obtain s1 n1 count errs where run: "run_puts net ?groups (finish started) (s, n) = ((s1, n1), count, errs)"
    by (metis prod.collapse)
  note routed = route_all_routed [OF started]
  have order: "distinct order" "set order = set (map (\<lambda>item. compute_CalculatePartition sum64 (pkv_key item)) items)"
    using ok by simp_all
  have dist: "distinct (map fst started)"
    using routed order(1) by (auto simp: prefix_def)
  then have fin: "distinct (finish started)" "set (finish started) = set started"
    using ok by (simp_all add: distinct_map)
  have eff: "same_routes s s1 \<and> (\<forall>i. i \<notin> fst ` set started \<longrightarrow> store_of kv (s1, n1) i = store_of kv (s, n) i) \<and>
     (\<forall>i \<in> fst ` set started. store_of kv (s1, n1) i = fold put_item (items_at ?groups i) (store_of kv (s, n) i) \<or>
        errs \<noteq> [] \<and> store_of kv (s1, n1) i = store_of kv (s, n) i)"
  proof -
    have "\<forall>(i, a, ep) \<in> set (finish started).
        \<exists>part. map_of (crt_Partitions (cr_routeTable (cs_router s))) i = Some part \<and> cpi_Primary part = a"
      using routed fin(2) by simp
    from run_puts_effect [OF wf run this distinct_map_fst_permuted [OF dist fin]] show ?thesis
      unfolding fin(2) by blast
  qed
  have res: "s' = s1" "n' = n1" "errs \<noteq> [] \<longrightarrow> (\<exists>e. r = Inl e)" "e \<noteq> None \<longrightarrow> (\<exists>e. r = Inl e)"
    using put started run by (auto simp: compute_BatchPut_def split: option.splits list.splits)
  show ?thesis
    unfolding writes_through_def fst_conv
  proof (intro conjI allI)
    show "same_routes s s'"
      using eff res(1) by blast
  next
    fix i
    have at: "op_at sum64 i (KV_BatchPut order finish items) (store_of kv (s, n) i) =
        fold put_item (items_at ?groups i) (store_of kv (s, n) i)"
      by (simp add: items_at_group_items)
    show "store_of kv (s', n') i = op_at sum64 i (KV_BatchPut order finish items) (store_of kv (s, n) i) \<or>
        (\<exists>e. r = Inl e) \<and> store_of kv (s', n') i = store_of kv (s, n) i"
    proof (cases "i \<in> fst ` set started")
      case True
      then have "store_of kv (s', n') i = fold put_item (items_at ?groups i) (store_of kv (s, n) i) \<or>
          errs \<noteq> [] \<and> store_of kv (s', n') i = store_of kv (s, n) i"
        using eff res(1,2) by blast
      then show ?thesis
        unfolding at using res(3) by blast
    next
      case False
      then have same: "store_of kv (s', n') i = store_of kv (s, n) i"
        using eff res(1,2) by blast
      show ?thesis
      proof (cases "e = None")
        case True
        then have "i \<notin> set (map (\<lambda>item. compute_CalculatePartition sum64 (pkv_key item)) items)"
          using False routed order(2) by (metis set_map)
        from fold_put_item_Nil [OF this] show ?thesis
          using same by simp
      next
        case False
        then show ?thesis
          using same res(4) by blast
      qed
    qed
  qed
qed

lemma on_node_read:
  assumes "cs_wf s" and "on_node net nodeID call k (s, n) = ((s', n'), r)"
    and "\<And>conn n n' cr. call conn n = (n', cr) \<Longrightarrow> kv n' = kv n"
  shows "same_routes s s' \<and> kv n' = kv n"
  by (rule on_node_cases [OF assms(1,2)]) (auto dest: assms(3))

lemma do_reads:
  assumes wf: "cs_wf s"
  shows "doGet net nodeID key i (s, n) = ((s', n'), r) \<Longrightarrow>
      same_routes s s' \<and> kv n' = kv n \<and> (\<forall>resp. r = Inr resp \<longrightarrow> get_value resp = kv n nodeID i key)"
    and "doGetField net nodeID key f i (s, n) = ((s', n'), r) \<Longrightarrow>
      same_routes s s' \<and> kv n' = kv n \<and> (\<forall>resp. r = Inr resp \<longrightarrow> get_value resp = kv n nodeID i (field_slot key f))"
proof -
  assume get: "doGet net nodeID key i (s, n) = ((s', n'), r)"
  show "same_routes s s' \<and> kv n' = kv n \<and> (\<forall>resp. r = Inr resp \<longrightarrow> get_value resp = kv n nodeID i key)"
    by (rule on_node_cases [OF wf get [unfolded doGet_def]])
      (auto dest!: Get_answer simp: get_value_def read_result_def split: sum.splits if_splits)
next
  assume get: "doGetField net nodeID key f i (s, n) = ((s', n'), r)"
  show "same_routes s s' \<and> kv n' = kv n \<and> (\<forall>resp. r = Inr resp \<longrightarrow> get_value resp = kv n nodeID i (field_slot key f))"
    by (rule on_node_cases [OF wf get [unfolded doGetField_def]])
      (auto dest!: GetField_answer simp: get_value_def read_result_def split: sum.splits if_splits)
qed

lemma with_fallback_read:
  assumes wf: "cs_wf s" and fb: "with_fallback f primary replica (s, n) = ((s', n'), r)"
    and f: "\<And>nodeID s n s' n' r. cs_wf s \<Longrightarrow> f nodeID (s, n) = ((s', n'), r) \<Longrightarrow>
      same_routes s s' \<and> kv n' = kv n \<and> (\<forall>resp. r = Inr resp \<longrightarrow> get_value resp = kv n nodeID i k)"
  shows "same_routes s s' \<and> kv n' = kv n \<and> (\<forall>resp. r = Inr resp \<longrightarrow>
     (if \<exists>x. snd (f primary (s, n)) = Inr x then get_value resp = kv n primary i k else get_value resp = kv n replica i k))"
proof -
  obtain s1 n1 r1 where f1: "f primary (s, n) = ((s1, n1), r1)"
    by (metis prod.collapse)
  obtain s2 n2 r2 where f2: "f replica (s1, n1) = ((s2, n2), r2)"
    by (metis prod.collapse)
  note one = f [OF wf f1]
  have "cs_wf s1"
    using one by (simp add: same_routes_def)
  note two = f [OF this f2]
  have "same_routes s s2"
    using one two same_routes_trans by blast
  then show ?thesis
    using fb f1 f2 one two by (auto simp: with_fallback_def split: sum.splits)
qed

lemma compute_reads:
  assumes wf: "cs_wf s"
  shows "compute_Get sum64 net key (s, n) = ((s', n'), r) \<Longrightarrow> same_routes s s' \<and> kv n' = kv n \<and>
      (\<forall>resp. r = Inr resp \<longrightarrow> (\<exists>part. map_of (crt_Partitions (cr_routeTable (cs_router s))) (compute_CalculatePartition sum64 key) = Some part \<and>
         get_value resp = kv n (if \<exists>x. snd (doGet net (cpi_Primary part) key (compute_CalculatePartition sum64 key) (s, n)) = Inr x
           then cpi_Primary part else cpi_Replica part) (compute_CalculatePartition sum64 key) key))"
    and "compute_GetField sum64 net key f (s, n) = ((s', n'), r) \<Longrightarrow> same_routes s s' \<and> kv n' = kv n"
proof -
  let ?i = "compute_CalculatePartition sum64 key"
  let ?routed = "map_of (crt_Partitions (cr_routeTable (cs_router s))) ?i"
  assume get: "compute_Get sum64 net key (s, n) = ((s', n'), r)"
  show "same_routes s s' \<and> kv n' = kv n \<and> (\<forall>resp. r = Inr resp \<longrightarrow> (\<exists>part. ?routed = Some part \<and>
      get_value resp = kv n (if \<exists>x. snd (doGet net (cpi_Primary part) key ?i (s, n)) = Inr x
        then cpi_Primary part else cpi_Replica part) ?i key))"
  proof (cases ?routed)
    case None
    then show ?thesis
      using get wf by (auto simp: compute_Get_def compute_GetPartitionNodes_def GetPartitionNodesByID_def same_routes_refl)
  next
    case (Some part)
    then have "with_fallback (\<lambda>nodeID. doGet net nodeID key ?i) (cpi_Primary part) (cpi_Replica part) (s, n) = ((s', n'), r)"
      using get by (simp add: compute_Get_def compute_GetPartitionNodes_def GetPartitionNodesByID_def)
    from with_fallback_read [OF wf this, of ?i key] do_reads(1) show ?thesis
      using Some by auto
  qed
next
  let ?i = "compute_CalculatePartition sum64 key"
  assume get: "compute_GetField sum64 net key f (s, n) = ((s', n'), r)"
  show "same_routes s s' \<and> kv n' = kv n"
  proof (cases "map_of (crt_Partitions (cr_routeTable (cs_router s))) ?i")
    case None
    then show ?thesis
      using get wf by (auto simp: compute_GetField_def compute_GetPartitionNodes_def GetPartitionNodesByID_def same_routes_refl)
  next
    case (Some part)
    then have "with_fallback (\<lambda>nodeID. doGetField net nodeID key f ?i) (cpi_Primary part) (cpi_Replica part) (s, n) = ((s', n'), r)"
      using get by (simp add: compute_GetField_def compute_GetPartitionNodes_def GetPartitionNodesByID_def)
    from with_fallback_read [OF wf this, of ?i "field_slot key f"] do_reads(2) show ?thesis
      by auto
  qed
qed

lemma kv_exec_step:
  assumes wf: "cs_wf s" and exec: "kv_exec sum64 net oper (s, n) = ((s', n'), r)" and ok: "op_ok sum64 oper"
  shows "writes_through kv (s, n) (s', n') (\<lambda>i. op_at sum64 i oper) r"
proof -
  have reads: "writes_through kv (s, n) (s', n') (\<lambda>i m. m) r" if "same_routes s s' \<and> kv n' = kv n"
    using that same_routes_store [of s s' kv n' n] by (simp add: writes_through_def)
  show ?thesis
  proof (cases oper)
    case (KV_BatchPut order finish items)
    then show ?thesis
      using exec ok compute_BatchPut_effect [OF wf, of sum64 order finish items n] by (auto simp: map_prod_def split: prod.splits)
  next
    case (KV_Get key)
    then show ?thesis
      using exec reads compute_reads(1) [OF wf, of sum64 key n] by (auto simp: map_prod_def op_at.simps [abs_def] split: prod.splits)
  next
    case (KV_GetField key f)
    then show ?thesis
      using exec reads compute_reads(2) [OF wf, of sum64 key f n] by (auto simp: map_prod_def op_at.simps [abs_def] split: prod.splits)
  qed (use exec compute_writes [OF wf] in \<open>auto simp: map_prod_def split: prod.splits\<close>)
qed

lemma kv_runs_store:
  assumes "cs_wf s" and "list_all (op_ok sum64) opers" and "kv_runs sum64 net opers (s, n) = ((s', n'), rs)"
  shows "same_routes s s' \<and> (\<exists>chosen. length chosen = length opers \<and> list_all2 acknowledged rs chosen \<and>
     store_of kv (s', n') i = chosen_ops sum64 i chosen opers (store_of kv (s, n) i))"
  using assms
proof (induction opers arbitrary: s n rs)
  case Nil
  then show ?case
    by (simp add: same_routes_refl chosen_ops_def)
next
  case (Cons oper opers)
  obtain s1 n1 r where exec: "kv_exec sum64 net oper (s, n) = ((s1, n1), r)"
    by (metis prod.collapse)
  obtain st2 rs' where rest: "kv_runs sum64 net opers (s1, n1) = (st2, rs')"
    by (metis prod.collapse)
  have eqs: "st2 = (s', n')" "rs = r # rs'"
    using Cons.prems(3) exec rest by auto
  from kv_exec_step [OF Cons.prems(1) exec] Cons.prems(2)
  have step: "same_routes s s1" "store_of kv (s1, n1) i = op_at sum64 i oper (store_of kv (s, n) i) \<or>
      (\<exists>e. r = Inl e) \<and> store_of kv (s1, n1) i = store_of kv (s, n) i"
    by (auto simp: writes_through_def)
  have "cs_wf s1"
    using step(1) by (simp add: same_routes_def)
  then obtain chosen where chosen: "length chosen = length opers" "list_all2 acknowledged rs' chosen"
      "store_of kv (s', n') i = chosen_ops sum64 i chosen opers (store_of kv (s1, n1) i)" "same_routes s1 s'"
    using Cons.IH [of s1 n1 rs'] Cons.prems(2) rest eqs by auto
  define c where "c \<longleftrightarrow> store_of kv (s1, n1) i = op_at sum64 i oper (store_of kv (s, n) i)"
  have "acknowledged r c" "store_of kv (s1, n1) i = (if c then op_at sum64 i oper (store_of kv (s, n) i) else store_of kv (s, n) i)"
    using step(2) by (auto simp: acknowledged_def c_def split: sum.splits)
  then have "list_all2 acknowledged rs (c # chosen) \<and>
      store_of kv (s', n') i = chosen_ops sum64 i (c # chosen) (oper # opers) (store_of kv (s, n) i)"
    using chosen eqs(2) by (simp add: chosen_ops_Cons)
  then show ?case
    using chosen(1,4) step(1) same_routes_trans by (metis length_Cons)
qed

end

end
