(* ===== verification/Cluster.thy ===== *)
theory Cluster
  imports Compute Storage_Server
begin

text \<open>
  Compute nodes in front of storage servers. The storage nodes are servers by address; a call
  over gRPC runs the handler of the node it is connected to, is not delivered, or loses its
  response. Such a network provides what the compute handlers rely on, so their effect is that
  of the storage handlers behind the route table.
\<close>

section \<open>The network of storage servers\<close>

type_synonym 'db cluster = "(string \<times> 'db Server) list"

text \<open>\<open>link\<close> tells for a call whether the request and whether the response is lost.\<close>

type_synonym 'db link = "'db cluster \<Rightarrow> Conn \<Rightarrow> err option \<times> err option"

definition rpc ::
    "'db link \<Rightarrow> Conn \<Rightarrow> ('db Server \<Rightarrow> 'db Server \<times> (err + 'r)) \<Rightarrow> 'db cluster \<Rightarrow> 'db cluster \<times> (err + 'r)" where
  "rpc link conn handler n =
     (case map_of n (conn_target conn) of
        None \<Rightarrow> (n, Inl (ErrStatus Code_Unavailable (ErrRemote (conn_target conn))))
      | Some s \<Rightarrow>
          (case link n conn of
             (Some e, _) \<Rightarrow> (n, Inl e)
           | (None, lost) \<Rightarrow>
               let (s, r) = handler s
               in (AList.update (conn_target conn) s n, case lost of None \<Rightarrow> r | Some e \<Rightarrow> Inl e)))"

text \<open>A connection is made lazily, so dialling succeeds; \<open>clock\<close> are the readings of the node's clock.\<close>

definition cluster_net ::
    "('db, 'x) engine_scheme \<Rightarrow> ('db cluster \<Rightarrow> nat \<Rightarrow> nat \<times> nat) \<Rightarrow> 'db link \<Rightarrow> 'db cluster storage_net" where
  "cluster_net eng clock link =
     \<lparr>sn_Dial = (\<lambda>n addr. Inr \<lparr>conn_target = addr, conn_number = 0\<rparr>),
      sn_GetState = (\<lambda>n conn. 0),
      sn_Close = (\<lambda>conn n. (n, None)),
      sn_Get = (\<lambda>conn q. rpc link conn (\<lambda>s. (s, Inr (srv_Get eng q s)))),
      sn_Put = (\<lambda>conn q n. rpc link conn (\<lambda>s. map_prod id Inr (srv_Put eng (fst (clock n 0)) (snd (clock n 0)) q s)) n),
      sn_Delete = (\<lambda>conn q n. rpc link conn (\<lambda>s. map_prod id Inr (srv_Delete eng (fst (clock n 0)) (snd (clock n 0)) q s)) n),
      sn_GetField = (\<lambda>conn q. rpc link conn (\<lambda>s. (s, Inr (srv_GetField eng q s)))),
      sn_SetFields = (\<lambda>conn q n. rpc link conn (\<lambda>s. map_prod id Inr (srv_SetFields eng (fst (clock n 0)) (snd (clock n 0)) q s)) n),
      sn_DeleteField = (\<lambda>conn q n. rpc link conn (\<lambda>s. map_prod id Inr (srv_DeleteField eng (fst (clock n 0)) (snd (clock n 0)) q s)) n),
      sn_GetAllFields = (\<lambda>conn q. rpc link conn (\<lambda>s. (s, srv_GetAllFields eng q s))),
      sn_BatchPut = (\<lambda>conn q n. rpc link conn (\<lambda>s. map_prod id Inr (srv_BatchPut eng (clock n) q s)) n)\<rparr>"

definition cluster_kv :: "('db \<Rightarrow> contents) \<Rightarrow> 'db cluster node_contents" where
  "cluster_kv view n a =
     (case map_of n a of None \<Rightarrow> (\<lambda>i. Map.empty) | Some s \<Rightarrow> partition_view (view (srv_db s)))"

section \<open>The storage servers provide the service\<close>

lemma MakeFieldKey_slot: "MakeFieldKey i pk f = MakePartitionKey i (field_slot pk f)"
  by (simp add: key_defs field_slot_def)

lemma partition_view_field_op:
  "partition_view (batch_step (field_op i pk (to_FieldUpdate fv)) m) =
   (partition_view m)(i := set_field pk fv (partition_view m i))"
  by (simp add: field_op_def to_FieldUpdate_def Let_def MakeFieldKey_slot partition_view_upd set_field_def)

lemma partition_view_field_ops:
  "partition_view (fold batch_step (map (field_op i pk) (map to_FieldUpdate fvs)) m) =
   (partition_view m)(i := fold (set_field pk) fvs (partition_view m i))"
  by (induction fvs arbitrary: m) (simp_all add: partition_view_field_op)

lemma fold_put_item: "fold put_item items m = m ++ map_of (rev (map (\<lambda>item. (pkv_key item, pkv_value item)) items))"
proof (induction items rule: rev_induct)
  case (snoc item items)
  have "fold put_item (items @ [item]) m = (fold put_item items m)(pkv_key item \<mapsto> pkv_value item)"
    by (simp add: put_item_def [of item])
  also have "\<dots> = m ++ map_of (rev (map (\<lambda>item. (pkv_key item, pkv_value item)) (items @ [item])))"
    by (simp only: snoc) simp
  finally show ?case .
qed simp

lemma rpc_read:
  assumes "rpc link conn (\<lambda>s. (s, h s)) n = (n', r)"
  shows "cluster_kv view n' = cluster_kv view n"
    and "r = Inr resp \<Longrightarrow> \<exists>s. map_of n (conn_target conn) = Some s \<and> h s = Inr resp"
proof -
  show "cluster_kv view n' = cluster_kv view n"
  proof -
    have "map_of n' = map_of n"
      using assms by (auto simp: rpc_def update_conv' fun_upd_idem Let_def split: option.splits prod.splits)
    then show ?thesis
      by (simp add: cluster_kv_def fun_eq_iff)
  qed
  show "\<exists>s. map_of n (conn_target conn) = Some s \<and> h s = Inr resp" if "r = Inr resp"
    using assms that by (auto simp: rpc_def Let_def split: option.splits prod.splits)
qed

lemma rpc_write:
  assumes "rpc link conn h n = (n', r)"
    and "\<And>s s' hr. map_of n (conn_target conn) = Some s \<Longrightarrow> h s = (s', hr) \<Longrightarrow>
      partition_view (view (srv_db s')) = (if acked success code hr = Some True
        then (partition_view (view (srv_db s)))(i := f (partition_view (view (srv_db s)) i))
        else partition_view (view (srv_db s)))"
  shows "write_outcome (cluster_kv view) n n' (conn_target conn) i f (acked success code r)"
proof (cases "map_of n (conn_target conn)")
  case None
  then show ?thesis
    using assms(1) by (auto simp: rpc_def write_outcome_def acked_def)
next
  case (Some s)
  obtain s' hr where h: "h s = (s', hr)"
    by force
  note eff = assms(2) [OF Some h]
  have kv: "cluster_kv view (AList.update (conn_target conn) s' n) =
      (cluster_kv view n)(conn_target conn := partition_view (view (srv_db s')))"
    by (auto simp: cluster_kv_def update_conv' fun_eq_iff)
  have old: "cluster_kv view n (conn_target conn) = partition_view (view (srv_db s))"
    by (simp add: cluster_kv_def Some)
  then have same: "(cluster_kv view n)(conn_target conn := partition_view (view (srv_db s))) = cluster_kv view n"
    by auto
  show ?thesis
    using assms(1) Some h eff kv old same
    by (cases hr) (auto simp: rpc_def write_outcome_def acked_def Let_def split: option.splits prod.splits bool.splits if_splits)
qed

context rocks_engine
begin

text \<open>The four single writes, through the common description of their effect.\<close>

lemma serve_write_partition:
  assumes "serve_write eng ts now i epoch w s = (s', resp)"
  shows "partition_view (view (srv_db s')) = (if swr_success resp then partition_view (fold batch_step (write_ops i w) (view (srv_db s)))
     else partition_view (view (srv_db s)))"
    and "swr_success resp \<longleftrightarrow> swr_error resp = OK"
proof -
  have log: "srv_db (log_write ts now i w s1) = srv_db s1" for s1
    by (simp add: log_write_def split: option.splits prod.splits)
  show "partition_view (view (srv_db s')) = (if swr_success resp then partition_view (fold batch_step (write_ops i w) (view (srv_db s)))
     else partition_view (view (srv_db s)))"
    using serve_write_effect [OF assms] by (auto simp: log split: if_splits)
  show "swr_success resp \<longleftrightarrow> swr_error resp = OK"
    using assms by (cases w) (auto simp: write_handler_defs write_checks_def Let_def split: option.splits prod.splits if_splits)
qed

lemma BatchPut_partition:
  assumes "srv_BatchPut eng clock q s = (s', resp)"
  shows "partition_view (view (srv_db s')) = (if sbp_success resp
     then (partition_view (view (srv_db s)))(sbq_partition_id q := fold put_item (sbq_items q) (partition_view (view (srv_db s)) (sbq_partition_id q)))
     else partition_view (view (srv_db s)))"
    and "sbp_success resp \<longleftrightarrow> sbp_error resp = OK"
proof -
  let ?items = "map (\<lambda>item. \<lparr>kv_Key = pkv_key item, kv_Value = pkv_value item\<rparr>) (sbq_items q)"
  obtain pm e where put: "pm_BatchPut eng ?items (sbq_partition_id q) (srv_pm s) = (pm, e)"
    by force
  have "partition_view (view (pm_db pm)) = (if e = None
      then (partition_view (view (srv_db s)))(sbq_partition_id q := fold put_item (sbq_items q) (partition_view (view (srv_db s)) (sbq_partition_id q)))
      else partition_view (view (srv_db s)))"
    using pm_BatchPut_view [OF put] by (simp add: comp_def partition_view_add fold_put_item)
  then show "partition_view (view (srv_db s')) = (if sbp_success resp
     then (partition_view (view (srv_db s)))(sbq_partition_id q := fold put_item (sbq_items q) (partition_view (view (srv_db s)) (sbq_partition_id q)))
     else partition_view (view (srv_db s)))"
    using assms put by (auto simp: srv_BatchPut_def Let_def split: option.splits)
  show "sbp_success resp \<longleftrightarrow> sbp_error resp = OK"
    using assms by (auto simp: srv_BatchPut_def write_checks_def Let_def split: option.splits prod.splits if_splits)
qed

end

sublocale rocks_engine \<subseteq> service: storage_service "cluster_net eng clock link" "cluster_kv view" for clock link
proof
  show "sn_Dial (cluster_net eng clock link) n addr = Inr conn \<Longrightarrow> conn_target conn = addr" for n addr conn
    by (auto simp: cluster_net_def)
  show "sn_GetAllFields (cluster_net eng clock link) conn aq n = (n', ar) \<Longrightarrow> cluster_kv view n' = cluster_kv view n" for conn aq n n' ar
    by (simp add: cluster_net_def rpc_read(1))
  show "cluster_kv view n' = cluster_kv view n \<and> (case gr of Inl _ \<Rightarrow> True | Inr resp \<Rightarrow> sgr_error resp = OK \<longrightarrow>
      read_result resp = cluster_kv view n (conn_target conn) (sgq_partition_id gq) (sgq_key gq))"
    if "sn_Get (cluster_net eng clock link) conn gq n = (n', gr)" for conn gq n n' gr
  proof -
    from that have g: "rpc link conn (\<lambda>s. (s, Inr (srv_Get eng gq s))) n = (n', gr)"
      by (simp add: cluster_net_def)
    have "read_result resp = cluster_kv view n (conn_target conn) (sgq_partition_id gq) (sgq_key gq)"
      if "gr = Inr resp" "sgr_error resp = OK" for resp
      using rpc_read(2) [OF g that(1)] that(2) Get_found
      by (auto simp: srv_Get_def read_result_def cluster_kv_def pm_Get_def partition_view_def split: if_splits sum.splits option.splits)
    then show ?thesis
      using rpc_read(1) [OF g] by (auto split: sum.splits)
  qed
  show "cluster_kv view n' = cluster_kv view n \<and> (case fr of Inl _ \<Rightarrow> True | Inr resp \<Rightarrow> sgr_error resp = OK \<longrightarrow>
      read_result resp = cluster_kv view n (conn_target conn) (sgf_partition_id fq) (field_slot (sgf_primary_key fq) (sgf_field_name fq)))"
    if "sn_GetField (cluster_net eng clock link) conn fq n = (n', fr)" for conn fq n n' fr
  proof -
    from that have g: "rpc link conn (\<lambda>s. (s, Inr (srv_GetField eng fq s))) n = (n', fr)"
      by (simp add: cluster_net_def)
    have "read_result resp = cluster_kv view n (conn_target conn) (sgf_partition_id fq) (field_slot (sgf_primary_key fq) (sgf_field_name fq))"
      if "fr = Inr resp" "sgr_error resp = OK" for resp
      using rpc_read(2) [OF g that(1)] that(2) Get_found
      by (auto simp: srv_GetField_def GetField_def read_result_def cluster_kv_def partition_view_def MakeFieldKey_slot
          split: if_splits sum.splits option.splits)
    then show ?thesis
      using rpc_read(1) [OF g] by (auto split: sum.splits)
  qed
  have single: "write_outcome (cluster_kv view) n n' (conn_target conn) i f (acked swr_success swr_error r)"
    if "rpc link conn (\<lambda>s. map_prod id Inr (serve_write eng ts now i epoch w s)) n = (n', r)"
      and "\<And>m. partition_view (fold batch_step (write_ops i w) m) = (partition_view m)(i := f (partition_view m i))"
    for conn n n' r ts now i epoch w f
  proof (rule rpc_write [OF that(1)])
    fix s s' and hr :: "err + StorageWriteResponse"
    assume "map_prod id Inr (serve_write eng ts now i epoch w s) = (s', hr)"
    then obtain resp where h: "serve_write eng ts now i epoch w s = (s', resp)" "hr = Inr resp"
      by (auto simp: map_prod_def split: prod.splits)
    show "partition_view (view (srv_db s')) = (if acked swr_success swr_error hr = Some True
        then (partition_view (view (srv_db s)))(i := f (partition_view (view (srv_db s)) i))
        else partition_view (view (srv_db s)))"
      using serve_write_partition [OF h(1)] that(2) h(2) by (simp add: acked_def)
  qed
  show "sn_Put (cluster_net eng clock link) conn pq n = (n', pr) \<Longrightarrow>
      write_outcome (cluster_kv view) n n' (conn_target conn) (spq_partition_id pq) (\<lambda>m. m(spq_key pq \<mapsto> spq_value pq))
        (acked swr_success swr_error pr)" for conn pq n n' pr
    using single [where w = "WPut (spq_key pq) (spq_value pq)" and i = "spq_partition_id pq" and epoch = "spq_epoch pq" and
        f = "\<lambda>m. m(spq_key pq \<mapsto> spq_value pq)"]
    by (cases pq) (simp add: cluster_net_def partition_view_upd)
  show "sn_Delete (cluster_net eng clock link) conn dq n = (n', dr) \<Longrightarrow>
      write_outcome (cluster_kv view) n n' (conn_target conn) (sdq_partition_id dq) (\<lambda>m. m(sdq_key dq := None))
        (acked swr_success swr_error dr)" for conn dq n n' dr
    using single [where w = "WDelete (sdq_key dq)" and i = "sdq_partition_id dq" and epoch = "sdq_epoch dq" and
        f = "\<lambda>m. m(sdq_key dq := None)"]
    by (cases dq) (simp add: cluster_net_def partition_view_upd)
  show "sn_SetFields (cluster_net eng clock link) conn sq n = (n', sr) \<Longrightarrow>
      write_outcome (cluster_kv view) n n' (conn_target conn) (ssf_partition_id sq) (fold (set_field (ssf_primary_key sq)) (ssf_fields sq))
        (acked swr_success swr_error sr)" for conn sq n n' sr
    using single [where w = "WSetFields (ssf_primary_key sq) (ssf_fields sq)" and i = "ssf_partition_id sq" and epoch = "ssf_epoch sq" and
        f = "fold (set_field (ssf_primary_key sq)) (ssf_fields sq)"]
    by (cases sq) (simp add: cluster_net_def partition_view_field_ops del: map_map)
  show "sn_DeleteField (cluster_net eng clock link) conn eq n = (n', er) \<Longrightarrow>
      write_outcome (cluster_kv view) n n' (conn_target conn) (sdf_partition_id eq)
        (\<lambda>m. m(field_slot (sdf_primary_key eq) (sdf_field_name eq) := None)) (acked swr_success swr_error er)" for conn eq n n' er
    using single [where w = "WDeleteField (sdf_primary_key eq) (sdf_field_name eq)" and i = "sdf_partition_id eq" and epoch = "sdf_epoch eq" and
        f = "\<lambda>m. m(field_slot (sdf_primary_key eq) (sdf_field_name eq) := None)"]
    by (cases eq) (simp add: cluster_net_def field_op_def MakeFieldKey_slot partition_view_upd)
  show "write_outcome (cluster_kv view) n n' (conn_target conn) (sbq_partition_id bq) (fold put_item (sbq_items bq))
        (acked sbp_success sbp_error br)"
    if "sn_BatchPut (cluster_net eng clock link) conn bq n = (n', br)" for conn bq n n' br
  proof -
    from that have h: "rpc link conn (\<lambda>s. map_prod id Inr (srv_BatchPut eng (clock n) bq s)) n = (n', br)"
      by (simp add: cluster_net_def)
    show ?thesis
    proof (rule rpc_write [OF h])
      fix s s' and hr :: "err + StorageBatchPutResponse"
      assume "map_prod id Inr (srv_BatchPut eng (clock n) bq s) = (s', hr)"
      then obtain resp where b: "srv_BatchPut eng (clock n) bq s = (s', resp)" "hr = Inr resp"
        by (auto simp: map_prod_def split: prod.splits)
      show "partition_view (view (srv_db s')) = (if acked sbp_success sbp_error hr = Some True
          then (partition_view (view (srv_db s)))(sbq_partition_id bq := fold put_item (sbq_items bq) (partition_view (view (srv_db s)) (sbq_partition_id bq)))
          else partition_view (view (srv_db s)))"
        using BatchPut_partition [OF b(1)] b(2) by (simp add: acked_def)
    qed
  qed
qed

context rocks_engine
begin

lemma is_storage_service: "storage_service (cluster_net eng clock link) (cluster_kv view)"
  by (rule service.storage_service_axioms)

end

lemmas cluster_service = storage_service.kv_runs_store [OF rocks_engine.is_storage_service]
  storage_service.compute_reads(1) [OF rocks_engine.is_storage_service]

section \<open>Properties\<close>

text \<open>C1. Compute node and storage servers together are a store with one map per partition.
  After any sequence of requests through a compute node with a fixed route table, over any
  network that loses requests and responses, the contents of every partition on its primary are
  those of the requests done one after the other, except for some of the requests that were
  answered with an error: every acknowledged write has been done, in order, and the
  requests touch no other partition.\<close>

theorem cluster_implements_store:
  assumes "rocks_engine eng view" and "cs_wf s" and "list_all (op_ok sum64) opers"
    and "kv_runs sum64 (cluster_net eng clock link) opers (s, n) = ((s', n'), rs)"
  shows "\<exists>chosen. length chosen = length opers \<and> list_all2 acknowledged rs chosen \<and>
     store_of (cluster_kv view) (s', n') i = chosen_ops sum64 i chosen opers (store_of (cluster_kv view) (s, n) i)"
  using cluster_service(1) [OF assms] by blast

text \<open>A compute node that routes partition 7 to node \<open>a\<close> at epoch 3, and one storage node there.\<close>

definition example_compute :: compute_Server where
  "example_compute = (compute_NewServer None)\<lparr>cs_router := (compute_NewRouter ''c'' ''m'')\<lparr>cr_routeTable :=
     \<lparr>crt_Version = 1, crt_Partitions = [(7, from_pb \<lparr>pbi_partition_id = 7, pbi_primary = ''a'', pbi_replica = ''b'',
        pbi_status = NORMAL, pbi_migration_target = [], pbi_migration_state = MIGRATION_NONE, pbi_epoch = 3\<rparr>)]\<rparr>\<rparr>\<rparr>"

definition example_net :: "mem cluster storage_net" where
  "example_net = cluster_net (mem_engine None) (\<lambda>_ _. (0, 0)) (\<lambda>_ _. (None, None))"

lemma example_compute_wf: "cs_wf example_compute"
  using cs_wf_NewServer [of None] by (simp add: example_compute_def cs_wf_def)

lemma example_partition [simp]: "compute_CalculatePartition (\<lambda>_. 7) k = 7"
  by (simp add: compute_CalculatePartition_def compute_TotalPartitions_def)

lemmas example_rpc = example_net_def cluster_net_def rpc_def on_node_def storage_client_def getConn_def getConn_locked_def
  ResolveAddr_def example_compute_def compute_NewServer_def compute_NewRouter_def NewConnectionPool_def NewNodeResolver_def
  from_pb_def compute_GetPartitionNodes_def GetPartitionNodesByID_def

theorem cluster_implements_store_witness:
  "\<exists>st rs. kv_runs (\<lambda>_. 7) example_net [KV_Put [2] [11]] (example_compute, [(''a'', example_server True)]) = (st, rs) \<and>
     store_of (cluster_kv map_of) st 7 = [[1] \<mapsto> [10], [2] \<mapsto> [11]]"
proof -
  let ?init = "(example_compute, [(''a'', example_server True)])"
  obtain s' n' rs where run: "kv_runs (\<lambda>_. 7) example_net [KV_Put [2] [11]] ?init = ((s', n'), rs)"
    by (metis prod.collapse)
  have "snd (kv_runs (\<lambda>_. 7) example_net [KV_Put [2] [11]] ?init) = [Inr None]"
    by (simp add: compute_Put_def to_primary_def doPut_def example_rpc srv_Put_def example_simps pm_Put_def RocksDB_Put_def
        mem_engine_def mem_write_def enqueueReplication_def write_result_def)
  then have rs: "rs = [Inr None]"
    using run by simp
  have start: "store_of (cluster_kv map_of) ?init 7 = [[1] \<mapsto> [10]]"
    by (auto simp: store_of_def cluster_kv_def example_compute_def from_pb_def example_server_def partition_view_def compute_NewRouter_def)
  obtain chosen where "length chosen = 1" "list_all2 acknowledged rs chosen"
    "store_of (cluster_kv map_of) (s', n') 7 = chosen_ops (\<lambda>_. 7) 7 chosen [KV_Put [2] [11]] [[1] \<mapsto> [10]]"
    using cluster_implements_store [OF mem.rocks_engine_axioms example_compute_wf _ run [unfolded example_net_def], of 7] start
    by auto
  then show ?thesis
    using run by (auto simp: rs acknowledged_def chosen_ops_def length_Suc_conv)
qed

text \<open>C9. A read through a compute node that the primary answers returns the value of the store,
  so it sees every acknowledged write; when the primary's answer fails, the read returns what
  the replica holds. Reads change nothing.\<close>

theorem read_sees_store:
  assumes "rocks_engine eng view" and "cs_wf s"
    and "compute_Get sum64 (cluster_net eng clock link) key (s, n) = ((s', n'), Inr resp)"
  shows "cluster_kv view n' = cluster_kv view n \<and>
     (\<exists>part. map_of (crt_Partitions (cr_routeTable (cs_router s))) (compute_CalculatePartition sum64 key) = Some part \<and>
       (if \<exists>x. snd (doGet (cluster_net eng clock link) (cpi_Primary part) key (compute_CalculatePartition sum64 key) (s, n)) = Inr x
        then get_value resp = store_of (cluster_kv view) (s, n) (compute_CalculatePartition sum64 key) key
        else get_value resp = cluster_kv view n (cpi_Replica part) (compute_CalculatePartition sum64 key) key))"
  using cluster_service(2) [OF assms] by (auto simp: store_of_def)

theorem read_sees_store_witness:
  "\<exists>st resp. compute_Get (\<lambda>_. 7) example_net [1] (example_compute, [(''a'', example_server True)]) = (st, Inr resp) \<and>
     get_value resp = Some [10]"
proof -
  let ?get = "compute_Get (\<lambda>_. 7) example_net [1] (example_compute, [(''a'', example_server True)])"
  have get: "\<exists>resp. snd ?get = Inr resp"
    "snd (doGet example_net ''a'' [1] 7 (example_compute, [(''a'', example_server True)])) = Inr \<lparr>gr_value = [10], gr_found = True\<rparr>"
    by (simp_all add: compute_Get_def with_fallback_def doGet_def example_rpc srv_Get_def example_simps pm_Get_def RocksDB_Get_def
        mem_engine_def)
  obtain s' n' resp where g: "?get = ((s', n'), Inr resp)"
    using get(1) by (metis prod.collapse)
  have "store_of (cluster_kv map_of) (example_compute, [(''a'', example_server True)]) 7 [1] = Some [10]"
    by (simp add: store_of_def cluster_kv_def example_compute_def from_pb_def example_server_def partition_view_def compute_NewRouter_def)
  moreover have "map_of (crt_Partitions (cr_routeTable (cs_router example_compute))) 7 = Some part \<Longrightarrow> cpi_Primary part = ''a''" for part
    by (auto simp: example_compute_def from_pb_def compute_NewRouter_def)
  ultimately show ?thesis
    using read_sees_store [OF mem.rocks_engine_axioms example_compute_wf g [unfolded example_net_def]] get(2) g
    by (auto simp: example_net_def)
qed

end
