(* ===== verification/Meta_Store.thy ===== *)
theory Meta_Store
  imports Proto "HOL-Library.AList" "HOL-Library.Char_ord"
begin

text \<open>
  The metadata store: the types and the interface \<open>Store\<close> of \<open>src/pkg/metadata/store.go\<close> and its
  implementation on etcd, \<open>src/pkg/metadata/etcd.go\<close>.

  etcd is a parameter: a record of the operations the code calls on an abstract state. The values
  are JSON documents; a document is represented by the Go value it encodes (strings are
  valid UTF-8), and reading it as another type is an error. Time stamps that nothing reads
  are left out. The interface is a record of operations; the locale \<open>meta_store\<close> states what
  its clients rely on, in terms of an abstract state, and every etcd that behaves like a map
  provides it.
\<close>

section \<open>Types\<close>

definition ClusterStatePending :: string where "ClusterStatePending = ''pending''"

definition ClusterStateInitializing :: string where "ClusterStateInitializing = ''initializing''"

definition ClusterStateRunning :: string where "ClusterStateRunning = ''running''"

definition NodeRoleStorage :: string where "NodeRoleStorage = ''storage''"

definition NodeRoleCompute :: string where "NodeRoleCompute = ''compute''"

definition NodeRoleMetadata :: string where "NodeRoleMetadata = ''metadata''"

definition NodeStatusOnline :: string where "NodeStatusOnline = ''online''"

definition NodeStatusOffline :: string where "NodeStatusOffline = ''offline''"

definition NodeStatusDraining :: string where "NodeStatusDraining = ''draining''"

definition NodeStatusRemoved :: string where "NodeStatusRemoved = ''removed''"

definition PartitionStatusNormal :: string where "PartitionStatusNormal = ''normal''"

definition PartitionStatusMigratingOut :: string where "PartitionStatusMigratingOut = ''migrating_out''"

definition PartitionStatusMigratingIn :: string where "PartitionStatusMigratingIn = ''migrating_in''"

definition PartitionStatusOffline :: string where "PartitionStatusOffline = ''offline''"

record ClusterInfo =
  ci_State :: string
  ci_ReplicaCount :: int

record NodeInfo =
  ni_ID :: NodeID
  ni_Addr :: string
  ni_Role :: string
  ni_Status :: string
  ni_LastHeartbeat :: int
  ni_Partitions :: "u32 list"

record PartitionInfo =
  pi_ID :: u32
  pi_Primary :: string
  pi_Replica :: string
  pi_Status :: string
  pi_MigrationTarget :: string
  pi_MigrationState :: MigrationState
  pi_Epoch :: u64

record RouteTable =
  rt_Version :: u64
  rt_Partitions :: "(u32 \<times> PartitionInfo) list"

record MigrationInfo =
  mi_PartitionID :: u32
  mi_Target :: string
  mi_State :: MigrationState
  mi_IsPrimaryMove :: bool

definition NewRouteTable :: RouteTable where
  "NewRouteTable = \<lparr>rt_Version = 1, rt_Partitions = []\<rparr>"

section \<open>The interface\<close>

text \<open>\<open>UpdateRouteTable\<close> also sets the version of the table it is given, which it returns.\<close>

record 's Store =
  st_GetClusterInfo :: "'s \<Rightarrow> err + ClusterInfo"
  st_SetClusterState :: "string \<Rightarrow> 's \<Rightarrow> 's \<times> err option"
  st_RegisterNode :: "int \<Rightarrow> NodeInfo \<Rightarrow> 's \<Rightarrow> 's \<times> err option"
  st_UnregisterNode :: "NodeID \<Rightarrow> 's \<Rightarrow> 's \<times> err option"
  st_GetNode :: "NodeID \<Rightarrow> 's \<Rightarrow> err + NodeInfo option"
  st_ListNodes :: "string \<Rightarrow> 's \<Rightarrow> err + NodeInfo list"
  st_UpdateNodeHeartbeat :: "int \<Rightarrow> NodeID \<Rightarrow> 's \<Rightarrow> 's \<times> err option"
  st_UpdateNodeStatus :: "NodeID \<Rightarrow> string \<Rightarrow> 's \<Rightarrow> 's \<times> err option"
  st_GetRouteTable :: "'s \<Rightarrow> err + RouteTable"
  st_UpdateRouteTable :: "RouteTable \<Rightarrow> 's \<Rightarrow> ('s \<times> RouteTable) \<times> err option"
  st_SetMigrationState :: "u32 \<Rightarrow> MigrationInfo \<Rightarrow> 's \<Rightarrow> 's \<times> err option"
  st_GetMigrationState :: "u32 \<Rightarrow> 's \<Rightarrow> err + MigrationInfo option"
  st_DeleteMigrationState :: "u32 \<Rightarrow> 's \<Rightarrow> 's \<times> err option"

text \<open>What a store holds, and what its clients rely on. A write that reports an error may or
  may not have taken effect.\<close>

record meta_abs =
  ma_cluster :: ClusterInfo
  ma_nodes :: "NodeID \<rightharpoonup> NodeInfo"
  ma_table :: RouteTable
  ma_migrations :: "u32 \<rightharpoonup> MigrationInfo"

locale meta_store =
  fixes st :: "('s, 'x) Store_scheme" and holds :: "'s \<Rightarrow> meta_abs"
  assumes GetClusterInfo_ok: "st_GetClusterInfo st s = Inr c \<Longrightarrow> c = ma_cluster (holds s)"
    and SetClusterState_ok: "st_SetClusterState st v s = (s', None) \<Longrightarrow>
      holds s' = (holds s)\<lparr>ma_cluster := (ma_cluster (holds s))\<lparr>ci_State := v\<rparr>\<rparr>"
    and SetClusterState_failed: "st_SetClusterState st v s = (s', Some e) \<Longrightarrow>
      holds s' = holds s \<or> holds s' = (holds s)\<lparr>ma_cluster := (ma_cluster (holds s))\<lparr>ci_State := v\<rparr>\<rparr>"
    and GetNode_ok: "st_GetNode st nid s = Inr found \<Longrightarrow> found = ma_nodes (holds s) nid"
    and ListNodes_ok: "st_ListNodes st role s = Inr ns \<Longrightarrow>
      set ns = {n \<in> ran (ma_nodes (holds s)). role = [] \<or> ni_Role n = role}"
    and RegisterNode_ok: "st_RegisterNode st now n s = (s', None) \<Longrightarrow>
      holds s' = (holds s)\<lparr>ma_nodes := (ma_nodes (holds s))(ni_ID n \<mapsto> n\<lparr>ni_LastHeartbeat := now, ni_Status := ''online''\<rparr>)\<rparr>"
    and UpdateNodeStatus_ok: "st_UpdateNodeStatus st nid v s = (s', None) \<Longrightarrow>
      \<exists>n. ma_nodes (holds s) nid = Some n \<and> holds s' = (holds s)\<lparr>ma_nodes := (ma_nodes (holds s))(nid \<mapsto> n\<lparr>ni_Status := v\<rparr>)\<rparr>"
    and UpdateNodeHeartbeat_same: "st_UpdateNodeHeartbeat st now nid s = (s', r) \<Longrightarrow> holds s' = holds s"
    and GetRouteTable_ok: "st_GetRouteTable st s = Inr t \<Longrightarrow> t = ma_table (holds s)"
    and UpdateRouteTable_ok: "st_UpdateRouteTable st t s = ((s', t'), None) \<Longrightarrow>
      t' = t\<lparr>rt_Version := rt_Version (ma_table (holds s)) + 1\<rparr> \<and> holds s' = (holds s)\<lparr>ma_table := t'\<rparr>"
    and UpdateRouteTable_failed: "st_UpdateRouteTable st t s = ((s', t'), Some e) \<Longrightarrow>
      holds s' = holds s \<or> holds s' = (holds s)\<lparr>ma_table := t\<lparr>rt_Version := rt_Version (ma_table (holds s)) + 1\<rparr>\<rparr>"
    and SetMigrationState_ok: "st_SetMigrationState st i m s = (s', None) \<Longrightarrow>
      holds s' = (holds s)\<lparr>ma_migrations := (ma_migrations (holds s))(i \<mapsto> m)\<rparr>"
    and GetMigrationState_ok: "st_GetMigrationState st i s = Inr mo \<Longrightarrow> mo = ma_migrations (holds s) i"
    and DeleteMigrationState_ok: "st_DeleteMigrationState st i s = (s', None) \<Longrightarrow>
      holds s' = (holds s)\<lparr>ma_migrations := (ma_migrations (holds s))(i := None)\<rparr>"
    and DeleteMigrationState_failed: "st_DeleteMigrationState st i s = (s', Some e) \<Longrightarrow>
      holds s' = holds s \<or> holds s' = (holds s)\<lparr>ma_migrations := (ma_migrations (holds s))(i := None)\<rparr>"
    and UpdateNodeStatus_failed: "st_UpdateNodeStatus st nid v s = (s', Some e) \<Longrightarrow> holds s' = holds s \<or>
      (\<exists>n. ma_nodes (holds s) nid = Some n \<and> holds s' = (holds s)\<lparr>ma_nodes := (ma_nodes (holds s))(nid \<mapsto> n\<lparr>ni_Status := v\<rparr>)\<rparr>)"
    and RegisterNode_frame: "st_RegisterNode st now n s = (s', r) \<Longrightarrow> ma_table (holds s') = ma_table (holds s)"
    and SetMigrationState_frame: "st_SetMigrationState st i m s = (s', r) \<Longrightarrow> ma_table (holds s') = ma_table (holds s)"

context meta_store
begin

text \<open>A change of status, successful or not.\<close>

lemma UpdateNodeStatus_cases:
  assumes "st_UpdateNodeStatus st nid v s = (s', r)"
  shows "holds s' = holds s \<and> r \<noteq> None \<or>
    (\<exists>n. ma_nodes (holds s) nid = Some n \<and> holds s' = (holds s)\<lparr>ma_nodes := (ma_nodes (holds s))(nid \<mapsto> n\<lparr>ni_Status := v\<rparr>)\<rparr>)"
  using assms UpdateNodeStatus_ok [of nid v s s'] UpdateNodeStatus_failed [of nid v s s'] by (cases r) auto

end

section \<open>etcd\<close>

datatype meta_value =
    JCluster ClusterInfo
  | JNode NodeInfo
  | JRoute RouteTable
  | JPartition PartitionInfo
  | JMigration MigrationInfo
  | JHeartbeat int

record 'e etcd =
  etcd_Get :: "'e \<Rightarrow> string \<Rightarrow> err + meta_value option"
  etcd_List :: "'e \<Rightarrow> string \<Rightarrow> err + (string \<times> meta_value) list"
  etcd_Put :: "'e \<Rightarrow> string \<Rightarrow> meta_value \<Rightarrow> 'e \<times> err option"
  etcd_Delete :: "'e \<Rightarrow> string \<Rightarrow> 'e \<times> err option"
  etcd_Grant :: "'e \<Rightarrow> err option"
  etcd_Lock :: "'e \<Rightarrow> err option"

definition nodePrefix :: string where "nodePrefix = ''/rockskv/nodes/''"

definition heartbeatPrefix :: string where "heartbeatPrefix = ''/rockskv/heartbeats/''"

definition routeTableKey :: string where "routeTableKey = ''/rockskv/route_table''"

definition partitionPrefix :: string where "partitionPrefix = ''/rockskv/partitions/''"

definition migrationPrefix :: string where "migrationPrefix = ''/rockskv/migrations/''"

definition clusterInfoKey :: string where "clusterInfoKey = ''/rockskv/cluster_info''"

definition defaultReplicaCount :: int where "defaultReplicaCount = 2"

section \<open>The store on etcd\<close>

definition es_GetClusterInfo :: "('e, 'x) etcd_scheme \<Rightarrow> 'e \<Rightarrow> err + ClusterInfo" where
  "es_GetClusterInfo etcd s =
     (case etcd_Get etcd s clusterInfoKey of
        Inl e \<Rightarrow> Inl e
      | Inr None \<Rightarrow> Inr \<lparr>ci_State = ClusterStatePending, ci_ReplicaCount = defaultReplicaCount\<rparr>
      | Inr (Some (JCluster info)) \<Rightarrow> Inr info
      | Inr (Some _) \<Rightarrow> Inl ErrJSON)"

definition es_SetClusterState :: "('e, 'x) etcd_scheme \<Rightarrow> string \<Rightarrow> 'e \<Rightarrow> 'e \<times> err option" where
  "es_SetClusterState etcd state s =
     (case es_GetClusterInfo etcd s of
        Inl e \<Rightarrow> (s, Some e)
      | Inr info \<Rightarrow> etcd_Put etcd s clusterInfoKey (JCluster (info\<lparr>ci_State := state\<rparr>)))"

definition es_RegisterNode :: "('e, 'x) etcd_scheme \<Rightarrow> int \<Rightarrow> NodeInfo \<Rightarrow> 'e \<Rightarrow> 'e \<times> err option" where
  "es_RegisterNode etcd now node s =
     (let node = node\<lparr>ni_LastHeartbeat := now, ni_Status := ''online''\<rparr>
      in etcd_Put etcd s (nodePrefix @ ni_ID node) (JNode node))"

definition es_UnregisterNode :: "('e, 'x) etcd_scheme \<Rightarrow> NodeID \<Rightarrow> 'e \<Rightarrow> 'e \<times> err option" where
  "es_UnregisterNode etcd nodeID s = etcd_Delete etcd s (nodePrefix @ nodeID)"

definition es_GetNode :: "('e, 'x) etcd_scheme \<Rightarrow> NodeID \<Rightarrow> 'e \<Rightarrow> err + NodeInfo option" where
  "es_GetNode etcd nodeID s =
     (case etcd_Get etcd s (nodePrefix @ nodeID) of
        Inl e \<Rightarrow> Inl e
      | Inr None \<Rightarrow> Inr None
      | Inr (Some (JNode node)) \<Rightarrow> Inr (Some node)
      | Inr (Some _) \<Rightarrow> Inl ErrJSON)"

text \<open>A document that is no node is skipped.\<close>

fun nodes_of :: "string \<Rightarrow> (string \<times> meta_value) list \<Rightarrow> NodeInfo list" where
  "nodes_of role [] = []"
| "nodes_of role ((k, JNode node) # kvs) =
     (if role = [] \<or> ni_Role node = role then node # nodes_of role kvs else nodes_of role kvs)"
| "nodes_of role ((k, _) # kvs) = nodes_of role kvs"

definition es_ListNodes :: "('e, 'x) etcd_scheme \<Rightarrow> string \<Rightarrow> 'e \<Rightarrow> err + NodeInfo list" where
  "es_ListNodes etcd role s =
     (case etcd_List etcd s nodePrefix of Inl e \<Rightarrow> Inl e | Inr kvs \<Rightarrow> Inr (nodes_of role kvs))"

text \<open>The lease of the heartbeat key removes it after its time; the key is written here only.\<close>

definition es_UpdateNodeHeartbeat :: "('e, 'x) etcd_scheme \<Rightarrow> int \<Rightarrow> NodeID \<Rightarrow> 'e \<Rightarrow> 'e \<times> err option" where
  "es_UpdateNodeHeartbeat etcd now nodeID s =
     (case es_GetNode etcd nodeID s of
        Inl e \<Rightarrow> (s, Some e)
      | Inr None \<Rightarrow> (s, Some (ErrNodeNotFound nodeID))
      | Inr (Some _) \<Rightarrow>
          (case etcd_Grant etcd s of
             Some e \<Rightarrow> (s, Some e)
           | None \<Rightarrow> etcd_Put etcd s (heartbeatPrefix @ nodeID) (JHeartbeat now)))"

definition es_UpdateNodeStatus :: "('e, 'x) etcd_scheme \<Rightarrow> NodeID \<Rightarrow> string \<Rightarrow> 'e \<Rightarrow> 'e \<times> err option" where
  "es_UpdateNodeStatus etcd nodeID status s =
     (case es_GetNode etcd nodeID s of
        Inl e \<Rightarrow> (s, Some e)
      | Inr None \<Rightarrow> (s, Some (ErrNodeNotFound nodeID))
      | Inr (Some node) \<Rightarrow> etcd_Put etcd s (nodePrefix @ nodeID) (JNode (node\<lparr>ni_Status := status\<rparr>)))"

definition es_GetRouteTable :: "('e, 'x) etcd_scheme \<Rightarrow> 'e \<Rightarrow> err + RouteTable" where
  "es_GetRouteTable etcd s =
     (case etcd_Get etcd s routeTableKey of
        Inl e \<Rightarrow> Inl e
      | Inr None \<Rightarrow> Inr NewRouteTable
      | Inr (Some (JRoute table)) \<Rightarrow> Inr table
      | Inr (Some _) \<Rightarrow> Inl ErrJSON)"

definition es_UpdateRouteTable ::
    "('e, 'x) etcd_scheme \<Rightarrow> RouteTable \<Rightarrow> 'e \<Rightarrow> ('e \<times> RouteTable) \<times> err option" where
  "es_UpdateRouteTable etcd table s =
     (case etcd_Lock etcd s of
        Some e \<Rightarrow> ((s, table), Some e)
      | None \<Rightarrow>
          (case es_GetRouteTable etcd s of
             Inl e \<Rightarrow> ((s, table), Some e)
           | Inr current \<Rightarrow>
               let table = table\<lparr>rt_Version := rt_Version current + 1\<rparr>;
                   (s', e) = etcd_Put etcd s routeTableKey (JRoute table)
               in ((s', table), e)))"

definition es_GetPartition :: "('e, 'x) etcd_scheme \<Rightarrow> u32 \<Rightarrow> 'e \<Rightarrow> err + PartitionInfo option" where
  "es_GetPartition etcd partitionID s =
     (case etcd_Get etcd s (partitionPrefix @ digits (unat partitionID)) of
        Inl e \<Rightarrow> Inl e
      | Inr None \<Rightarrow> Inr None
      | Inr (Some (JPartition part)) \<Rightarrow> Inr (Some part)
      | Inr (Some _) \<Rightarrow> Inl ErrJSON)"

definition es_UpdatePartition :: "('e, 'x) etcd_scheme \<Rightarrow> PartitionInfo \<Rightarrow> 'e \<Rightarrow> 'e \<times> err option" where
  "es_UpdatePartition etcd part s =
     etcd_Put etcd s (partitionPrefix @ digits (unat (pi_ID part))) (JPartition part)"

definition es_SetMigrationState ::
    "('e, 'x) etcd_scheme \<Rightarrow> u32 \<Rightarrow> MigrationInfo \<Rightarrow> 'e \<Rightarrow> 'e \<times> err option" where
  "es_SetMigrationState etcd partitionID state s =
     etcd_Put etcd s (migrationPrefix @ digits (unat partitionID)) (JMigration state)"

definition es_GetMigrationState :: "('e, 'x) etcd_scheme \<Rightarrow> u32 \<Rightarrow> 'e \<Rightarrow> err + MigrationInfo option" where
  "es_GetMigrationState etcd partitionID s =
     (case etcd_Get etcd s (migrationPrefix @ digits (unat partitionID)) of
        Inl e \<Rightarrow> Inl e
      | Inr None \<Rightarrow> Inr None
      | Inr (Some (JMigration state)) \<Rightarrow> Inr (Some state)
      | Inr (Some _) \<Rightarrow> Inl ErrJSON)"

definition es_DeleteMigrationState :: "('e, 'x) etcd_scheme \<Rightarrow> u32 \<Rightarrow> 'e \<Rightarrow> 'e \<times> err option" where
  "es_DeleteMigrationState etcd partitionID s =
     etcd_Delete etcd s (migrationPrefix @ digits (unat partitionID))"

definition EtcdStore :: "('e, 'x) etcd_scheme \<Rightarrow> 'e Store" where
  "EtcdStore etcd =
     \<lparr>st_GetClusterInfo = es_GetClusterInfo etcd, st_SetClusterState = es_SetClusterState etcd,
      st_RegisterNode = es_RegisterNode etcd, st_UnregisterNode = es_UnregisterNode etcd,
      st_GetNode = es_GetNode etcd, st_ListNodes = es_ListNodes etcd,
      st_UpdateNodeHeartbeat = es_UpdateNodeHeartbeat etcd, st_UpdateNodeStatus = es_UpdateNodeStatus etcd,
      st_GetRouteTable = es_GetRouteTable etcd, st_UpdateRouteTable = es_UpdateRouteTable etcd,
      st_SetMigrationState = es_SetMigrationState etcd, st_GetMigrationState = es_GetMigrationState etcd,
      st_DeleteMigrationState = es_DeleteMigrationState etcd\<rparr>"

text \<open>What the code relies on: etcd is a map; a list reads the keys with a prefix; a failed write
  may or may not have taken effect.\<close>

locale etcd_kv =
  fixes etcd :: "('e, 'x) etcd_scheme" and view :: "'e \<Rightarrow> string \<rightharpoonup> meta_value"
  assumes Get_found: "etcd_Get etcd s k = Inr found \<Longrightarrow> found = view s k"
    and List_found: "etcd_List etcd s k = Inr kvs \<Longrightarrow> set kvs = {(x, v). view s x = Some v \<and> prefix k x}"
    and Put_done: "etcd_Put etcd s k v = (s', None) \<Longrightarrow> view s' = (view s)(k \<mapsto> v)"
    and Put_unsure: "etcd_Put etcd s k v = (s', Some e) \<Longrightarrow> view s' = view s \<or> view s' = (view s)(k \<mapsto> v)"
    and Delete_done: "etcd_Delete etcd s k = (s', None) \<Longrightarrow> view s' = (view s)(k := None)"
    and Delete_unsure: "etcd_Delete etcd s k = (s', Some e) \<Longrightarrow> view s' = view s \<or> view s' = (view s)(k := None)"

definition etcd_abs :: "(string \<rightharpoonup> meta_value) \<Rightarrow> meta_abs" where
  "etcd_abs m =
     \<lparr>ma_cluster = (case m clusterInfoKey of Some (JCluster c) \<Rightarrow> c
        | _ \<Rightarrow> \<lparr>ci_State = ClusterStatePending, ci_ReplicaCount = defaultReplicaCount\<rparr>),
      ma_nodes = (\<lambda>i. case m (nodePrefix @ i) of Some (JNode n) \<Rightarrow> Some n | _ \<Rightarrow> None),
      ma_table = (case m routeTableKey of Some (JRoute t) \<Rightarrow> t | _ \<Rightarrow> NewRouteTable),
      ma_migrations = (\<lambda>i. case m (migrationPrefix @ digits (unat i)) of Some (JMigration x) \<Rightarrow> Some x | _ \<Rightarrow> None)\<rparr>"

lemma meta_keys [simp]:
  "nodePrefix @ i \<noteq> clusterInfoKey" "nodePrefix @ i \<noteq> routeTableKey" "nodePrefix @ i \<noteq> migrationPrefix @ x"
  "clusterInfoKey \<noteq> routeTableKey" "migrationPrefix @ x \<noteq> clusterInfoKey" "migrationPrefix @ x \<noteq> routeTableKey"
  "heartbeatPrefix @ i \<noteq> clusterInfoKey" "heartbeatPrefix @ i \<noteq> routeTableKey"
  "heartbeatPrefix @ i \<noteq> migrationPrefix @ x" "heartbeatPrefix @ i \<noteq> nodePrefix @ x"
  by (simp_all add: nodePrefix_def clusterInfoKey_def routeTableKey_def migrationPrefix_def heartbeatPrefix_def)

lemmas meta_keys' [simp] = meta_keys [symmetric]

text \<open>The effect of a write under each key on the abstract state.\<close>

lemma etcd_abs_Put [simp]:
  "etcd_abs (m(clusterInfoKey \<mapsto> JCluster c)) = (etcd_abs m)\<lparr>ma_cluster := c\<rparr>"
  "etcd_abs (m(nodePrefix @ i \<mapsto> JNode n)) = (etcd_abs m)\<lparr>ma_nodes := (ma_nodes (etcd_abs m))(i \<mapsto> n)\<rparr>"
  "etcd_abs (m(routeTableKey \<mapsto> JRoute t)) = (etcd_abs m)\<lparr>ma_table := t\<rparr>"
  "etcd_abs (m(migrationPrefix @ digits (unat j) \<mapsto> JMigration x)) =
     (etcd_abs m)\<lparr>ma_migrations := (ma_migrations (etcd_abs m))(j \<mapsto> x)\<rparr>"
  "etcd_abs (m(migrationPrefix @ digits (unat j) := None)) =
     (etcd_abs m)\<lparr>ma_migrations := (ma_migrations (etcd_abs m))(j := None)\<rparr>"
  "etcd_abs (m(heartbeatPrefix @ i \<mapsto> v)) = etcd_abs m"
  by (auto simp: etcd_abs_def fun_eq_iff word_unat_eq_iff)

lemma set_nodes_of: "set (nodes_of role kvs) = {n. (\<exists>k. (k, JNode n) \<in> set kvs) \<and> (role = [] \<or> ni_Role n = role)}"
  by (induction role kvs rule: nodes_of.induct) auto

context etcd_kv
begin

lemma Get_kinds:
  "es_GetClusterInfo etcd s = Inr c \<Longrightarrow> c = ma_cluster (etcd_abs (view s))"
  "es_GetNode etcd i s = Inr found \<Longrightarrow> found = ma_nodes (etcd_abs (view s)) i"
  "es_GetRouteTable etcd s = Inr t \<Longrightarrow> t = ma_table (etcd_abs (view s))"
  "es_GetMigrationState etcd j s = Inr mo \<Longrightarrow> mo = ma_migrations (etcd_abs (view s)) j"
  by (auto simp: es_GetClusterInfo_def es_GetNode_def es_GetRouteTable_def es_GetMigrationState_def etcd_abs_def
      split: sum.splits option.splits meta_value.splits dest!: Get_found)

lemma Put_cases:
  assumes "etcd_Put etcd s k v = (s', r)"
  shows "view s' = (view s)(k \<mapsto> v) \<or> r \<noteq> None \<and> view s' = view s"
  using assms Put_done [of s k v s'] Put_unsure [of s k v s'] by (cases r) auto

lemma Delete_cases:
  assumes "etcd_Delete etcd s k = (s', r)"
  shows "view s' = (view s)(k := None) \<or> r \<noteq> None \<and> view s' = view s"
  using assms Delete_done [of s k s'] Delete_unsure [of s k s'] by (cases r) auto

end

sublocale etcd_kv \<subseteq> meta_store "EtcdStore etcd" "\<lambda>s. etcd_abs (view s)"
proof
  show "st_GetClusterInfo (EtcdStore etcd) s = Inr c \<Longrightarrow> c = ma_cluster (etcd_abs (view s))" for s c
    by (simp add: EtcdStore_def Get_kinds)
  show "st_GetNode (EtcdStore etcd) i s = Inr found \<Longrightarrow> found = ma_nodes (etcd_abs (view s)) i" for i s found
    by (simp add: EtcdStore_def Get_kinds)
  show "st_GetRouteTable (EtcdStore etcd) s = Inr t \<Longrightarrow> t = ma_table (etcd_abs (view s))" for s t
    by (simp add: EtcdStore_def Get_kinds)
  show "st_GetMigrationState (EtcdStore etcd) i s = Inr mo \<Longrightarrow> mo = ma_migrations (etcd_abs (view s)) i" for i s mo
    by (simp add: EtcdStore_def Get_kinds)
  show "st_SetClusterState (EtcdStore etcd) v s = (s', None) \<Longrightarrow> etcd_abs (view s') =
      (etcd_abs (view s))\<lparr>ma_cluster := (ma_cluster (etcd_abs (view s)))\<lparr>ci_State := v\<rparr>\<rparr>" for v s s'
    by (auto simp: EtcdStore_def es_SetClusterState_def split: sum.splits dest!: Put_done Get_kinds(1))
  show "st_SetClusterState (EtcdStore etcd) v s = (s', Some e) \<Longrightarrow> etcd_abs (view s') = etcd_abs (view s) \<or>
      etcd_abs (view s') = (etcd_abs (view s))\<lparr>ma_cluster := (ma_cluster (etcd_abs (view s)))\<lparr>ci_State := v\<rparr>\<rparr>" for v s s' e
    by (auto simp: EtcdStore_def es_SetClusterState_def split: sum.splits dest!: Put_unsure Get_kinds(1))
  show "st_ListNodes (EtcdStore etcd) role s = Inr ns \<Longrightarrow>
      set ns = {n \<in> ran (ma_nodes (etcd_abs (view s))). role = [] \<or> ni_Role n = role}" for role s ns
    by (fastforce simp: EtcdStore_def es_ListNodes_def set_nodes_of etcd_abs_def ran_def prefix_def
        split: sum.splits option.splits meta_value.splits dest!: List_found)
  show "st_RegisterNode (EtcdStore etcd) now n s = (s', None) \<Longrightarrow> etcd_abs (view s') =
      (etcd_abs (view s))\<lparr>ma_nodes := (ma_nodes (etcd_abs (view s)))(ni_ID n \<mapsto> n\<lparr>ni_LastHeartbeat := now, ni_Status := ''online''\<rparr>)\<rparr>" for now n s s'
    by (auto simp: EtcdStore_def es_RegisterNode_def dest!: Put_done)
  show "st_UpdateNodeStatus (EtcdStore etcd) nid v s = (s', None) \<Longrightarrow>
      \<exists>n. ma_nodes (etcd_abs (view s)) nid = Some n \<and>
        etcd_abs (view s') = (etcd_abs (view s))\<lparr>ma_nodes := (ma_nodes (etcd_abs (view s)))(nid \<mapsto> n\<lparr>ni_Status := v\<rparr>)\<rparr>" for nid v s s'
    by (auto simp: EtcdStore_def es_UpdateNodeStatus_def split: sum.splits option.splits dest!: Put_done Get_kinds(2) [symmetric])
  show "st_UpdateNodeHeartbeat (EtcdStore etcd) now nid s = (s', r) \<Longrightarrow> etcd_abs (view s') = etcd_abs (view s)" for now nid s s' r
    by (auto simp: EtcdStore_def es_UpdateNodeHeartbeat_def split: sum.splits option.splits dest!: Put_cases)
  show "st_UpdateRouteTable (EtcdStore etcd) t s = ((s', t'), None) \<Longrightarrow>
      t' = t\<lparr>rt_Version := rt_Version (ma_table (etcd_abs (view s))) + 1\<rparr> \<and> etcd_abs (view s') = (etcd_abs (view s))\<lparr>ma_table := t'\<rparr>" for t s s' t'
    by (auto simp: EtcdStore_def es_UpdateRouteTable_def Let_def split: sum.splits option.splits prod.splits
        dest!: Put_done Get_kinds(3))
  show "st_UpdateRouteTable (EtcdStore etcd) t s = ((s', t'), Some e) \<Longrightarrow> etcd_abs (view s') = etcd_abs (view s) \<or>
      etcd_abs (view s') = (etcd_abs (view s))\<lparr>ma_table := t\<lparr>rt_Version := rt_Version (ma_table (etcd_abs (view s))) + 1\<rparr>\<rparr>" for t s s' t' e
    by (auto simp: EtcdStore_def es_UpdateRouteTable_def Let_def split: sum.splits option.splits prod.splits
        dest!: Put_unsure Get_kinds(3))
  show "st_SetMigrationState (EtcdStore etcd) i m s = (s', None) \<Longrightarrow>
      etcd_abs (view s') = (etcd_abs (view s))\<lparr>ma_migrations := (ma_migrations (etcd_abs (view s)))(i \<mapsto> m)\<rparr>" for i m s s'
    by (auto simp: EtcdStore_def es_SetMigrationState_def dest!: Put_done)
  show "st_DeleteMigrationState (EtcdStore etcd) i s = (s', None) \<Longrightarrow>
      etcd_abs (view s') = (etcd_abs (view s))\<lparr>ma_migrations := (ma_migrations (etcd_abs (view s)))(i := None)\<rparr>" for i s s'
    by (auto simp: EtcdStore_def es_DeleteMigrationState_def dest!: Delete_done)
  show "st_DeleteMigrationState (EtcdStore etcd) i s = (s', Some e) \<Longrightarrow> etcd_abs (view s') = etcd_abs (view s) \<or>
      etcd_abs (view s') = (etcd_abs (view s))\<lparr>ma_migrations := (ma_migrations (etcd_abs (view s)))(i := None)\<rparr>" for i s s' e
    by (auto simp: EtcdStore_def es_DeleteMigrationState_def dest!: Delete_unsure)
  show "st_UpdateNodeStatus (EtcdStore etcd) nid v s = (s', Some e) \<Longrightarrow> etcd_abs (view s') = etcd_abs (view s) \<or>
      (\<exists>n. ma_nodes (etcd_abs (view s)) nid = Some n \<and>
        etcd_abs (view s') = (etcd_abs (view s))\<lparr>ma_nodes := (ma_nodes (etcd_abs (view s)))(nid \<mapsto> n\<lparr>ni_Status := v\<rparr>)\<rparr>)" for nid v s s' e
    by (auto simp: EtcdStore_def es_UpdateNodeStatus_def split: sum.splits option.splits dest!: Put_cases Get_kinds(2) [symmetric])
  show "st_RegisterNode (EtcdStore etcd) now n s = (s', r) \<Longrightarrow> ma_table (etcd_abs (view s')) = ma_table (etcd_abs (view s))" for now n s s' r
    by (auto simp: EtcdStore_def es_RegisterNode_def dest!: Put_cases)
  show "st_SetMigrationState (EtcdStore etcd) i m s = (s', r) \<Longrightarrow> ma_table (etcd_abs (view s')) = ma_table (etcd_abs (view s))" for i m s s' r
    by (auto simp: EtcdStore_def es_SetMigrationState_def dest!: Put_cases)
qed

context etcd_kv
begin

lemma is_meta_store: "meta_store (EtcdStore etcd) (\<lambda>s. etcd_abs (view s))"
  by (rule meta_store_axioms)

end

section \<open>An etcd in memory\<close>

text \<open>An association list is an etcd; with a fault, every write fails and changes nothing.\<close>

definition mem_etcd :: "err option \<Rightarrow> (string \<times> meta_value) list etcd" where
  "mem_etcd fault =
     \<lparr>etcd_Get = (\<lambda>s k. Inr (map_of s k)),
      etcd_List = (\<lambda>s p. Inr (map (\<lambda>k. (k, the (map_of s k))) (filter (prefix p) (remdups (map fst s))))),
      etcd_Put = (\<lambda>s k v. case fault of None \<Rightarrow> (AList.update k v s, None) | Some e \<Rightarrow> (s, Some e)),
      etcd_Delete = (\<lambda>s k. case fault of None \<Rightarrow> (AList.delete k s, None) | Some e \<Rightarrow> (s, Some e)),
      etcd_Grant = (\<lambda>s. fault), etcd_Lock = (\<lambda>s. fault)\<rparr>"

interpretation memkv: etcd_kv "mem_etcd fault" map_of
proof
  show "etcd_List (mem_etcd fault) s k = Inr kvs \<Longrightarrow> set kvs = {(x, v). map_of s x = Some v \<and> prefix k x}" for s k kvs
  proof -
    assume "etcd_List (mem_etcd fault) s k = Inr kvs"
    then have "kvs = map (\<lambda>x. (x, the (map_of s x))) (filter (prefix k) (remdups (map fst s)))"
      by (simp add: mem_etcd_def)
    then have kvs: "set kvs = (\<lambda>x. (x, the (map_of s x))) ` {x \<in> fst ` set s. prefix k x}"
      by (simp only: set_map set_filter set_remdups)
    have "fst ` set s = dom (map_of s)"
      by (simp add: dom_map_of_conv_image_fst)
    then show ?thesis
      unfolding kvs by (auto simp: image_iff)
  qed
qed (auto simp: mem_etcd_def update_conv' delete_conv' split: option.splits)

section \<open>Properties\<close>

text \<open>A route table that was stored is read back as it was given, with a version one above
  the stored one, whatever version the caller had; nodes, cluster state and migrations are
  not affected.\<close>

theorem UpdateRouteTable_GetRouteTable:
  assumes "etcd_kv etcd view" and "es_UpdateRouteTable etcd t s = ((s', t'), None)"
    and "es_GetRouteTable etcd s = Inr old" and "es_GetRouteTable etcd s' = Inr new"
  shows "new = t\<lparr>rt_Version := rt_Version old + 1\<rparr> \<and> t' = new \<and>
     ma_nodes (etcd_abs (view s')) = ma_nodes (etcd_abs (view s)) \<and>
     ma_cluster (etcd_abs (view s')) = ma_cluster (etcd_abs (view s)) \<and>
     ma_migrations (etcd_abs (view s')) = ma_migrations (etcd_abs (view s))"
proof -
  have "st_UpdateRouteTable (EtcdStore etcd) t s = ((s', t'), None)"
    using assms(2) by (simp add: EtcdStore_def)
  note upd = meta_store.UpdateRouteTable_ok [OF etcd_kv.is_meta_store [OF assms(1)] this]
  have "old = ma_table (etcd_abs (view s))" "new = ma_table (etcd_abs (view s'))"
    using assms(3,4) by (simp_all add: etcd_kv.Get_kinds(3) [OF assms(1)])
  with upd show ?thesis
    by simp
qed

theorem UpdateRouteTable_GetRouteTable_witness:
  "es_GetRouteTable (mem_etcd None) (fst (fst (es_UpdateRouteTable (mem_etcd None) \<lparr>rt_Version = 40, rt_Partitions = []\<rparr> []))) =
     Inr \<lparr>rt_Version = 2, rt_Partitions = []\<rparr>"
proof -
  let ?t = "\<lparr>rt_Version = 40, rt_Partitions = []\<rparr>"
  have "es_UpdateRouteTable (mem_etcd None) ?t [] =
      (([(routeTableKey, JRoute \<lparr>rt_Version = 2, rt_Partitions = []\<rparr>)], \<lparr>rt_Version = 2, rt_Partitions = []\<rparr>), None)"
    by (simp add: es_UpdateRouteTable_def mem_etcd_def es_GetRouteTable_def NewRouteTable_def Let_def)
  moreover have "es_GetRouteTable (mem_etcd None) [] = Inr NewRouteTable"
    "es_GetRouteTable (mem_etcd None) [(routeTableKey, JRoute \<lparr>rt_Version = 2, rt_Partitions = []\<rparr>)] = Inr \<lparr>rt_Version = 2, rt_Partitions = []\<rparr>"
    by (simp_all add: mem_etcd_def es_GetRouteTable_def)
  ultimately show ?thesis
    using UpdateRouteTable_GetRouteTable [OF memkv.etcd_kv_axioms, of None ?t "[]"] by simp
qed

end
