(* ===== verification/Hash_Ring.thy ===== *)
theory Hash_Ring
  imports Command_Entry "HOL-Library.AList" "HOL-Library.Char_ord"
begin

text \<open>
  Consistent hashing, \<open>src/pkg/metadata/consistent_hash.go\<close>: a ring of virtual nodes with the
  CRC-32 of their names as positions, and the search for the successor of a key.

  The map from positions to nodes is an association list, in which the position of two
  virtual nodes with the same CRC belongs to the one added last.
\<close>

section \<open>Go library functions\<close>

text \<open>The binary search of \<open>sort.Search\<close>.\<close>

function search_loop :: "(nat \<Rightarrow> bool) \<Rightarrow> nat \<Rightarrow> nat \<Rightarrow> nat" where
  "search_loop f i j =
     (if i < j then
        let h = (i + j) div 2 in if \<not> f h then search_loop f (h + 1) j else search_loop f i h
      else i)"
  by auto
termination
  by (relation "measure (\<lambda>(f, i, j). j - i)") auto

declare search_loop.simps [simp del]

definition sort_Search :: "nat \<Rightarrow> (nat \<Rightarrow> bool) \<Rightarrow> nat" where
  "sort_Search n f = search_loop f 0 n"

section \<open>The ring\<close>

definition DefaultVirtualNodes :: nat where
  "DefaultVirtualNodes = 150"

record ConsistentHash =
  ch_virtualNodes :: nat
  ch_ring :: "u32 list"
  ch_nodeMap :: "(u32 \<times> string) list"
  ch_nodes :: "string list"

definition NewConsistentHash :: "int \<Rightarrow> ConsistentHash" where
  "NewConsistentHash virtualNodes =
     \<lparr>ch_virtualNodes = (if virtualNodes \<le> 0 then DefaultVirtualNodes else nat virtualNodes),
      ch_ring = [], ch_nodeMap = [], ch_nodes = []\<rparr>"

definition ch_hash :: "string \<Rightarrow> u32" where
  "ch_hash key = crc32_ChecksumIEEE (bytes_of key)"

definition vnode :: "string \<Rightarrow> nat \<Rightarrow> u32" where
  "vnode nodeAddr i = ch_hash (nodeAddr @ ''#'' @ digits i)"

definition AddNode :: "string \<Rightarrow> ConsistentHash \<Rightarrow> ConsistentHash" where
  "AddNode nodeAddr ch =
     (if nodeAddr \<in> set (ch_nodes ch) then ch
      else
        let hashes = map (vnode nodeAddr) [0..<ch_virtualNodes ch]
        in ch\<lparr>ch_nodes := nodeAddr # ch_nodes ch,
              ch_ring := sort (ch_ring ch @ hashes),
              ch_nodeMap := fold (\<lambda>hash. AList.update hash nodeAddr) hashes (ch_nodeMap ch)\<rparr>)"

text \<open>A lookup in a Go map of strings gives the empty string for an absent key.\<close>

definition owner :: "(u32 \<times> string) list \<Rightarrow> u32 \<Rightarrow> string" where
  "owner nm h = (case map_of nm h of None \<Rightarrow> [] | Some a \<Rightarrow> a)"

fun remove_loop :: "string \<Rightarrow> u32 list \<Rightarrow> (u32 \<times> string) list \<Rightarrow> u32 list \<times> (u32 \<times> string) list" where
  "remove_loop nodeAddr [] nm = ([], nm)"
| "remove_loop nodeAddr (h # hs) nm =
     (if owner nm h \<noteq> nodeAddr
      then let (ring, nm') = remove_loop nodeAddr hs nm in (h # ring, nm')
      else remove_loop nodeAddr hs (AList.delete h nm))"

text \<open>The new ring is made with capacity \<open>len(ring) - virtualNodes\<close>; a negative one panics.\<close>

definition RemoveNode :: "string \<Rightarrow> ConsistentHash \<Rightarrow> err + ConsistentHash" where
  "RemoveNode nodeAddr ch =
     (if nodeAddr \<notin> set (ch_nodes ch) then Inr ch
      else if length (ch_ring ch) < ch_virtualNodes ch then Inl GoPanic
      else
        let (ring, nm) = remove_loop nodeAddr (ch_ring ch) (ch_nodeMap ch)
        in Inr (ch\<lparr>ch_nodes := removeAll nodeAddr (ch_nodes ch), ch_ring := ring, ch_nodeMap := nm\<rparr>))"

definition ch_search :: "ConsistentHash \<Rightarrow> u32 \<Rightarrow> nat" where
  "ch_search ch hash =
     (let idx = sort_Search (length (ch_ring ch)) (\<lambda>i. ch_ring ch ! i \<ge> hash)
      in if idx \<ge> length (ch_ring ch) then 0 else idx)"

definition ch_GetNode :: "ConsistentHash \<Rightarrow> string \<Rightarrow> string" where
  "ch_GetNode ch key =
     (if ch_ring ch = [] then []
      else owner (ch_nodeMap ch) (ch_ring ch ! ch_search ch (ch_hash key)))"

fun replica_loop :: "ConsistentHash \<Rightarrow> nat \<Rightarrow> string \<Rightarrow> nat list \<Rightarrow> string" where
  "replica_loop ch idx primary [] = []"
| "replica_loop ch idx primary (i # is) =
     (let nextNode = owner (ch_nodeMap ch) (ch_ring ch ! ((idx + i) mod length (ch_ring ch)))
      in if nextNode \<noteq> primary then nextNode else replica_loop ch idx primary is)"

definition GetNodes :: "ConsistentHash \<Rightarrow> u32 \<Rightarrow> string \<times> string" where
  "GetNodes ch partitionID =
     (if ch_ring ch = [] then ([], [])
      else
        let idx = ch_search ch (ch_hash (''partition-'' @ digits (unat partitionID)));
            primary = owner (ch_nodeMap ch) (ch_ring ch ! idx)
        in (primary, replica_loop ch idx primary [1..<length (ch_ring ch)]))"

definition GetAllNodes :: "ConsistentHash \<Rightarrow> string list" where
  "GetAllNodes ch = sort (ch_nodes ch)"

definition NodeCount :: "ConsistentHash \<Rightarrow> nat" where
  "NodeCount ch = length (ch_nodes ch)"

definition GetPartitionDistribution :: "ConsistentHash \<Rightarrow> nat \<Rightarrow> (string \<times> nat) list" where
  "GetPartitionDistribution ch totalPartitions =
     fold (\<lambda>i dist.
         let primary = fst (GetNodes ch (of_nat i))
         in if primary \<noteq> [] then AList.update primary (Suc (case map_of dist primary of None \<Rightarrow> 0 | Some n \<Rightarrow> n)) dist else dist)
       [0..<totalPartitions] (map (\<lambda>node. (node, 0)) (ch_nodes ch))"

section \<open>The search\<close>

lemma search_loop_least:
  assumes "i \<le> j" and "\<And>k. k < i \<Longrightarrow> \<not> f k" and "\<And>k. j \<le> k \<Longrightarrow> k < n \<Longrightarrow> f k"
    and "j \<le> n" and "\<And>a b. a \<le> b \<Longrightarrow> b < n \<Longrightarrow> f a \<Longrightarrow> f b"
  shows "search_loop f i j \<le> j \<and> (\<forall>k < search_loop f i j. \<not> f k) \<and> (\<forall>k. search_loop f i j \<le> k \<longrightarrow> k < n \<longrightarrow> f k)"
  using assms
proof (induction f i j rule: search_loop.induct)
  case (1 f i j)
  note mono = "1.prems"(5)
  let ?h = "(i + j) div 2"
  show ?case
  proof (cases "i < j")
    case True
    show ?thesis
    proof (cases "f ?h")
      case h: True
      have "search_loop f i ?h \<le> ?h \<and> (\<forall>k < search_loop f i ?h. \<not> f k) \<and>
          (\<forall>k. search_loop f i ?h \<le> k \<longrightarrow> k < n \<longrightarrow> f k)"
      proof (rule "1.IH"(2) [OF True refl])
        show "\<not> \<not> f ?h" "i \<le> ?h" "?h \<le> n"
          using h True "1.prems"(4) by auto
        show "\<And>k. k < i \<Longrightarrow> \<not> f k"
          by (rule "1.prems"(2))
        show "\<And>k. ?h \<le> k \<Longrightarrow> k < n \<Longrightarrow> f k"
          using h mono by blast
        show "\<And>a b. a \<le> b \<Longrightarrow> b < n \<Longrightarrow> f a \<Longrightarrow> f b"
          by (rule mono)
      qed
      moreover have "search_loop f i j = search_loop f i ?h"
        using True h by (subst search_loop.simps) (simp add: Let_def)
      moreover have "?h \<le> j"
        using True by simp
      ultimately show ?thesis
        by (metis order_trans)
    next
      case h: False
      have "search_loop f (?h + 1) j \<le> j \<and> (\<forall>k < search_loop f (?h + 1) j. \<not> f k) \<and>
          (\<forall>k. search_loop f (?h + 1) j \<le> k \<longrightarrow> k < n \<longrightarrow> f k)"
      proof (rule "1.IH"(1) [OF True refl])
        show "\<not> f ?h" "?h + 1 \<le> j" "j \<le> n"
          using h True "1.prems"(4) by auto
        show "\<And>k. k < ?h + 1 \<Longrightarrow> \<not> f k"
          using h mono [of _ ?h] True "1.prems"(4) by fastforce
        show "\<And>k. j \<le> k \<Longrightarrow> k < n \<Longrightarrow> f k"
          by (rule "1.prems"(3))
        show "\<And>a b. a \<le> b \<Longrightarrow> b < n \<Longrightarrow> f a \<Longrightarrow> f b"
          by (rule mono)
      qed
      moreover have "search_loop f i j = search_loop f (?h + 1) j"
        using True h by (subst search_loop.simps) (simp add: Let_def)
      ultimately show ?thesis
        by simp
    qed
  next
    case False
    then have "search_loop f i j = i" "i = j"
      using "1.prems"(1) by (simp_all add: search_loop.simps)
    then show ?thesis
      using "1.prems" by auto
  qed
qed

text \<open>The position after a hash on the ring, by a linear scan.\<close>

definition successor :: "u32 list \<Rightarrow> u32 \<Rightarrow> u32" where
  "successor ring h = (case filter (\<lambda>x. h \<le> x) ring of [] \<Rightarrow> hd ring | x # _ \<Rightarrow> x)"

lemma ch_search_bound: "ch_ring ch \<noteq> [] \<Longrightarrow> ch_search ch hash < length (ch_ring ch)"
  by (simp add: ch_search_def Let_def)

lemma filter_ge_sorted:
  assumes "sorted ring" and "r \<le> length ring" and "\<forall>k < r. \<not> h \<le> ring ! k"
    and "\<forall>k. r \<le> k \<longrightarrow> k < length ring \<longrightarrow> h \<le> ring ! k"
  shows "filter (\<lambda>x. h \<le> x) ring = drop r ring"
proof -
  have "filter (\<lambda>x. h \<le> x) (take r ring) = []"
    using assms(2,3) by (auto simp: filter_empty_conv in_set_conv_nth)
  moreover have "filter (\<lambda>x. h \<le> x) (drop r ring) = drop r ring"
    using assms(2,4) by (auto simp: filter_id_conv in_set_conv_nth)
  ultimately show ?thesis
    by (metis append_Nil append_take_drop_id filter_append)
qed

lemma ch_search_successor:
  assumes "sorted (ch_ring ch)" and "ch_ring ch \<noteq> []"
  shows "ch_ring ch ! ch_search ch hash = successor (ch_ring ch) hash"
proof -
  let ?ring = "ch_ring ch" and ?f = "\<lambda>i. ch_ring ch ! i \<ge> hash"
  define r where "r = sort_Search (length ?ring) ?f"
  have mono: "a \<le> b \<Longrightarrow> b < length ?ring \<Longrightarrow> ?f a \<Longrightarrow> ?f b" for a b
    using sorted_nth_mono [OF assms(1), of a b] order_trans [of hash "?ring ! a" "?ring ! b"] by blast
  have "search_loop ?f 0 (length ?ring) \<le> length ?ring \<and> (\<forall>k < search_loop ?f 0 (length ?ring). \<not> ?f k) \<and>
      (\<forall>k. search_loop ?f 0 (length ?ring) \<le> k \<longrightarrow> k < length ?ring \<longrightarrow> ?f k)"
    by (rule search_loop_least [of 0 "length ?ring" ?f "length ?ring"]) (simp, simp, simp, simp, erule (2) mono)
  then have r: "r \<le> length ?ring" "\<forall>k < r. \<not> ?f k" "\<forall>k. r \<le> k \<longrightarrow> k < length ?ring \<longrightarrow> ?f k"
    unfolding r_def sort_Search_def by blast+
  then have f: "filter (\<lambda>x. hash \<le> x) ?ring = drop r ?ring"
    by (rule filter_ge_sorted [OF assms(1)])
  show ?thesis
  proof (cases "r < length ?ring")
    case True
    then have "drop r ?ring = ?ring ! r # drop (Suc r) ?ring"
      by (rule Cons_nth_drop_Suc [symmetric])
    with True f show ?thesis
      by (simp add: successor_def ch_search_def Let_def flip: r_def)
  next
    case False
    with f assms(2) show ?thesis
      by (simp add: successor_def ch_search_def Let_def hd_conv_nth flip: r_def)
  qed
qed

lemma successor_Min:
  assumes "sorted ring" and "ring \<noteq> []"
  shows "successor ring h = (if {x \<in> set ring. h \<le> x} = {} then Min (set ring) else Min {x \<in> set ring. h \<le> x})"
proof -
  have hd: "hd xs = Min (set xs)" if "sorted xs" "xs \<noteq> []" for xs :: "u32 list"
    using that by (cases xs) (auto intro: Min_eqI [symmetric])
  have set: "{x \<in> set ring. h \<le> x} = set (filter (\<lambda>x. h \<le> x) ring)"
    by auto
  show ?thesis
  proof (cases "filter (\<lambda>x. h \<le> x) ring")
    case Nil
    then show ?thesis
      using hd [OF assms] by (simp add: successor_def set)
  next
    case (Cons x xs)
    have "sorted (filter (\<lambda>x. h \<le> x) ring)"
      using assms(1) by (simp add: sorted_wrt_filter)
    from hd [OF this] Cons show ?thesis
      by (simp add: successor_def set del: set_filter)
  qed
qed

text \<open>Adding positions moves a successor only onto one of them.\<close>

lemma successor_add:
  assumes "sorted ring" and "ring \<noteq> []"
  shows "successor (sort (ring @ new)) h = successor ring h \<or> successor (sort (ring @ new)) h \<in> set new"
proof -
  let ?A = "{x \<in> set ring. h \<le> x}" and ?B = "{x \<in> set new. h \<le> x}"
  have ne: "sort (ring @ new) \<noteq> []"
    using assms(2) by (metis Nil_is_append_conv set_empty set_sort)
  have un: "{x \<in> set (sort (ring @ new)). h \<le> x} = ?A \<union> ?B"
    by auto
  have fin: "finite ?A" "finite ?B"
    by simp_all
  note suc = successor_Min [OF sorted_sort ne, of h, unfolded un] successor_Min [OF assms, of h]
  show ?thesis
  proof (cases "?A = {}")
    case A: True
    show ?thesis
    proof (cases "?B = {}")
      case True
      then show ?thesis
        using suc A assms(2) by (cases "new = []") (auto simp: Min_Un min_def)
    next
      case False
      then have "Min ?B \<in> ?B"
        using fin by (intro Min_in) auto
      moreover have "successor (sort (ring @ new)) h = Min ?B"
        using suc(1) False by (simp only: A Un_empty_left if_False)
      ultimately show ?thesis
        by simp
    qed
  next
    case A: False
    show ?thesis
    proof (cases "?B = {}")
      case True
      with A suc show ?thesis
        by (simp only: Un_empty_right if_False simp_thms)
    next
      case False
      then have "Min ?B \<in> ?B"
        using fin by (intro Min_in) auto
      moreover have "Min (?A \<union> ?B) = min (Min ?A) (Min ?B)"
        using A False fin by (intro Min_Un) auto
      moreover have "successor (sort (ring @ new)) h = Min (?A \<union> ?B)" "successor ring h = Min ?A"
        using suc A by (simp_all only: Un_empty if_False simp_thms)
      ultimately show ?thesis
        by (simp add: min_def)
    qed
  qed
qed

section \<open>Invariants of the ring\<close>

lemma map_of_fold_owner:
  "map_of (fold (\<lambda>hash. AList.update hash a) hs nm) h = (if h \<in> set hs then Some a else map_of nm h)"
  by (induction hs arbitrary: nm) (auto simp: update_conv')

lemma owner_add: "owner (fold (\<lambda>hash. AList.update hash a) hs nm) h = (if h \<in> set hs then a else owner nm h)"
  by (simp add: owner_def map_of_fold_owner)

text \<open>
  A ring as the operations build it: sorted positions, every position in the map is one of
  its node's virtual nodes, and the length accounts for all nodes.
\<close>

definition ring_inv :: "ConsistentHash \<Rightarrow> bool" where
  "ring_inv ch \<longleftrightarrow> sorted (ch_ring ch) \<and> distinct (ch_nodes ch) \<and> [] \<notin> set (ch_nodes ch) \<and>
     (\<forall>h a. map_of (ch_nodeMap ch) h = Some a \<longrightarrow> a \<in> set (ch_nodes ch) \<and> h \<in> vnode a ` {..<ch_virtualNodes ch} \<and> h \<in> set (ch_ring ch)) \<and>
     ch_virtualNodes ch * length (ch_nodes ch) \<le> length (ch_ring ch)"

lemma ring_inv_New: "ring_inv (NewConsistentHash n)"
  by (simp add: ring_inv_def NewConsistentHash_def)

lemma ring_inv_AddNode:
  assumes "ring_inv ch" and "a \<noteq> []"
  shows "ring_inv (AddNode a ch)"
proof (cases "a \<in> set (ch_nodes ch)")
  case True
  then show ?thesis
    using assms by (simp add: AddNode_def)
next
  case False
  then show ?thesis
    using assms by (auto simp: AddNode_def ring_inv_def Let_def map_of_fold_owner algebra_simps split: if_splits)
qed

text \<open>A removal drops at most one position for each entry of the node in the map.\<close>

lemma remove_loop_props:
  assumes "remove_loop a hs nm = (ring, nm')" and "a \<noteq> []"
  shows "length hs \<le> length ring + card {h. map_of nm h = Some a}"
    and "sorted hs \<Longrightarrow> sorted ring" and "set ring \<subseteq> set hs"
    and "\<And>h b. map_of nm' h = Some b \<Longrightarrow> map_of nm h = Some b \<and> (h \<in> set hs \<longrightarrow> b \<noteq> a \<and> h \<in> set ring)"
proof -
  have "length hs \<le> length ring + card {h. map_of nm h = Some a} \<and> (sorted hs \<longrightarrow> sorted ring) \<and> set ring \<subseteq> set hs \<and>
     (\<forall>h b. map_of nm' h = Some b \<longrightarrow> map_of nm h = Some b \<and> (h \<in> set hs \<longrightarrow> b \<noteq> a \<and> h \<in> set ring))"
    using assms(1)
  proof (induction hs arbitrary: nm ring)
    case (Cons h hs)
    show ?case
    proof (cases "owner nm h = a")
      case True
      then have h: "map_of nm h = Some a"
        using assms(2) by (auto simp: owner_def split: option.splits)
      have fin: "finite {h. map_of nm h = Some a}"
        by (rule finite_subset [OF _ finite_dom_map_of [of nm]]) auto
      have "{x. map_of (AList.delete h nm) x = Some a} = {x. map_of nm x = Some a} - {h}"
        by (auto simp: delete_conv')
      then have c1: "card {x. map_of (AList.delete h nm) x = Some a} = card {x. map_of nm x = Some a} - 1"
        using h fin by simp
      have c2: "0 < card {x. map_of nm x = Some a}"
        using h fin by (auto simp: card_gt_0_iff)
      have "remove_loop a hs (AList.delete h nm) = (ring, nm')"
        using Cons.prems True by simp
      note IH = Cons.IH [OF this]
      have "length (h # hs) \<le> length ring + card {x. map_of nm x = Some a}"
        using IH [THEN conjunct1, unfolded c1] c2 by simp
      moreover have del: "map_of (AList.delete h nm) x = Some b \<Longrightarrow> x \<noteq> h \<and> map_of nm x = Some b" for x b
        by (simp add: delete_conv' split: if_splits)
      moreover have "map_of nm' x = Some b \<longrightarrow> map_of nm x = Some b \<and> (x \<in> set (h # hs) \<longrightarrow> b \<noteq> a \<and> x \<in> set ring)" for x b
      proof
        assume "map_of nm' x = Some b"
        then have "map_of (AList.delete h nm) x = Some b" "x \<in> set hs \<longrightarrow> b \<noteq> a \<and> x \<in> set ring"
          using IH [THEN conjunct2, THEN conjunct2, THEN conjunct2] by blast+
        with del [OF this(1)] show "map_of nm x = Some b \<and> (x \<in> set (h # hs) \<longrightarrow> b \<noteq> a \<and> x \<in> set ring)"
          by simp
      qed
      moreover have "sorted (h # hs) \<longrightarrow> sorted ring" "set ring \<subseteq> set (h # hs)"
        using IH [THEN conjunct2] by auto
      ultimately show ?thesis
        by blast
    next
      case False
      then obtain ring1 where ring: "ring = h # ring1" "remove_loop a hs nm = (ring1, nm')"
        using Cons.prems by (auto split: prod.splits)
      from Cons.IH [OF ring(2)] False ring(1) show ?thesis
        by (auto simp: owner_def)
    qed
  qed simp
  then show "length hs \<le> length ring + card {h. map_of nm h = Some a}" "sorted hs \<Longrightarrow> sorted ring"
    "set ring \<subseteq> set hs" "\<And>h b. map_of nm' h = Some b \<Longrightarrow> map_of nm h = Some b \<and> (h \<in> set hs \<longrightarrow> b \<noteq> a \<and> h \<in> set ring)"
    by blast+
qed

lemma ring_inv_RemoveNode:
  assumes inv: "ring_inv ch" and a: "a \<noteq> []"
  shows "\<exists>ch'. RemoveNode a ch = Inr ch' \<and> ring_inv ch'"
proof (cases "a \<in> set (ch_nodes ch)")
  case False
  then show ?thesis
    using inv by (simp add: RemoveNode_def)
next
  case True
  let ?v = "ch_virtualNodes ch"
  have len: "?v * length (ch_nodes ch) \<le> length (ch_ring ch)"
    using inv by (simp add: ring_inv_def)
  obtain k where k: "length (ch_nodes ch) = Suc k"
    using True by (cases "ch_nodes ch") auto
  obtain ring nm where loop: "remove_loop a (ch_ring ch) (ch_nodeMap ch) = (ring, nm)"
    by force
  note props = remove_loop_props [OF loop a]
  have "{h. map_of (ch_nodeMap ch) h = Some a} \<subseteq> vnode a ` {..<?v}"
    using inv by (auto simp: ring_inv_def)
  then have "card {h. map_of (ch_nodeMap ch) h = Some a} \<le> card (vnode a ` {..<?v})"
    by (rule card_mono [rotated]) simp
  also have "\<dots> \<le> ?v"
    using card_image_le [of "{..<?v}" "vnode a"] by simp
  finally have "?v * k \<le> length ring"
    using props(1) len k by simp
  moreover have "length (removeAll a (ch_nodes ch)) = k"
    using True inv k by (simp add: ring_inv_def distinct_remove1_removeAll [symmetric] length_remove1)
  moreover have "map_of nm h = Some b \<longrightarrow> b \<in> set (ch_nodes ch) - {a} \<and> h \<in> vnode b ` {..<?v} \<and> h \<in> set ring" for h b
  proof
    assume b: "map_of nm h = Some b"
    have old: "map_of (ch_nodeMap ch) h = Some b" "h \<in> set (ch_ring ch) \<longrightarrow> b \<noteq> a \<and> h \<in> set ring"
      using props(4) [OF b] by simp_all
    then show "b \<in> set (ch_nodes ch) - {a} \<and> h \<in> vnode b ` {..<?v} \<and> h \<in> set ring"
      using inv by (auto simp: ring_inv_def)
  qed
  ultimately show ?thesis
    using True inv len k loop props(2)
    by (auto simp: RemoveNode_def ring_inv_def distinct_removeAll)
qed

text \<open>Rings made by the operations, for addresses that are not empty.\<close>

inductive ring_reachable :: "ConsistentHash \<Rightarrow> bool" where
  reach_New: "ring_reachable (NewConsistentHash n)"
| reach_Add: "ring_reachable ch \<Longrightarrow> a \<noteq> [] \<Longrightarrow> ring_reachable (AddNode a ch)"
| reach_Remove: "ring_reachable ch \<Longrightarrow> a \<noteq> [] \<Longrightarrow> RemoveNode a ch = Inr ch' \<Longrightarrow> ring_reachable ch'"

lemma ring_reachable_inv: "ring_reachable ch \<Longrightarrow> ring_inv ch"
proof (induction rule: ring_reachable.induct)
  case (reach_Remove ch a ch')
  then show ?case
    using ring_inv_RemoveNode [of ch a] by auto
qed (auto intro: ring_inv_New ring_inv_AddNode)

section \<open>The nodes of a partition\<close>

lemma AddNode_successor:
  assumes "sorted (ch_ring ch)" and "ch_ring ch \<noteq> []"
  shows "owner (ch_nodeMap (AddNode a ch)) (ch_ring (AddNode a ch) ! ch_search (AddNode a ch) h) \<in>
     {owner (ch_nodeMap ch) (ch_ring ch ! ch_search ch h), a}"
proof (cases "a \<in> set (ch_nodes ch)")
  case True
  then show ?thesis
    by (simp add: AddNode_def)
next
  case False
  let ?new = "map (vnode a) [0..<ch_virtualNodes ch]"
  have ring: "ch_ring (AddNode a ch) = sort (ch_ring ch @ ?new)"
    and nm: "ch_nodeMap (AddNode a ch) = fold (\<lambda>hash. AList.update hash a) ?new (ch_nodeMap ch)"
    using False by (simp_all add: AddNode_def Let_def)
  have ne: "ch_ring (AddNode a ch) \<noteq> []"
    using assms(2) unfolding ring by (metis Nil_is_append_conv set_empty set_sort)
  have "sorted (ch_ring (AddNode a ch))"
    by (simp only: ring sorted_sort)
  note suc = ch_search_successor [OF this ne, of h] ch_search_successor [OF assms, of h]
  from successor_add [OF assms, of ?new h] show ?thesis
    unfolding suc unfolding ring nm owner_add by auto
qed

lemma replica_loop_result:
  fixes ch idx "is"
  assumes "\<forall>h \<in> set (ch_ring ch). owner (ch_nodeMap ch) h \<noteq> []" and "ch_ring ch \<noteq> []" and "primary \<noteq> []"
  defines "nodes \<equiv> (\<lambda>i. owner (ch_nodeMap ch) (ch_ring ch ! ((idx + i) mod length (ch_ring ch)))) ` set is"
  shows "replica_loop ch idx primary is \<noteq> primary \<and>
     (if nodes \<subseteq> {primary} then replica_loop ch idx primary is = [] else replica_loop ch idx primary is \<in> nodes)"
  unfolding nodes_def
proof (induction "is")
  case (Cons i "is")
  have "ch_ring ch ! ((idx + i) mod length (ch_ring ch)) \<in> set (ch_ring ch)"
    using assms(2) by (intro nth_mem) simp
  with Cons show ?case
    using assms(1) by (auto simp: Let_def)
qed (use assms(3) in simp)

lemma ring_positions:
  fixes n :: nat
  assumes "idx < n"
  shows "insert idx ((\<lambda>i. (idx + i) mod n) ` {1..<n}) = {..<n}"
proof
  show "insert idx ((\<lambda>i. (idx + i) mod n) ` {1..<n}) \<subseteq> {..<n}"
    using assms by (auto intro: mod_less_divisor)
  show "{..<n} \<subseteq> insert idx ((\<lambda>i. (idx + i) mod n) ` {1..<n})"
  proof
    fix k
    assume "k \<in> {..<n}"
    then consider "k = idx" | "idx < k" "k < n" | "k < idx"
      by force
    then show "k \<in> insert idx ((\<lambda>i. (idx + i) mod n) ` {1..<n})"
    proof cases
      case 2
      then show ?thesis
        by (intro insertI2 image_eqI [of _ _ "k - idx"]) auto
    next
      case 3
      then show ?thesis
        using assms by (intro insertI2 image_eqI [of _ _ "n + k - idx"]) auto
    qed simp
  qed
qed

lemma GetNodes_result:
  assumes "\<forall>h \<in> set (ch_ring ch). owner (ch_nodeMap ch) h \<noteq> []" and "ch_ring ch \<noteq> []" and "GetNodes ch i = (primary, replica)"
  shows "primary \<in> owner (ch_nodeMap ch) ` set (ch_ring ch) \<and> replica \<noteq> primary \<and>
     (if owner (ch_nodeMap ch) ` set (ch_ring ch) = {primary} then replica = []
      else replica \<in> owner (ch_nodeMap ch) ` set (ch_ring ch))"
proof -
  let ?n = "length (ch_ring ch)" and ?at = "\<lambda>k. owner (ch_nodeMap ch) (ch_ring ch ! k)"
  define idx where "idx = ch_search ch (ch_hash (''partition-'' @ digits (unat i)))"
  have idx: "idx < ?n"
    using assms(2) by (simp add: idx_def ch_search_bound)
  have p: "primary = ?at idx" and r: "replica = replica_loop ch idx primary [1..<?n]"
    using assms(2,3) by (auto simp: GetNodes_def idx_def Let_def)
  have "primary \<noteq> []"
    using assms(1) p idx by simp
  note loop = replica_loop_result [OF assms(1,2) this, of idx "[1..<?n]", folded r]
  have all: "owner (ch_nodeMap ch) ` set (ch_ring ch) = insert primary ((\<lambda>i. ?at ((idx + i) mod ?n)) ` set [1..<?n])"
  proof -
    have "set (ch_ring ch) = (\<lambda>k. ch_ring ch ! k) ` insert idx ((\<lambda>i. (idx + i) mod ?n) ` {1..<?n})"
      unfolding ring_positions [OF idx] by (auto simp: in_set_conv_nth image_iff)
    then show ?thesis
      by (simp add: p image_image)
  qed
  have generic: "replica \<noteq> primary \<and> (if N \<subseteq> {primary} then replica = [] else replica \<in> N) \<Longrightarrow>
      primary \<in> insert primary N \<and> replica \<noteq> primary \<and>
      (if insert primary N = {primary} then replica = [] else replica \<in> insert primary N)" for N
    by (cases "N \<subseteq> {primary}") auto
  show ?thesis
    unfolding all by (rule generic [OF loop])
qed

text \<open>The ring of a list of addresses, as the router builds it.\<close>

definition ring_of :: "string list \<Rightarrow> ConsistentHash" where
  "ring_of addrs = fold AddNode addrs (NewConsistentHash (int DefaultVirtualNodes))"

lemma AddNode_covered:
  assumes "set (ch_ring ch) \<subseteq> dom (map_of (ch_nodeMap ch))"
  shows "set (ch_ring (AddNode a ch)) \<subseteq> dom (map_of (ch_nodeMap (AddNode a ch)))"
  using assms by (auto simp: AddNode_def Let_def map_of_fold_owner split: if_splits)

lemma ring_of_facts:
  assumes "[] \<notin> set addrs"
  shows "ring_inv (ring_of addrs)" and "set (ch_nodes (ring_of addrs)) = set addrs"
    and "ch_virtualNodes (ring_of addrs) = DefaultVirtualNodes"
    and "set (ch_ring (ring_of addrs)) \<subseteq> dom (map_of (ch_nodeMap (ring_of addrs)))"
proof -
  have "ring_inv (fold AddNode addrs ch) \<and> set (ch_nodes (fold AddNode addrs ch)) = set (ch_nodes ch) \<union> set addrs \<and>
      ch_virtualNodes (fold AddNode addrs ch) = ch_virtualNodes ch \<and>
      set (ch_ring (fold AddNode addrs ch)) \<subseteq> dom (map_of (ch_nodeMap (fold AddNode addrs ch)))"
    if "ring_inv ch" "set (ch_ring ch) \<subseteq> dom (map_of (ch_nodeMap ch))" for ch
    using assms that
  proof (induction addrs arbitrary: ch)
    case (Cons a addrs)
    have "a \<noteq> []"
      using Cons.prems(1) by auto
    moreover have "ch_virtualNodes (AddNode a ch) = ch_virtualNodes ch" "set (ch_nodes (AddNode a ch)) = insert a (set (ch_nodes ch))"
      by (auto simp: AddNode_def Let_def)
    ultimately show ?case
      using Cons.IH [of "AddNode a ch"] Cons.prems ring_inv_AddNode [of ch a] AddNode_covered [of ch a]
      by simp
  qed simp
  from this [OF ring_inv_New [of "int DefaultVirtualNodes"]] show "ring_inv (ring_of addrs)" "set (ch_nodes (ring_of addrs)) = set addrs"
    "ch_virtualNodes (ring_of addrs) = DefaultVirtualNodes"
    "set (ch_ring (ring_of addrs)) \<subseteq> dom (map_of (ch_nodeMap (ring_of addrs)))"
    by (simp_all add: ring_of_def NewConsistentHash_def DefaultVirtualNodes_def)
qed

lemma ring_of_owner:
  assumes "[] \<notin> set addrs" and "h \<in> set (ch_ring (ring_of addrs))"
  shows "owner (ch_nodeMap (ring_of addrs)) h \<in> set addrs"
proof -
  obtain a where "map_of (ch_nodeMap (ring_of addrs)) h = Some a"
    using ring_of_facts(4) [OF assms(1)] assms(2) by blast
  with ring_of_facts(1,2) [OF assms(1)] show ?thesis
    by (auto simp: owner_def ring_inv_def)
qed

lemma ring_of_nonempty:
  assumes "[] \<notin> set addrs" and "addrs \<noteq> []"
  shows "ch_ring (ring_of addrs) \<noteq> []"
proof -
  have "DefaultVirtualNodes * length (ch_nodes (ring_of addrs)) \<le> length (ch_ring (ring_of addrs))"
    using ring_of_facts(1,3) [OF assms(1)] by (simp add: ring_inv_def)
  moreover have "ch_nodes (ring_of addrs) \<noteq> []"
    using ring_of_facts(2) [OF assms(1)] assms(2) by auto
  ultimately show ?thesis
    by (auto simp: DefaultVirtualNodes_def)
qed

lemma GetNodes_ring_of:
  assumes "[] \<notin> set addrs" and "addrs \<noteq> []" and "GetNodes (ring_of addrs) i = (primary, replica)"
  shows "primary \<in> set addrs \<and> replica \<noteq> primary \<and> (replica = [] \<or> replica \<in> set addrs) \<and>
     (replica = [] \<longleftrightarrow> (\<forall>h \<in> set (ch_ring (ring_of addrs)). owner (ch_nodeMap (ring_of addrs)) h = primary))"
proof -
  let ?ch = "ring_of addrs"
  have own: "owner (ch_nodeMap ?ch) h \<in> set addrs" if "h \<in> set (ch_ring ?ch)" for h
    using ring_of_owner [OF assms(1) that] .
  then have ne: "\<forall>h \<in> set (ch_ring ?ch). owner (ch_nodeMap ?ch) h \<noteq> []"
    using assms(1) by metis
  note r = GetNodes_result [OF ne ring_of_nonempty [OF assms(1,2)] assms(3)]
  have img: "owner (ch_nodeMap ?ch) ` set (ch_ring ?ch) \<subseteq> set addrs"
    using own by blast
  have "owner (ch_nodeMap ?ch) ` set (ch_ring ?ch) = {primary} \<longleftrightarrow> (\<forall>h \<in> set (ch_ring ?ch). owner (ch_nodeMap ?ch) h = primary)"
    using r by auto
  with r img show ?thesis
    using assms(1) by (auto split: if_splits)
qed

text \<open>
  A node has a position of its own if one of its virtual nodes collides with no virtual node
  of another node.
\<close>

definition own_position :: "string list \<Rightarrow> string \<Rightarrow> bool" where
  "own_position addrs a \<longleftrightarrow> (\<exists>i \<in> {..<DefaultVirtualNodes}. \<forall>c \<in> set addrs. c \<noteq> a \<longrightarrow>
     vnode a i \<notin> vnode c ` {..<DefaultVirtualNodes})"

lemma ring_of_positions:
  assumes "a \<in> set addrs" and "i < DefaultVirtualNodes"
  shows "vnode a i \<in> set (ch_ring (ring_of addrs))"
proof -
  have keeps: "set (ch_ring ch) \<subseteq> set (ch_ring (fold AddNode addrs ch))" for addrs ch
    by (induction addrs arbitrary: ch) (fastforce simp: AddNode_def Let_def split: if_splits)+
  have "vnode a i \<in> set (ch_ring (fold AddNode addrs ch))"
    if "\<forall>b \<in> set (ch_nodes ch). vnode b ` {..<ch_virtualNodes ch} \<subseteq> set (ch_ring ch)" "i < ch_virtualNodes ch" for ch
    using assms(1) that
  proof (induction addrs arbitrary: ch)
    case (Cons b addrs)
    have inv: "\<forall>c \<in> set (ch_nodes (AddNode b ch)). vnode c ` {..<ch_virtualNodes (AddNode b ch)} \<subseteq> set (ch_ring (AddNode b ch))"
      and b: "b \<in> set (ch_nodes (AddNode b ch))" and v: "i < ch_virtualNodes (AddNode b ch)"
      using Cons.prems(2,3) by (auto simp: AddNode_def Let_def)
    show ?case
    proof (cases "a = b")
      case True
      with inv b v have "vnode a i \<in> set (ch_ring (AddNode b ch))"
        by blast
      with keeps [of "AddNode b ch" addrs] show ?thesis
        by auto
    next
      case False
      with Cons.prems(1) have "a \<in> set addrs"
        by simp
      from Cons.IH [OF this inv v] show ?thesis
        by simp
    qed
  qed simp
  from this [of "NewConsistentHash (int DefaultVirtualNodes)"] assms(2) show ?thesis
    by (simp add: ring_of_def NewConsistentHash_def DefaultVirtualNodes_def)
qed

lemma own_position_owner:
  assumes "[] \<notin> set addrs" and "a \<in> set addrs" and "own_position addrs a"
  shows "\<exists>h \<in> set (ch_ring (ring_of addrs)). owner (ch_nodeMap (ring_of addrs)) h = a"
proof -
  obtain i where i: "i < DefaultVirtualNodes" and own: "\<And>c. c \<in> set addrs \<Longrightarrow> c \<noteq> a \<Longrightarrow> vnode a i \<notin> vnode c ` {..<DefaultVirtualNodes}"
    using assms(3) by (auto simp: own_position_def)
  have h: "vnode a i \<in> set (ch_ring (ring_of addrs))"
    by (rule ring_of_positions [OF assms(2) i])
  then obtain c where c: "map_of (ch_nodeMap (ring_of addrs)) (vnode a i) = Some c"
    using ring_of_facts(4) [OF assms(1)] by blast
  then have "c \<in> set addrs" "vnode a i \<in> vnode c ` {..<DefaultVirtualNodes}"
    using ring_of_facts(1-3) [OF assms(1)] unfolding ring_inv_def by metis+
  with own have "c = a"
    by blast
  with c h show ?thesis
    by (intro bexI [of _ "vnode a i"]) (simp_all add: owner_def)
qed

lemma GetNodes_primary:
  assumes "sorted (ch_ring ch)" and "ch_ring ch \<noteq> []"
  shows "fst (GetNodes ch i) = owner (ch_nodeMap ch) (successor (ch_ring ch) (ch_hash (''partition-'' @ digits (unat i))))"
  using assms by (simp add: GetNodes_def Let_def ch_search_successor)

section \<open>Properties\<close>

text \<open>C17. Consistent hashing moves as little as it can: adding a node to a ring that has nodes
  gives every key, and every partition's primary, either its old node or the new one.\<close>

theorem AddNode_moves_only_to_new_node:
  assumes "ring_reachable ch" and "ch_ring ch \<noteq> []"
  shows "ch_GetNode (AddNode a ch) key \<in> {ch_GetNode ch key, a} \<and>
     fst (GetNodes (AddNode a ch) i) \<in> {fst (GetNodes ch i), a}"
proof -
  have sorted: "sorted (ch_ring ch)"
    using ring_reachable_inv [OF assms(1)] by (simp add: ring_inv_def)
  have "ch_ring (AddNode a ch) \<noteq> []"
    using assms(2) by (auto simp: AddNode_def Let_def) (metis Nil_is_append_conv set_empty set_sort)
  then show ?thesis
    using AddNode_successor [OF sorted assms(2), of a] assms(2)
    by (simp add: ch_GetNode_def GetNodes_def Let_def del: insert_iff)
qed

theorem AddNode_moves_only_to_new_node_witness:
  "ch_GetNode (AddNode ''b'' (AddNode ''a'' (NewConsistentHash 1))) ''k'' \<in> {ch_GetNode (AddNode ''a'' (NewConsistentHash 1)) ''k'', ''b''}"
proof -
  have "ring_reachable (AddNode ''a'' (NewConsistentHash 1))"
    by (intro reach_Add reach_New) simp
  moreover have "ch_ring (AddNode ''a'' (NewConsistentHash 1)) \<noteq> []"
    by (simp add: AddNode_def NewConsistentHash_def)
  ultimately show ?thesis
    using AddNode_moves_only_to_new_node [of "AddNode ''a'' (NewConsistentHash 1)" "''b''" "''k''"] by blast
qed



text \<open>Removing a node never panics on the capacity of the new ring, whatever nodes were added
  and removed before and however their positions collide: the ring always has at least
  \<open>virtualNodes\<close> positions for each of its nodes.\<close>

theorem RemoveNode_no_panic:
  assumes "ring_reachable ch" and "a \<noteq> []"
  shows "ch_virtualNodes ch * NodeCount ch \<le> length (ch_ring ch) \<and>
     (\<exists>ch'. RemoveNode a ch = Inr ch' \<and> a \<notin> set (GetAllNodes ch'))"
proof -
  have inv: "ring_inv ch"
    by (rule ring_reachable_inv [OF assms(1)])
  obtain ch' where ch': "RemoveNode a ch = Inr ch'"
    using ring_inv_RemoveNode [OF inv assms(2)] by blast
  then have "a \<notin> set (GetAllNodes ch')"
    by (auto simp: RemoveNode_def GetAllNodes_def split: if_splits prod.splits)
  with ch' inv show ?thesis
    by (simp add: ring_inv_def NodeCount_def)
qed

theorem RemoveNode_no_panic_witness:
  "\<exists>ch'. RemoveNode ''a'' (AddNode ''a'' (NewConsistentHash 0)) = Inr ch'"
proof -
  have "ring_reachable (AddNode ''a'' (NewConsistentHash 0))"
    by (intro reach_Add reach_New) simp
  then show ?thesis
    using RemoveNode_no_panic [of _ "''a''"] by blast
qed

text \<open>Two virtual nodes with the same CRC share one entry of the map. The names \<open>plumless\<close> and
  \<open>buckeroo\<close> collide on every virtual node: after adding both and removing the second, the
  first is still a node of the ring and its positions are still there, but keys and
  partitions get the empty address.\<close>

theorem colliding_node_is_lost:
  "\<exists>ch. RemoveNode ''buckeroo'' (AddNode ''buckeroo'' (AddNode ''plumless'' (NewConsistentHash 1))) = Inr ch \<and>
     GetAllNodes ch = [''plumless''] \<and> length (ch_ring ch) = 1 \<and> ch_GetNode ch ''k'' = [] \<and> GetNodes ch 7 = ([], [])"
proof -
  have "vnode ''plumless'' 0 = 0x38EC8425" "vnode ''buckeroo'' 0 = 0x38EC8425"
    by code_simp+
  then have "RemoveNode ''buckeroo'' (AddNode ''buckeroo'' (AddNode ''plumless'' (NewConsistentHash 1))) =
      Inr \<lparr>ch_virtualNodes = 1, ch_ring = [0x38EC8425], ch_nodeMap = [], ch_nodes = [''plumless'']\<rparr>"
    by (simp add: RemoveNode_def AddNode_def NewConsistentHash_def owner_def)
  then show ?thesis
    by (simp add: GetAllNodes_def ch_GetNode_def GetNodes_def owner_def)
qed

end
