(* ===== verification/Meta_Router.thy ===== *)
theory Meta_Router
  imports Meta_Store Hash_Ring
begin

text \<open>
  The router of the metadata service, \<open>src/pkg/metadata/router.go\<close>: the local copy of the route
  table and its subscribers, the start of the cluster, and the operations that write a new
  route table (allocation, rebalancing, promotion, status, migration).

  The store is the record of its operations with its state inside the router. The watch
  on the route table delivers stored tables to \<open>route_event\<close>; until it does, the local copy
  is older than the store. A Go map of partitions is an association list.
\<close>

section \<open>State\<close>

definition metadata_TotalPartitions :: nat where "metadata_TotalPartitions = 4096"

definition MinReplicaNodes :: nat where "MinReplicaNodes = 2"

text \<open>A subscriber's channel is the list of tables in it, at most ten.\<close>

record 's Router =
  r_store :: 's
  r_routeTable :: RouteTable
  r_hashRing :: ConsistentHash
  r_subscribers :: "(string \<times> RouteTable list) list"

definition NewRouter :: "'s \<Rightarrow> 's Router" where
  "NewRouter store =
     \<lparr>r_store = store, r_routeTable = NewRouteTable, r_hashRing = NewConsistentHash (int DefaultVirtualNodes),
      r_subscribers = []\<rparr>"

definition updateRouteTable :: "RouteTable \<Rightarrow> 's Router \<Rightarrow> 's Router" where
  "updateRouteTable table r = r\<lparr>r_routeTable := table\<rparr>"

definition chan_send :: "RouteTable \<Rightarrow> RouteTable list \<Rightarrow> RouteTable list" where
  "chan_send table ch = (if length ch < 10 then ch @ [table] else ch)"

definition notifySubscribers :: "RouteTable \<Rightarrow> 's Router \<Rightarrow> 's Router" where
  "notifySubscribers table r =
     r\<lparr>r_subscribers := map (\<lambda>(nodeID, ch). (nodeID, chan_send table ch)) (r_subscribers r)\<rparr>"

text \<open>One table from the watch, as the goroutine of \<open>Start\<close> handles it.\<close>

definition route_event :: "RouteTable \<Rightarrow> 's Router \<Rightarrow> 's Router" where
  "route_event table r = notifySubscribers table (updateRouteTable table r)"

definition router_Start :: "('s, 'x) Store_scheme \<Rightarrow> err option \<Rightarrow> 's Router \<Rightarrow> 's Router \<times> err option" where
  "router_Start st watch r =
     (case st_GetRouteTable st (r_store r) of
        Inl e \<Rightarrow> (r, Some e)
      | Inr table \<Rightarrow> (updateRouteTable table r, watch))"

definition router_GetPartitionNodes :: "'s Router \<Rightarrow> u32 \<Rightarrow> err + string \<times> string" where
  "router_GetPartitionNodes r partitionID =
     (case map_of (rt_Partitions (r_routeTable r)) partitionID of
        None \<Rightarrow> Inl (ErrPartitionNotFound partitionID)
      | Some part \<Rightarrow> Inr (pi_Primary part, pi_Replica part))"

definition Subscribe :: "string \<Rightarrow> 's Router \<Rightarrow> 's Router" where
  "Subscribe nodeID r =
     r\<lparr>r_subscribers := AList.update nodeID (chan_send (r_routeTable r) []) (r_subscribers r)\<rparr>"

definition Unsubscribe :: "string \<Rightarrow> 's Router \<Rightarrow> 's Router" where
  "Unsubscribe nodeID r = r\<lparr>r_subscribers := AList.delete nodeID (r_subscribers r)\<rparr>"

definition GetClusterState :: "('s, 'x) Store_scheme \<Rightarrow> 's Router \<Rightarrow> err + string" where
  "GetClusterState st r =
     (case st_GetClusterInfo st (r_store r) of Inl e \<Rightarrow> Inl e | Inr info \<Rightarrow> Inr (ci_State info))"

section \<open>Writing route tables\<close>

text \<open>Saving a table: the store sets its version.\<close>

definition save_table ::
    "('s, 'x) Store_scheme \<Rightarrow> RouteTable \<Rightarrow> 's Router \<Rightarrow> ('s Router \<times> RouteTable) \<times> err option" where
  "save_table st table r =
     (let ((s', table'), e) = st_UpdateRouteTable st table (r_store r) in ((r\<lparr>r_store := s'\<rparr>, table'), e))"

definition allocated :: "ConsistentHash \<Rightarrow> u32 \<Rightarrow> PartitionInfo" where
  "allocated hashRing i =
     (let (primary, replica) = GetNodes hashRing i
      in \<lparr>pi_ID = i, pi_Primary = primary, pi_Replica = replica, pi_Status = PartitionStatusNormal,
          pi_MigrationTarget = [], pi_MigrationState = MIGRATION_NONE, pi_Epoch = 1\<rparr>)"

definition allocatePartitions ::
    "('s, 'x) Store_scheme \<Rightarrow> NodeInfo list \<Rightarrow> 's Router \<Rightarrow> 's Router \<times> err option" where
  "allocatePartitions st nodes r =
     (let hashRing = ring_of (map ni_Addr nodes);
          r = r\<lparr>r_hashRing := hashRing\<rparr>;
          table = NewRouteTable\<lparr>rt_Partitions :=
            map (\<lambda>i. (of_nat i, allocated hashRing (of_nat i))) [0..<metadata_TotalPartitions]\<rparr>
      in case save_table st table r of
           ((r, _), Some e) \<Rightarrow> (r, Some e)
         | ((r, table), None) \<Rightarrow> (updateRouteTable table r, None))"

definition set_state :: "('s, 'x) Store_scheme \<Rightarrow> string \<Rightarrow> 's Router \<Rightarrow> 's Router \<times> err option" where
  "set_state st v r = (let (s', e) = st_SetClusterState st v (r_store r) in (r\<lparr>r_store := s'\<rparr>, e))"

definition InitCluster :: "('s, 'x) Store_scheme \<Rightarrow> 's Router \<Rightarrow> 's Router \<times> err option" where
  "InitCluster st r =
     (case st_GetClusterInfo st (r_store r) of Inl e \<Rightarrow> (r, Some e) | Inr info \<Rightarrow>
      if ci_State info \<noteq> ClusterStatePending then (r, Some (ErrClusterState (ci_State info)))
      else
      (case st_ListNodes st NodeRoleStorage (r_store r) of Inl e \<Rightarrow> (r, Some e) | Inr nodes \<Rightarrow>
       if length nodes < MinReplicaNodes then (r, Some (ErrNotEnoughNodes MinReplicaNodes (length nodes)))
       else
       (case List.find (\<lambda>node. ni_Status node \<noteq> ''online'') nodes of
          Some node \<Rightarrow> (r, Some (ErrNodeNotOnline (ni_ID node)))
        | None \<Rightarrow>
            (case set_state st ClusterStateInitializing r of
               (r, Some e) \<Rightarrow> (r, Some e)
             | (r, None) \<Rightarrow>
                 (case allocatePartitions st nodes r of
                    (r, Some e) \<Rightarrow> (fst (set_state st ClusterStatePending r), Some e)
                  | (r, None) \<Rightarrow> set_state st ClusterStateRunning r)))))"

definition InitializePartitions :: "('s, 'x) Store_scheme \<Rightarrow> 's Router \<Rightarrow> 's Router \<times> err option" where
  "InitializePartitions st r =
     (case st_ListNodes st NodeRoleStorage (r_store r) of Inl e \<Rightarrow> (r, Some e) | Inr nodes \<Rightarrow>
      if length nodes < MinReplicaNodes then (r, Some (ErrNotEnoughNodes MinReplicaNodes (length nodes)))
      else allocatePartitions st nodes r)"

definition rebalanced :: "ConsistentHash \<Rightarrow> u32 \<Rightarrow> PartitionInfo \<Rightarrow> PartitionInfo" where
  "rebalanced hashRing partitionID part =
     (let (newPrimary, newReplica) = GetNodes hashRing partitionID
      in \<lparr>pi_ID = pi_ID part,
          pi_Primary = (if pi_Primary part = newPrimary then pi_Primary part else newPrimary),
          pi_Replica = (if pi_Replica part = newReplica then pi_Replica part else newReplica),
          pi_Status = pi_Status part, pi_MigrationTarget = [], pi_MigrationState = MIGRATION_NONE,
          pi_Epoch = (if pi_Primary part = newPrimary then pi_Epoch part else pi_Epoch part + 1)\<rparr>)"

definition RebalancePartitions :: "('s, 'x) Store_scheme \<Rightarrow> 's Router \<Rightarrow> 's Router \<times> err option" where
  "RebalancePartitions st r =
     (case st_ListNodes st NodeRoleStorage (r_store r) of Inl e \<Rightarrow> (r, Some e) | Inr nodes \<Rightarrow>
      let onlineNodes = filter (\<lambda>node. ni_Status node = NodeStatusOnline) nodes in
      if length onlineNodes < MinReplicaNodes
      then (r, Some (ErrNotEnoughNodes MinReplicaNodes (length onlineNodes)))
      else
        let newHashRing = ring_of (map ni_Addr onlineNodes);
            currentTable = r_routeTable r;
            newTable = currentTable\<lparr>rt_Partitions :=
              map (\<lambda>(partitionID, part). (partitionID, rebalanced newHashRing partitionID part)) (rt_Partitions currentTable)\<rparr>;
            changed = list_ex (\<lambda>(partitionID, part).
              let (newPrimary, newReplica) = GetNodes newHashRing partitionID
              in pi_Primary part \<noteq> newPrimary \<or> pi_Replica part \<noteq> newReplica) (rt_Partitions currentTable)
        in if changed then
             (case save_table st newTable (r\<lparr>r_hashRing := newHashRing\<rparr>) of ((r, _), e) \<Rightarrow> (r, e))
           else (r, None))"

text \<open>A copy of the table without the migration fields of the partitions.\<close>

definition plain :: "PartitionInfo \<Rightarrow> PartitionInfo" where
  "plain p = p\<lparr>pi_MigrationTarget := [], pi_MigrationState := MIGRATION_NONE\<rparr>"

definition copy_table :: "RouteTable \<Rightarrow> RouteTable" where
  "copy_table table = table\<lparr>rt_Partitions :=
     map (\<lambda>(i, p). (i, plain p)) (rt_Partitions table)\<rparr>"

definition set_partition :: "u32 \<Rightarrow> PartitionInfo \<Rightarrow> RouteTable \<Rightarrow> RouteTable" where
  "set_partition i p table = table\<lparr>rt_Partitions := AList.update i p (rt_Partitions table)\<rparr>"

definition PromoteReplica :: "('s, 'x) Store_scheme \<Rightarrow> u32 \<Rightarrow> 's Router \<Rightarrow> 's Router \<times> err option" where
  "PromoteReplica st partitionID r =
     (case map_of (rt_Partitions (r_routeTable r)) partitionID of
        None \<Rightarrow> (r, Some (ErrPartitionNotFound partitionID))
      | Some part \<Rightarrow>
          let newTable = set_partition partitionID
                ((plain part)\<lparr>pi_Primary := pi_Replica part, pi_Replica := pi_Primary part, pi_Epoch := pi_Epoch part + 1\<rparr>)
                (copy_table (r_routeTable r))
          in case save_table st newTable r of ((r, _), e) \<Rightarrow> (r, e))"

definition router_SetPartitionStatus ::
    "('s, 'x) Store_scheme \<Rightarrow> u32 \<Rightarrow> string \<Rightarrow> 's Router \<Rightarrow> 's Router \<times> err option" where
  "router_SetPartitionStatus st partitionID status r =
     (case map_of (rt_Partitions (r_routeTable r)) partitionID of
        None \<Rightarrow> (r, Some (ErrPartitionNotFound partitionID))
      | Some part \<Rightarrow>
          let newTable = set_partition partitionID (part\<lparr>pi_Status := status\<rparr>) (r_routeTable r)
          in case save_table st newTable r of ((r, _), e) \<Rightarrow> (r, e))"

definition SetPartitionMigration ::
    "('s, 'x) Store_scheme \<Rightarrow> u32 \<Rightarrow> string \<Rightarrow> MigrationState \<Rightarrow> 's Router \<Rightarrow> 's Router \<times> err option" where
  "SetPartitionMigration st partitionID targetNode state r =
     (case map_of (rt_Partitions (r_routeTable r)) partitionID of
        None \<Rightarrow> (r, Some (ErrPartitionNotFound partitionID))
      | Some part \<Rightarrow>
          let migrationInfo = \<lparr>mi_PartitionID = partitionID, mi_Target = targetNode, mi_State = state,
                               mi_IsPrimaryMove = (pi_Primary part \<noteq> targetNode)\<rparr>;
              (s', e) = st_SetMigrationState st partitionID migrationInfo (r_store r)
          in (r\<lparr>r_store := s'\<rparr>, e))"

definition CompleteMigration ::
    "('s, 'x) Store_scheme \<Rightarrow> u32 \<Rightarrow> string \<Rightarrow> bool \<Rightarrow> 's Router \<Rightarrow> 's Router \<times> err option" where
  "CompleteMigration st partitionID newNode isPrimary r =
     (let r = r\<lparr>r_store := fst (st_DeleteMigrationState st partitionID (r_store r))\<rparr> in
      case map_of (rt_Partitions (r_routeTable r)) partitionID of
        None \<Rightarrow> (r, Some (ErrPartitionNotFound partitionID))
      | Some part \<Rightarrow>
          let p = plain part;
              p = (if isPrimary
                   then p\<lparr>pi_Primary := newNode,
                          pi_Replica := (if pi_Primary part \<noteq> newNode then pi_Primary part else pi_Replica p),
                          pi_Epoch := pi_Epoch part + 1\<rparr>
                   else p\<lparr>pi_Replica := newNode\<rparr>);
              newTable = set_partition partitionID (p\<lparr>pi_Status := PartitionStatusNormal\<rparr>) (copy_table (r_routeTable r))
          in case save_table st newTable r of ((r, _), e) \<Rightarrow> (r, e))"

definition GetPartitionMigrationTarget :: "('s, 'x) Store_scheme \<Rightarrow> u32 \<Rightarrow> 's Router \<Rightarrow> string \<times> MigrationState" where
  "GetPartitionMigrationTarget st partitionID r =
     (case st_GetMigrationState st partitionID (r_store r) of
        Inl _ \<Rightarrow> ([], MIGRATION_NONE)
      | Inr None \<Rightarrow> ([], MIGRATION_NONE)
      | Inr (Some migrationInfo) \<Rightarrow> (mi_Target migrationInfo, mi_State migrationInfo))"

definition GetNodePartitionCounts :: "'s Router \<Rightarrow> string \<Rightarrow> nat \<times> nat" where
  "GetNodePartitionCounts r nodeAddr =
     (length (filter (\<lambda>(i, p). pi_Primary p = nodeAddr) (rt_Partitions (r_routeTable r))),
      length (filter (\<lambda>(i, p). pi_Replica p = nodeAddr) (rt_Partitions (r_routeTable r))))"

section \<open>Epochs and primaries\<close>

text \<open>One route table after another with respect to fencing: the same partitions, and a partition
  gets the next epoch when its primary changes and keeps its epoch or gets the next otherwise.\<close>

definition fenced :: "RouteTable \<Rightarrow> RouteTable \<Rightarrow> bool" where
  "fenced t t' \<longleftrightarrow> (\<forall>i. case map_of (rt_Partitions t) i of
       None \<Rightarrow> map_of (rt_Partitions t') i = None
     | Some p \<Rightarrow> (\<exists>p'. map_of (rt_Partitions t') i = Some p' \<and>
         (pi_Epoch p' = pi_Epoch p + 1 \<or> pi_Epoch p' = pi_Epoch p \<and> pi_Primary p' = pi_Primary p)))"

lemma map_of_mapped: "map_of (map (\<lambda>(i, p). (i, f i p)) xs) i = map_option (f i) (map_of xs i)"
  by (induction xs) auto

lemma fenced_lookup:
  assumes "fenced t t'" and "map_of (rt_Partitions t) i = Some p"
  shows "\<exists>p'. map_of (rt_Partitions t') i = Some p' \<and>
     (pi_Epoch p' = pi_Epoch p + 1 \<or> pi_Epoch p' = pi_Epoch p \<and> pi_Primary p' = pi_Primary p)"
proof -
  from assms(1) have "case map_of (rt_Partitions t) i of
       None \<Rightarrow> map_of (rt_Partitions t') i = None
     | Some p \<Rightarrow> (\<exists>p'. map_of (rt_Partitions t') i = Some p' \<and>
         (pi_Epoch p' = pi_Epoch p + 1 \<or> pi_Epoch p' = pi_Epoch p \<and> pi_Primary p' = pi_Primary p))"
    unfolding fenced_def by (rule spec)
  with assms(2) show ?thesis
    by simp
qed

lemma fenced_refl: "fenced t t"
  by (simp add: fenced_def split: option.splits)

lemma fenced_version: "fenced t (t'\<lparr>rt_Version := v\<rparr>) \<longleftrightarrow> fenced t t'" "fenced (t\<lparr>rt_Version := v\<rparr>) t' \<longleftrightarrow> fenced t t'"
  by (simp_all add: fenced_def cong: option.case_cong)

lemma copy_table_lookup [simp]:
  "map_of (rt_Partitions (copy_table t)) i = map_option plain (map_of (rt_Partitions t) i)"
  by (simp add: copy_table_def map_of_mapped)

lemma plain_simps [simp]:
  "pi_Epoch (plain p) = pi_Epoch p" "pi_Primary (plain p) = pi_Primary p" "pi_Replica (plain p) = pi_Replica p"
  "pi_Status (plain p) = pi_Status p" "pi_ID (plain p) = pi_ID p"
  by (simp_all add: plain_def)

lemma set_partition_lookup [simp]:
  "map_of (rt_Partitions (set_partition i p t)) j = (if j = i then Some p else map_of (rt_Partitions t) j)"
  by (simp add: set_partition_def update_conv')

lemma fenced_set_partition:
  assumes "map_of (rt_Partitions t) i = Some p"
    and "pi_Epoch p' = pi_Epoch p + 1 \<or> pi_Epoch p' = pi_Epoch p \<and> pi_Primary p' = pi_Primary p"
  shows "fenced t (set_partition i p' (copy_table t))" and "fenced t (set_partition i p' t)"
  using assms by (auto simp: fenced_def split: option.splits)

lemma fenced_rebalanced:
  "fenced t (t\<lparr>rt_Partitions := map (\<lambda>(i, p). (i, rebalanced ring i p)) (rt_Partitions t)\<rparr>)"
  by (auto simp: fenced_def map_of_mapped rebalanced_def split: option.splits prod.splits)

text \<open>The operations that replace the stored table.\<close>

datatype table_op =
    Op_Rebalance
  | Op_Promote u32
  | Op_SetStatus u32 string
  | Op_Complete u32 string bool

fun run_op :: "('s, 'x) Store_scheme \<Rightarrow> table_op \<Rightarrow> 's Router \<Rightarrow> 's Router \<times> err option" where
  "run_op st Op_Rebalance r = RebalancePartitions st r"
| "run_op st (Op_Promote i) r = PromoteReplica st i r"
| "run_op st (Op_SetStatus i v) r = router_SetPartitionStatus st i v r"
| "run_op st (Op_Complete i node prim) r = CompleteMigration st i node prim r"

context meta_store
begin

text \<open>What is stored after saving: the old table or the new one, and the new one on success.\<close>

lemma save_table_stored:
  assumes "save_table st t r = ((r', t'), e)"
  shows "(ma_table (holds (r_store r')) = t\<lparr>rt_Version := rt_Version (ma_table (holds (r_store r))) + 1\<rparr> \<or>
      e \<noteq> None \<and> ma_table (holds (r_store r')) = ma_table (holds (r_store r))) \<and>
     r_routeTable r' = r_routeTable r \<and> r_hashRing r' = r_hashRing r \<and> (e = None \<longrightarrow> t' = ma_table (holds (r_store r')))"
proof -
  obtain s' where upd: "st_UpdateRouteTable st t (r_store r) = ((s', t'), e)" and r': "r' = r\<lparr>r_store := s'\<rparr>"
    using assms by (auto simp: save_table_def split: prod.splits)
  show ?thesis
  proof (cases e)
    case None
    then show ?thesis
      using UpdateRouteTable_ok [of t "r_store r" s' t'] upd r' by auto
  next
    case (Some x)
    then show ?thesis
      using UpdateRouteTable_failed [of t "r_store r" s' t' x] upd r' by auto
  qed
qed

lemma run_op_stored:
  assumes "run_op st oper r = (r', e)"
  shows "r_routeTable r' = r_routeTable r \<and>
     (ma_table (holds (r_store r')) = ma_table (holds (r_store r)) \<or> fenced (r_routeTable r) (ma_table (holds (r_store r'))))"
proof (cases oper)
  case Op_Rebalance
  then show ?thesis
    using assms fenced_rebalanced [of "r_routeTable r"]
    by (auto simp: RebalancePartitions_def Let_def fenced_version split: sum.splits if_splits prod.splits dest!: save_table_stored)
next
  case (Op_Promote i)
  then show ?thesis
    using assms
    by (auto simp: PromoteReplica_def Let_def fenced_version fenced_set_partition split: option.splits prod.splits dest!: save_table_stored)
next
  case (Op_SetStatus i v)
  then show ?thesis
    using assms
    by (auto simp: router_SetPartitionStatus_def Let_def fenced_version fenced_set_partition split: option.splits prod.splits dest!: save_table_stored)
next
  case (Op_Complete i node prim)
  let ?r = "r\<lparr>r_store := fst (st_DeleteMigrationState st i (r_store r))\<rparr>"
  have del: "ma_table (holds (r_store ?r)) = ma_table (holds (r_store r))"
  proof -
    obtain s' d where "st_DeleteMigrationState st i (r_store r) = (s', d)"
      by force
    then show ?thesis
      using DeleteMigrationState_ok [of i "r_store r" s'] DeleteMigrationState_failed [of i "r_store r" s'] by (cases d) auto
  qed
  then show ?thesis
    using assms Op_Complete
    by (cases prim) (auto simp: CompleteMigration_def Let_def fenced_version fenced_set_partition split: option.splits prod.splits dest!: save_table_stored)
qed

end

text \<open>
  Operations of one router, each seen by its watch before the next one starts;
  \<open>stored\<close> is the table in the store.
\<close>

inductive router_run ::
    "('s, 'x) Store_scheme \<Rightarrow> ('s \<Rightarrow> RouteTable) \<Rightarrow> nat \<Rightarrow> 's Router \<Rightarrow> 's Router \<Rightarrow> bool" for st stored where
  run_start: "router_run st stored 0 r r"
| run_next: "router_run st stored n r r' \<Longrightarrow> run_op st oper r' = (r'', e) \<Longrightarrow>
     router_run st stored (Suc n) r (route_event (stored (r_store r'')) r'')"

lemma route_event_simps [simp]:
  "r_routeTable (route_event t r) = t" "r_store (route_event t r) = r_store r" "r_hashRing (route_event t r) = r_hashRing r"
  by (simp_all add: route_event_def notifySubscribers_def updateRouteTable_def)

lemma router_run_epochs:
  assumes "router_run st stored n r r'" and store: "meta_store st holds" and "stored = (\<lambda>s. ma_table (holds s))"
    and "r_routeTable r = stored (r_store r)" and "map_of (rt_Partitions (r_routeTable r)) i = Some p"
    and "unat (pi_Epoch p) + n < 2 ^ 64"
  shows "r_routeTable r' = stored (r_store r') \<and>
     (\<exists>p'. map_of (rt_Partitions (r_routeTable r')) i = Some p' \<and>
        unat (pi_Epoch p) \<le> unat (pi_Epoch p') \<and> unat (pi_Epoch p') \<le> unat (pi_Epoch p) + n \<and>
        (pi_Epoch p' = pi_Epoch p \<longrightarrow> pi_Primary p' = pi_Primary p))"
  using assms(1,4-6)
proof (induction rule: router_run.induct)
  case (run_start r)
  then show ?case
    by simp
next
  case (run_next n r r' oper r'' e)
  then obtain p' where IH: "r_routeTable r' = stored (r_store r')" "map_of (rt_Partitions (r_routeTable r')) i = Some p'"
    "unat (pi_Epoch p) \<le> unat (pi_Epoch p')" "unat (pi_Epoch p') \<le> unat (pi_Epoch p) + n"
    "pi_Epoch p' = pi_Epoch p \<longrightarrow> pi_Primary p' = pi_Primary p"
    by auto
  have "stored (r_store r'') = r_routeTable r' \<or> fenced (r_routeTable r') (stored (r_store r''))"
    using meta_store.run_op_stored [OF store run_next.hyps(2)] IH(1) assms(3) by auto
  then have "fenced (r_routeTable r') (stored (r_store r''))"
    using fenced_refl by metis
  then obtain p'' where p'': "map_of (rt_Partitions (stored (r_store r''))) i = Some p''"
    "pi_Epoch p'' = pi_Epoch p' + 1 \<or> pi_Epoch p'' = pi_Epoch p' \<and> pi_Primary p'' = pi_Primary p'"
    using fenced_lookup [OF _ IH(2)] by blast
  have "pi_Epoch p' \<noteq> -1"
    using IH(4) run_next.prems(3) by (auto simp: unsigned_minus_1_eq_mask mask_eq_exp_minus_1)
  then have "unat (pi_Epoch p' + 1) = Suc (unat (pi_Epoch p'))"
    by (rule unat_add_1)
  moreover from this have "unat (pi_Epoch p) < unat (pi_Epoch p' + 1)"
    using IH(3) by simp
  ultimately show ?case
    using p'' IH by auto
qed

section \<open>Properties\<close>


definition example_partition :: "u32 \<Rightarrow> PartitionInfo" where
  "example_partition i = \<lparr>pi_ID = i, pi_Primary = ''a'', pi_Replica = ''b'', pi_Status = PartitionStatusNormal,
     pi_MigrationTarget = [], pi_MigrationState = MIGRATION_NONE, pi_Epoch = 1\<rparr>"

definition example_table :: RouteTable where
  "example_table = \<lparr>rt_Version = 5, rt_Partitions = [(1, example_partition 1), (2, example_partition 2)]\<rparr>"

definition example_router :: "(string \<times> meta_value) list Router" where
  "example_router = (NewRouter [(routeTableKey, JRoute example_table)])\<lparr>r_routeTable := example_table\<rparr>"

lemma example_router_stored: "ma_table (etcd_abs (map_of (r_store example_router))) = r_routeTable example_router"
  by (simp add: example_router_def NewRouter_def etcd_abs_def)


text \<open>C34. A promotion is lost when the next one starts before the watch has delivered it: every
  operation writes a whole table made from the router's local copy, so the second promotion
  puts the first partition back to its old primary and epoch.\<close>

theorem second_promotion_undoes_first:
  assumes "meta_store st holds" and "map_of (rt_Partitions (r_routeTable r)) i = Some p" and "i \<noteq> j"
    and "PromoteReplica st i r = (r1, None)" and "PromoteReplica st j r1 = (r2, None)"
  shows "\<exists>q. map_of (rt_Partitions (ma_table (holds (r_store r1)))) i = Some q \<and>
       pi_Primary q = pi_Replica p \<and> pi_Epoch q = pi_Epoch p + 1 \<and>
     (\<exists>q'. map_of (rt_Partitions (ma_table (holds (r_store r2)))) i = Some q' \<and>
       pi_Primary q' = pi_Primary p \<and> pi_Epoch q' = pi_Epoch p)"
proof -
  have promote: "\<exists>pk. map_of (rt_Partitions (r_routeTable r)) k = Some pk \<and> r_routeTable r' = r_routeTable r \<and>
      rt_Partitions (ma_table (holds (r_store r'))) = rt_Partitions (set_partition k
        ((plain pk)\<lparr>pi_Primary := pi_Replica pk, pi_Replica := pi_Primary pk, pi_Epoch := pi_Epoch pk + 1\<rparr>)
        (copy_table (r_routeTable r)))"
    if "PromoteReplica st k r = (r', None)" for k r r'
    using that
    by (auto simp: PromoteReplica_def Let_def split: option.splits prod.splits dest!: meta_store.save_table_stored [OF assms(1)])
  from promote [OF assms(4)] promote [OF assms(5)] assms(2,3) show ?thesis
    by auto
qed

theorem second_promotion_undoes_first_witness:
  "\<exists>r1 r2 q. PromoteReplica (EtcdStore (mem_etcd None)) 1 example_router = (r1, None) \<and>
     PromoteReplica (EtcdStore (mem_etcd None)) 2 r1 = (r2, None) \<and>
     map_of (rt_Partitions (ma_table (etcd_abs (map_of (r_store r2))))) 1 = Some q \<and> pi_Primary q = ''a''"
proof -
  have ok: "\<exists>r'. PromoteReplica (EtcdStore (mem_etcd None)) k r = (r', None) \<and> r_routeTable r' = r_routeTable r \<and>
      (\<exists>t. map_of (r_store r') routeTableKey = Some (JRoute t))"
    if "map_of (rt_Partitions (r_routeTable r)) k = Some pk" "map_of (r_store r) routeTableKey = Some (JRoute t)" for k pk t r
    using that by (simp add: PromoteReplica_def save_table_def EtcdStore_def es_UpdateRouteTable_def es_GetRouteTable_def
        mem_etcd_def Let_def update_conv')
  have parts: "map_of (rt_Partitions (r_routeTable example_router)) 1 = Some (example_partition 1)"
    "map_of (rt_Partitions (r_routeTable example_router)) 2 = Some (example_partition 2)"
    "map_of (r_store example_router) routeTableKey = Some (JRoute example_table)"
    by (simp_all add: example_router_def example_table_def NewRouter_def)
  obtain r1 t where r1: "PromoteReplica (EtcdStore (mem_etcd None)) 1 example_router = (r1, None)"
    "r_routeTable r1 = r_routeTable example_router" "map_of (r_store r1) routeTableKey = Some (JRoute t)"
    using ok [OF parts(1,3)] by blast
  obtain r2 where r2: "PromoteReplica (EtcdStore (mem_etcd None)) 2 r1 = (r2, None)"
    using ok [of r1 2 "example_partition 2" t] r1 parts(2) by auto
  from second_promotion_undoes_first [OF memkv.is_meta_store parts(1) _ r1(1) r2] r1(1) r2 show ?thesis
    by (auto simp: example_partition_def)
qed

lemma map_of_of_nat:
  assumes "n \<le> 2 ^ 32"
  shows "map_of (map (\<lambda>i. (of_nat i :: u32, f (of_nat i))) [0..<n]) k = (if unat k < n then Some (f k) else None)"
  using assms
proof (induction n)
  case (Suc n)
  have "unat (of_nat n :: u32) = n"
    using Suc.prems by (simp add: unat_of_nat)
  then have "k = of_nat n \<longleftrightarrow> unat k = n"
    by auto
  with Suc show ?case
    by (auto simp: map_of_append map_add_def split: option.splits)
qed simp

lemma set_state_effect:
  assumes "meta_store st holds" and "set_state st v r = (r', None)"
  shows "holds (r_store r') = (holds (r_store r))\<lparr>ma_cluster := (ma_cluster (holds (r_store r)))\<lparr>ci_State := v\<rparr>\<rparr>"
    and "r_routeTable r' = r_routeTable r"
  using assms meta_store.SetClusterState_ok [OF assms(1), of v "r_store r" "r_store r'"]
  by (auto simp: set_state_def split: prod.splits)

lemma InitCluster_effect:
  assumes store: "meta_store st holds" and "InitCluster st r = (r', None)"
  shows "\<exists>nodes. st_ListNodes st NodeRoleStorage (r_store r) = Inr nodes \<and> MinReplicaNodes \<le> length nodes \<and>
     ci_State (ma_cluster (holds (r_store r))) = ClusterStatePending \<and>
     ci_State (ma_cluster (holds (r_store r'))) = ClusterStateRunning \<and>
     r_routeTable r' = ma_table (holds (r_store r')) \<and>
     rt_Partitions (r_routeTable r') = map (\<lambda>i. (of_nat i, allocated (ring_of (map ni_Addr nodes)) (of_nat i))) [0..<metadata_TotalPartitions]"
proof -
  obtain info nodes r1 r2 where init: "st_GetClusterInfo st (r_store r) = Inr info" "ci_State info = ClusterStatePending"
    "st_ListNodes st NodeRoleStorage (r_store r) = Inr nodes" "MinReplicaNodes \<le> length nodes"
    "set_state st ClusterStateInitializing r = (r1, None)" "allocatePartitions st nodes r1 = (r2, None)"
    "set_state st ClusterStateRunning r2 = (r', None)"
    using assms(2) by (auto simp: InitCluster_def not_less split: sum.splits if_splits option.splits prod.splits)
  let ?parts = "map (\<lambda>i. (of_nat i, allocated (ring_of (map ni_Addr nodes)) (of_nat i))) [0..<metadata_TotalPartitions]"
  obtain r3 t where r2: "r2 = updateRouteTable t r3"
    and save: "save_table st (NewRouteTable\<lparr>rt_Partitions := ?parts\<rparr>) (r1\<lparr>r_hashRing := ring_of (map ni_Addr nodes)\<rparr>) = ((r3, t), None)"
    using init(6) by (auto simp: allocatePartitions_def Let_def split: prod.splits option.splits)
  from meta_store.save_table_stored [OF store save]
  have "r_routeTable r2 = ma_table (holds (r_store r2)) \<and> rt_Partitions (r_routeTable r2) = ?parts"
    by (auto simp: r2 updateRouteTable_def)
  with set_state_effect [OF store init(7)] init meta_store.GetClusterInfo_ok [OF store init(1)] show ?thesis
    by auto
qed

text \<open>C11. A cluster that was initialised is complete: it was pending and is running, the router's
  table is the stored one, and it has exactly the partitions 0 to 4095, each at epoch 1 with a
  registered storage node as primary and another one, if any, as replica.\<close>

theorem InitCluster_allocates_all:
  assumes "meta_store st holds" and "InitCluster st r = (r', None)"
    and "\<forall>n \<in> ran (ma_nodes (holds (r_store r))). ni_Addr n \<noteq> []"
  shows "ci_State (ma_cluster (holds (r_store r))) = ClusterStatePending \<and>
     ci_State (ma_cluster (holds (r_store r'))) = ClusterStateRunning \<and>
     r_routeTable r' = ma_table (holds (r_store r')) \<and>
     (let addrs = ni_Addr ` {n \<in> ran (ma_nodes (holds (r_store r))). ni_Role n = NodeRoleStorage}
      in case map_of (rt_Partitions (r_routeTable r')) k of
           None \<Rightarrow> metadata_TotalPartitions \<le> unat k
         | Some p \<Rightarrow> unat k < metadata_TotalPartitions \<and> pi_ID p = k \<and> pi_Epoch p = 1 \<and> pi_Status p = PartitionStatusNormal \<and>
             pi_Primary p \<in> addrs \<and> pi_Replica p \<noteq> pi_Primary p \<and> (pi_Replica p = [] \<or> pi_Replica p \<in> addrs))"
proof -
  obtain nodes where nodes: "st_ListNodes st NodeRoleStorage (r_store r) = Inr nodes" "MinReplicaNodes \<le> length nodes"
    and eff: "ci_State (ma_cluster (holds (r_store r))) = ClusterStatePending"
     "ci_State (ma_cluster (holds (r_store r'))) = ClusterStateRunning" "r_routeTable r' = ma_table (holds (r_store r'))"
    and parts: "rt_Partitions (r_routeTable r') = map (\<lambda>i. (of_nat i, allocated (ring_of (map ni_Addr nodes)) (of_nat i))) [0..<metadata_TotalPartitions]"
    using InitCluster_effect [OF assms(1,2)] by blast
  have set: "set nodes = {n \<in> ran (ma_nodes (holds (r_store r))). ni_Role n = NodeRoleStorage}"
    using meta_store.ListNodes_ok [OF assms(1) nodes(1)] by (simp add: NodeRoleStorage_def)
  obtain primary replica where g: "GetNodes (ring_of (map ni_Addr nodes)) k = (primary, replica)"
    by force
  have "[] \<notin> set (map ni_Addr nodes)" "map ni_Addr nodes \<noteq> []"
    using assms(3) nodes(2) by (auto simp: set MinReplicaNodes_def)
  from GetNodes_ring_of [OF this g, unfolded set_map]
  have "primary \<in> ni_Addr ` set nodes" "replica \<noteq> primary" "replica = [] \<or> replica \<in> ni_Addr ` set nodes"
    by blast+
  moreover have "map_of (rt_Partitions (r_routeTable r')) k =
      (if unat k < metadata_TotalPartitions then Some (allocated (ring_of (map ni_Addr nodes)) k) else None)"
    unfolding parts by (rule map_of_of_nat) (simp add: metadata_TotalPartitions_def)
  ultimately show ?thesis
    using eff g by (simp add: allocated_def Let_def flip: set)
qed

definition example_node :: "NodeID \<Rightarrow> NodeInfo" where
  "example_node i = \<lparr>ni_ID = i, ni_Addr = i, ni_Role = NodeRoleStorage, ni_Status = ''online'', ni_LastHeartbeat = 0, ni_Partitions = []\<rparr>"

definition example_fresh :: "(string \<times> meta_value) list Router" where
  "example_fresh = NewRouter [(nodePrefix @ ''a'', JNode (example_node ''a'')), (nodePrefix @ ''b'', JNode (example_node ''b''))]"

theorem InitCluster_allocates_all_witness:
  "case map_of (rt_Partitions (r_routeTable (fst (InitCluster (EtcdStore (mem_etcd None)) example_fresh)))) 4095 of
     None \<Rightarrow> False
   | Some p \<Rightarrow> pi_Epoch p = 1 \<and> pi_Primary p \<in> {''a'', ''b''} \<and> pi_Replica p \<noteq> pi_Primary p"
proof -
  let ?i = "InitCluster (EtcdStore (mem_etcd None)) example_fresh"
  have nodes: "es_ListNodes (mem_etcd None) NodeRoleStorage (r_store example_fresh) = Inr [example_node ''a'', example_node ''b'']"
    by (simp add: es_ListNodes_def mem_etcd_def example_fresh_def NewRouter_def example_node_def NodeRoleStorage_def)
  have "snd ?i = None"
    using nodes
    by (simp add: InitCluster_def EtcdStore_def es_GetClusterInfo_def es_SetClusterState_def set_state_def allocatePartitions_def
        save_table_def es_UpdateRouteTable_def es_GetRouteTable_def mem_etcd_def example_fresh_def NewRouter_def Let_def
        MinReplicaNodes_def update_conv' example_node_def updateRouteTable_def del: append.simps)
  then have i: "?i = (fst ?i, None)"
    by (metis prod.collapse)
  have nodes: "ma_nodes (etcd_abs (map_of (r_store example_fresh))) = [''b'' \<mapsto> example_node ''b'', ''a'' \<mapsto> example_node ''a'']"
    by (auto simp: etcd_abs_def example_fresh_def NewRouter_def)
  have r: "ran (ma_nodes (etcd_abs (map_of (r_store example_fresh)))) = {example_node ''a'', example_node ''b''}"
    unfolding nodes by auto
  show ?thesis
    using InitCluster_allocates_all [OF memkv.is_meta_store i, of 4095]
    by (auto simp: r example_node_def Let_def metadata_TotalPartitions_def split: option.splits)
qed

end
