(* ===== verification/Scheduler.thy ===== *)
theory Scheduler
  imports Meta_Router
begin

text \<open>
  The migration scheduler of the metadata service, \<open>src/pkg/metadata/migration_scheduler.go\<close>: a
  queue of tasks by priority, the tasks being executed, and the goroutines that execute
  them.

  Tasks are shared by pointer between the queue, the table of active tasks, the list of completed
  ones and the goroutines, so they live in a store, \<open>ms_heap\<close>, and are named by their
  address. The router, with the metadata store in it, is a part of the state. Counters
  are integers, time stamps that nothing reads are left out.
\<close>

section \<open>State\<close>

definition DefaultMaxConcurrent :: int where "DefaultMaxConcurrent = 4"

definition DefaultBandwidthLimit :: int where "DefaultBandwidthLimit = 50 * 1024 * 1024"

type_synonym task_ref = nat

text \<open>\<open>mt_cancel\<close> tells whether the task has a cancel function.\<close>

record MigrationTask =
  mt_PartitionID :: u32
  mt_Source :: string
  mt_Target :: string
  mt_Priority :: MigrationPriority
  mt_IsPrimary :: bool
  mt_State :: MigrationState
  mt_BytesCopied :: int
  mt_BytesTotal :: int
  mt_ErrorMessage :: error_message
  mt_cancel :: bool

text \<open>A goroutine of \<open>executeMigration\<close> is at its start or waits for the data to be moved.\<close>

datatype exec_phase = Exec_started | Exec_waiting

text \<open>\<open>ms_running\<close> are the goroutines that the wait group counts.\<close>

record 's MigrationScheduler =
  ms_router :: "'s Router"
  ms_heap :: "task_ref \<Rightarrow> MigrationTask"
  ms_maxConcurrent :: int
  ms_bandwidthLimit :: int
  ms_pendingTasks :: "task_ref list"
  ms_activeTasks :: "(u32 \<times> task_ref) list"
  ms_completedTasks :: "task_ref list"
  ms_totalMigrated :: int
  ms_totalFailed :: int
  ms_totalBytesTransferred :: int
  ms_isRunning :: bool
  ms_cancelled :: bool
  ms_running :: "(task_ref \<times> exec_phase) list"

definition NewMigrationScheduler :: "(task_ref \<Rightarrow> MigrationTask) \<Rightarrow> 's Router \<Rightarrow> 's MigrationScheduler" where
  "NewMigrationScheduler heap router =
     \<lparr>ms_router = router, ms_heap = heap, ms_maxConcurrent = DefaultMaxConcurrent,
      ms_bandwidthLimit = DefaultBandwidthLimit, ms_pendingTasks = [], ms_activeTasks = [], ms_completedTasks = [],
      ms_totalMigrated = 0, ms_totalFailed = 0, ms_totalBytesTransferred = 0, ms_isRunning = False,
      ms_cancelled = False, ms_running = []\<rparr>"

definition SetConfig :: "int \<Rightarrow> int \<Rightarrow> 's MigrationScheduler \<Rightarrow> 's MigrationScheduler" where
  "SetConfig maxConcurrent bandwidthLimit ms =
     (let ms = (if maxConcurrent > 0 then ms\<lparr>ms_maxConcurrent := maxConcurrent\<rparr> else ms)
      in if bandwidthLimit > 0 then ms\<lparr>ms_bandwidthLimit := bandwidthLimit\<rparr> else ms)"

definition ms_Start :: "'s MigrationScheduler \<Rightarrow> 's MigrationScheduler" where
  "ms_Start ms = (if ms_isRunning ms then ms else ms\<lparr>ms_isRunning := True\<rparr>)"

text \<open>\<open>Stop\<close> cancels the context and then waits for the goroutines.\<close>

definition ms_Stop :: "'s MigrationScheduler \<Rightarrow> 's MigrationScheduler" where
  "ms_Stop ms = (if \<not> ms_isRunning ms then ms else ms\<lparr>ms_isRunning := False, ms_cancelled := True\<rparr>)"

section \<open>The queue\<close>

fun insert_task :: "(task_ref \<Rightarrow> MigrationTask) \<Rightarrow> task_ref \<Rightarrow> task_ref list \<Rightarrow> task_ref list" where
  "insert_task heap task [] = [task]"
| "insert_task heap task (t # ts) =
     (if priority_number (mt_Priority (heap task)) > priority_number (mt_Priority (heap t)) then task # t # ts
      else t # insert_task heap task ts)"

definition AddTask :: "task_ref \<Rightarrow> 's MigrationScheduler \<Rightarrow> 's MigrationScheduler \<times> err option" where
  "AddTask task ms =
     (let i = mt_PartitionID (ms_heap ms task) in
      if map_of (ms_activeTasks ms) i \<noteq> None then (ms, Some (ErrActiveMigration i))
      else if list_ex (\<lambda>t. mt_PartitionID (ms_heap ms t) = i) (ms_pendingTasks ms) then (ms, Some (ErrPendingMigration i))
      else
        let heap = (ms_heap ms)(task := (ms_heap ms task)\<lparr>mt_State := MIGRATION_PREPARING\<rparr>)
        in (ms\<lparr>ms_heap := heap, ms_pendingTasks := insert_task heap task (ms_pendingTasks ms)\<rparr>, None))"

fun AddTasks :: "task_ref list \<Rightarrow> 's MigrationScheduler \<Rightarrow> 's MigrationScheduler \<times> err option" where
  "AddTasks [] ms = (ms, None)"
| "AddTasks (task # tasks) ms =
     (case AddTask task ms of
        (ms, Some e) \<Rightarrow> (ms, Some e)
      | (ms, None) \<Rightarrow> AddTasks tasks ms)"

text \<open>
  Cancelling an active task calls its cancel function; the context it cancels is not the one
  the task's goroutine uses, so nothing else happens to the goroutine.
\<close>

definition cancel_active :: "string \<Rightarrow> u32 \<times> task_ref \<Rightarrow> 's MigrationScheduler \<Rightarrow> 's MigrationScheduler" where
  "cancel_active message = (\<lambda>(partitionID, task) ms.
     ms\<lparr>ms_heap := (ms_heap ms)(task := (ms_heap ms task)\<lparr>mt_State := MIGRATION_FAILED, mt_ErrorMessage := Message message\<rparr>),
        ms_completedTasks := ms_completedTasks ms @ [task],
        ms_activeTasks := AList.delete partitionID (ms_activeTasks ms),
        ms_totalFailed := ms_totalFailed ms + 1\<rparr>)"

fun remove_pending :: "(task_ref \<Rightarrow> MigrationTask) \<Rightarrow> u32 \<Rightarrow> task_ref list \<Rightarrow> task_ref list" where
  "remove_pending heap partitionID [] = []"
| "remove_pending heap partitionID (t # ts) =
     (if mt_PartitionID (heap t) = partitionID then ts else t # remove_pending heap partitionID ts)"

definition CancelTask :: "u32 \<Rightarrow> 's MigrationScheduler \<Rightarrow> 's MigrationScheduler \<times> err option" where
  "CancelTask partitionID ms =
     (case map_of (ms_activeTasks ms) partitionID of
        Some task \<Rightarrow> (cancel_active ''cancelled by user'' (partitionID, task) ms, None)
      | None \<Rightarrow>
          if list_ex (\<lambda>t. mt_PartitionID (ms_heap ms t) = partitionID) (ms_pendingTasks ms)
          then (ms\<lparr>ms_pendingTasks := remove_pending (ms_heap ms) partitionID (ms_pendingTasks ms)\<rparr>, None)
          else (ms, Some (ErrNotQueued partitionID)))"

definition CancelAllTasks :: "'s MigrationScheduler \<Rightarrow> 's MigrationScheduler" where
  "CancelAllTasks ms =
     (fold (cancel_active ''cancelled (all tasks)'') (ms_activeTasks ms) ms)\<lparr>ms_pendingTasks := []\<rparr>"

record MigrationStatus =
  mst_IsRunning :: bool
  mst_MaxConcurrent :: int
  mst_BandwidthLimit :: int
  mst_PendingCount :: nat
  mst_ActiveCount :: nat
  mst_TotalMigrated :: int
  mst_TotalFailed :: int
  mst_TotalBytes :: int
  mst_ActiveTasks :: "task_ref list"

definition GetStatus :: "'s MigrationScheduler \<Rightarrow> MigrationStatus" where
  "GetStatus ms =
     \<lparr>mst_IsRunning = ms_isRunning ms, mst_MaxConcurrent = ms_maxConcurrent ms,
      mst_BandwidthLimit = ms_bandwidthLimit ms, mst_PendingCount = length (ms_pendingTasks ms),
      mst_ActiveCount = length (ms_activeTasks ms), mst_TotalMigrated = ms_totalMigrated ms,
      mst_TotalFailed = ms_totalFailed ms, mst_TotalBytes = ms_totalBytesTransferred ms,
      mst_ActiveTasks = map snd (ms_activeTasks ms)\<rparr>"

definition GetPendingCount :: "'s MigrationScheduler \<Rightarrow> nat" where
  "GetPendingCount ms = length (ms_pendingTasks ms)"

definition GetActiveCount :: "'s MigrationScheduler \<Rightarrow> nat" where
  "GetActiveCount ms = length (ms_activeTasks ms)"

text \<open>The test that ends \<open>WaitForCompletion\<close>.\<close>

definition all_completed :: "'s MigrationScheduler \<Rightarrow> bool" where
  "all_completed ms \<longleftrightarrow> ms_pendingTasks ms = [] \<and> ms_activeTasks ms = []"

section \<open>Execution\<close>

definition start_task :: "task_ref \<Rightarrow> 's MigrationScheduler \<Rightarrow> 's MigrationScheduler" where
  "start_task task ms =
     ms\<lparr>ms_heap := (ms_heap ms)(task := (ms_heap ms task)\<lparr>mt_cancel := True, mt_State := MIGRATION_COPYING\<rparr>),
        ms_activeTasks := AList.update (mt_PartitionID (ms_heap ms task)) task (ms_activeTasks ms)\<rparr>"

definition processQueue :: "'s MigrationScheduler \<Rightarrow> 's MigrationScheduler" where
  "processQueue ms =
     (let availableSlots = ms_maxConcurrent ms - int (length (ms_activeTasks ms)) in
      if availableSlots \<le> 0 \<or> ms_pendingTasks ms = [] then ms
      else
        let tasksToStart = take (nat availableSlots) (ms_pendingTasks ms);
            ms = ms\<lparr>ms_pendingTasks := drop (length tasksToStart) (ms_pendingTasks ms)\<rparr>;
            ms = fold start_task tasksToStart ms
        in ms\<lparr>ms_running := ms_running ms @ map (\<lambda>t. (t, Exec_started)) tasksToStart\<rparr>)"

definition completeMigration ::
    "('s, 'x) Store_scheme \<Rightarrow> task_ref \<Rightarrow> err option \<Rightarrow> 's MigrationScheduler \<Rightarrow> 's MigrationScheduler" where
  "completeMigration st task e ms =
     (let t = ms_heap ms task;
          ms = (case e of
                  Some er \<Rightarrow>
                    ms\<lparr>ms_heap := (ms_heap ms)(task := t\<lparr>mt_State := MIGRATION_FAILED, mt_ErrorMessage := ErrorText er\<rparr>),
                       ms_totalFailed := ms_totalFailed ms + 1\<rparr>
                | None \<Rightarrow>
                    ms\<lparr>ms_heap := (ms_heap ms)(task := t\<lparr>mt_State := MIGRATION_COMPLETE\<rparr>),
                       ms_totalMigrated := ms_totalMigrated ms + 1,
                       ms_totalBytesTransferred := ms_totalBytesTransferred ms + mt_BytesCopied t\<rparr>);
          r = ms_router ms
      in ms\<lparr>ms_completedTasks := ms_completedTasks ms @ [task],
            ms_activeTasks := AList.delete (mt_PartitionID t) (ms_activeTasks ms),
            ms_router := r\<lparr>r_store := fst (st_DeleteMigrationState st (mt_PartitionID t) (r_store r))\<rparr>\<rparr>)"

text \<open>
  The goroutine of a task: it records the migration in the store, then waits, and when the
  wait is over it completes the migration in the route table. When its context is done before
  that, with the error \<open>e\<close>, it ends the task with the error.
\<close>

definition exec_begin ::
    "('s, 'x) Store_scheme \<Rightarrow> task_ref \<Rightarrow> 's MigrationScheduler \<Rightarrow> 's MigrationScheduler \<times> bool" where
  "exec_begin st task ms =
     (let t = ms_heap ms task;
          migrationInfo = \<lparr>mi_PartitionID = mt_PartitionID t, mi_Target = mt_Target t, mi_State = MIGRATION_COPYING,
                           mi_IsPrimaryMove = mt_IsPrimary t\<rparr>;
          (s', e) = st_SetMigrationState st (mt_PartitionID t) migrationInfo (r_store (ms_router ms));
          ms = ms\<lparr>ms_router := (ms_router ms)\<lparr>r_store := s'\<rparr>\<rparr>
      in case e of
           Some er \<Rightarrow> (completeMigration st task (Some er) ms, False)
         | None \<Rightarrow> (ms, True))"

definition exec_finish ::
    "('s, 'x) Store_scheme \<Rightarrow> task_ref \<Rightarrow> err option \<Rightarrow> 's MigrationScheduler \<Rightarrow> 's MigrationScheduler" where
  "exec_finish st task ctxErr ms =
     (case ctxErr of
        Some e \<Rightarrow> completeMigration st task (Some e) ms
      | None \<Rightarrow>
          let t = ms_heap ms task;
              (r, e) = CompleteMigration st (mt_PartitionID t) (mt_Target t) (mt_IsPrimary t) (ms_router ms)
          in completeMigration st task e (ms\<lparr>ms_router := r\<rparr>))"

definition scheduler_executeMigration ::
    "('s, 'x) Store_scheme \<Rightarrow> err option \<Rightarrow> task_ref \<Rightarrow> 's MigrationScheduler \<Rightarrow> 's MigrationScheduler" where
  "scheduler_executeMigration st ctxErr task ms =
     (case exec_begin st task ms of
        (ms, False) \<Rightarrow> ms
      | (ms, True) \<Rightarrow> exec_finish st task ctxErr ms)"

section \<open>Interleavings\<close>

text \<open>
  One step of the scheduler and its goroutines, with a limit \<open>M\<close> on what \<open>SetConfig\<close> asks for;
  \<open>cancels\<close> tells whether tasks are cancelled. A task object is added once. The router changes
  on its own (its watch, other handlers).
\<close>

definition refs_of :: "'s MigrationScheduler \<Rightarrow> task_ref set" where
  "refs_of ms = set (ms_pendingTasks ms) \<union> snd ` set (ms_activeTasks ms) \<union> set (ms_completedTasks ms) \<union> fst ` set (ms_running ms)"

inductive ms_step ::
    "('s, 'x) Store_scheme \<Rightarrow> int \<Rightarrow> bool \<Rightarrow> 's MigrationScheduler \<Rightarrow> 's MigrationScheduler \<Rightarrow> bool" for st M cancels where
  step_AddTask: "task \<notin> refs_of ms \<Longrightarrow>
     ms_step st M cancels ms (fst (AddTask task (ms\<lparr>ms_heap := (ms_heap ms)(task := t)\<rparr>)))"
| step_CancelTask: "cancels \<Longrightarrow> ms_step st M cancels ms (fst (CancelTask i ms))"
| step_CancelAllTasks: "cancels \<Longrightarrow> ms_step st M cancels ms (CancelAllTasks ms)"
| step_SetConfig: "limit \<le> M \<Longrightarrow> ms_step st M cancels ms (SetConfig limit bandwidth ms)"
| step_Start: "ms_step st M cancels ms (ms_Start ms)"
| step_Stop: "ms_step st M cancels ms (ms_Stop ms)"
| step_processQueue: "ms_step st M cancels ms (processQueue ms)"
| step_begin: "(task, Exec_started) \<in> set (ms_running ms) \<Longrightarrow> exec_begin st task ms = (ms', continue) \<Longrightarrow>
     ms_step st M cancels ms (ms'\<lparr>ms_running :=
       (if continue then [(task, Exec_waiting)] else []) @ remove1 (task, Exec_started) (ms_running ms')\<rparr>)"
| step_finish: "(task, Exec_waiting) \<in> set (ms_running ms) \<Longrightarrow> exec_finish st task ctxErr ms = ms' \<Longrightarrow>
     ms_step st M cancels ms (ms'\<lparr>ms_running := remove1 (task, Exec_waiting) (ms_running ms')\<rparr>)"
| step_router: "ms_step st M cancels ms (ms\<lparr>ms_router := r\<rparr>)"

inductive ms_steps ::
    "('s, 'x) Store_scheme \<Rightarrow> int \<Rightarrow> bool \<Rightarrow> 's MigrationScheduler \<Rightarrow> 's MigrationScheduler \<Rightarrow> bool" for st M cancels where
  ms_refl: "ms_steps st M cancels ms ms"
| ms_next: "ms_steps st M cancels ms ms' \<Longrightarrow> ms_step st M cancels ms' ms'' \<Longrightarrow> ms_steps st M cancels ms ms''"

text \<open>
  The invariant: a partition is in the queue or active at most once, the queue is ordered by
  priority, at most \<open>M\<close> tasks are active and each of them has a goroutine.
\<close>

definition pid_of :: "'s MigrationScheduler \<Rightarrow> task_ref \<Rightarrow> u32" where
  "pid_of ms t = mt_PartitionID (ms_heap ms t)"

definition prio_of :: "'s MigrationScheduler \<Rightarrow> task_ref \<Rightarrow> nat" where
  "prio_of ms t = priority_number (mt_Priority (ms_heap ms t))"

definition ms_inv :: "int \<Rightarrow> 's MigrationScheduler \<Rightarrow> bool" where
  "ms_inv M ms \<longleftrightarrow>
     distinct (map (pid_of ms) (ms_pendingTasks ms) @ map fst (ms_activeTasks ms)) \<and>
     (\<forall>(i, t) \<in> set (ms_activeTasks ms). pid_of ms t = i \<and> t \<in> fst ` set (ms_running ms)) \<and>
     sorted_wrt (\<lambda>a b. prio_of ms b \<le> prio_of ms a) (ms_pendingTasks ms) \<and>
     int (length (ms_activeTasks ms)) \<le> M \<and> 0 < ms_maxConcurrent ms \<and> ms_maxConcurrent ms \<le> M \<and>
     distinct (map fst (ms_running ms)) \<and> set (ms_pendingTasks ms) \<inter> fst ` set (ms_running ms) = {}"

text \<open>Without cancellations, the goroutines are those of the active tasks.\<close>

definition all_active :: "'s MigrationScheduler \<Rightarrow> bool" where
  "all_active ms \<longleftrightarrow> fst ` set (ms_running ms) \<subseteq> snd ` set (ms_activeTasks ms)"

lemma pid_of_simps [simp]:
  "pid_of (ms\<lparr>ms_running := x\<rparr>) = pid_of ms" "pid_of (ms\<lparr>ms_router := r\<rparr>) = pid_of ms"
  "pid_of (ms\<lparr>ms_pendingTasks := ps\<rparr>) = pid_of ms"
  "prio_of (ms\<lparr>ms_running := x\<rparr>) = prio_of ms" "prio_of (ms\<lparr>ms_router := r\<rparr>) = prio_of ms"
  "prio_of (ms\<lparr>ms_pendingTasks := ps\<rparr>) = prio_of ms"
  by (simp_all add: pid_of_def prio_of_def fun_eq_iff)

lemma pid_of_operations [simp]:
  "pid_of (completeMigration st task e ms) = pid_of ms" "prio_of (completeMigration st task e ms) = prio_of ms"
  "pid_of (cancel_active msg x ms) = pid_of ms" "prio_of (cancel_active msg x ms) = prio_of ms"
  "pid_of (start_task task ms) = pid_of ms" "prio_of (start_task task ms) = prio_of ms"
  "pid_of (SetConfig limit bw ms) = pid_of ms" "prio_of (SetConfig limit bw ms) = prio_of ms"
  by (simp_all add: completeMigration_def cancel_active_def start_task_def SetConfig_def pid_of_def prio_of_def fun_eq_iff Let_def
      split: option.splits prod.splits)

lemma fold_start_task:
  assumes "distinct (map (pid_of ms) ts @ map fst (ms_activeTasks ms))"
  shows "ms_activeTasks (fold start_task ts ms) = ms_activeTasks ms @ map (\<lambda>t. (pid_of ms t, t)) ts \<and>
    pid_of (fold start_task ts ms) = pid_of ms \<and> prio_of (fold start_task ts ms) = prio_of ms \<and>
    ms_pendingTasks (fold start_task ts ms) = ms_pendingTasks ms \<and> ms_running (fold start_task ts ms) = ms_running ms \<and>
    ms_maxConcurrent (fold start_task ts ms) = ms_maxConcurrent ms \<and> ms_router (fold start_task ts ms) = ms_router ms \<and>
    ms_completedTasks (fold start_task ts ms) = ms_completedTasks ms"
  using assms
proof (induction ts arbitrary: ms)
  case (Cons t ts)
  have act: "ms_activeTasks (start_task t ms) = ms_activeTasks ms @ [(pid_of ms t, t)]"
    using Cons.prems by (simp add: start_task_def update_new pid_of_def)
  have frame: "ms_pendingTasks (start_task t ms) = ms_pendingTasks ms" "ms_running (start_task t ms) = ms_running ms"
    "ms_maxConcurrent (start_task t ms) = ms_maxConcurrent ms" "ms_router (start_task t ms) = ms_router ms"
    "ms_completedTasks (start_task t ms) = ms_completedTasks ms"
    by (simp_all add: start_task_def)
  show ?case
    using Cons.IH [of "start_task t ms"] Cons.prems by (simp add: act frame)
qed simp

lemma insert_task_set: "set (insert_task heap task ts) = insert task (set ts)"
  by (induction ts) auto

lemma insert_task_distinct:
  "distinct (map f (insert_task heap task ts)) \<longleftrightarrow> f task \<notin> f ` set ts \<and> distinct (map f ts)"
  by (induction ts) (auto simp: insert_task_set)

lemma insert_task_sorted:
  assumes "sorted_wrt (\<lambda>a b. priority_number (mt_Priority (heap b)) \<le> priority_number (mt_Priority (heap a))) ts"
  shows "sorted_wrt (\<lambda>a b. priority_number (mt_Priority (heap b)) \<le> priority_number (mt_Priority (heap a))) (insert_task heap task ts)"
  using assms by (induction ts) (auto simp: insert_task_set)

text \<open>The queue is first-in first-out among the tasks of one priority.\<close>

lemma insert_task_fifo:
  assumes "sorted_wrt (\<lambda>a b. priority_number (mt_Priority (heap b)) \<le> priority_number (mt_Priority (heap a))) ts"
  shows "filter (\<lambda>t. priority_number (mt_Priority (heap t)) = p) (insert_task heap task ts) =
     filter (\<lambda>t. priority_number (mt_Priority (heap t)) = p) ts @
       (if priority_number (mt_Priority (heap task)) = p then [task] else [])"
  using assms
proof (induction ts)
  case (Cons t ts)
  have "filter (\<lambda>t. priority_number (mt_Priority (heap t)) = p) (t # ts) = []"
    if "priority_number (mt_Priority (heap t)) < p"
    using that Cons.prems by (auto simp: filter_empty_conv)
  then show ?case
    using Cons by auto
qed simp

lemma AddTask_cases:
  obtains (refused) e where "AddTask task ms = (ms, Some e)"
        "pid_of ms task \<in> pid_of ms ` set (ms_pendingTasks ms) \<union> fst ` set (ms_activeTasks ms)"
    | (added) heap where "heap = (ms_heap ms)(task := (ms_heap ms task)\<lparr>mt_State := MIGRATION_PREPARING\<rparr>)"
        "AddTask task ms = (ms\<lparr>ms_heap := heap, ms_pendingTasks := insert_task heap task (ms_pendingTasks ms)\<rparr>, None)"
        "pid_of ms task \<notin> pid_of ms ` set (ms_pendingTasks ms)" "pid_of ms task \<notin> fst ` set (ms_activeTasks ms)"
proof (cases "pid_of ms task \<in> fst ` set (ms_activeTasks ms) \<or> pid_of ms task \<in> pid_of ms ` set (ms_pendingTasks ms)")
  case True
  then have "\<exists>e. AddTask task ms = (ms, Some e)"
    by (auto simp: AddTask_def Let_def list_ex_iff pid_of_def map_of_eq_None_iff)
  then show ?thesis
    using refused True by blast
next
  case False
  then have "\<not> list_ex (\<lambda>t. mt_PartitionID (ms_heap ms t) = mt_PartitionID (ms_heap ms task)) (ms_pendingTasks ms)"
    by (simp add: list_ex_iff pid_of_def [symmetric] image_iff) metis
  moreover have "map_of (ms_activeTasks ms) (mt_PartitionID (ms_heap ms task)) = None"
    using False by (simp add: pid_of_def map_of_eq_None_iff)
  ultimately have "AddTask task ms = (let heap = (ms_heap ms)(task := (ms_heap ms task)\<lparr>mt_State := MIGRATION_PREPARING\<rparr>)
      in (ms\<lparr>ms_heap := heap, ms_pendingTasks := insert_task heap task (ms_pendingTasks ms)\<rparr>, None))"
    by (simp add: AddTask_def)
  then show ?thesis
    using False added [OF refl] by (simp add: Let_def)
qed

lemma ms_inv_AddTask:
  assumes inv: "ms_inv M ms" and new: "task \<notin> refs_of ms"
  shows "ms_inv M (fst (AddTask task (ms\<lparr>ms_heap := (ms_heap ms)(task := t)\<rparr>)))" (is "ms_inv M (fst (AddTask task ?ms))")
proof -
  have old: "pid_of ?ms x = pid_of ms x" "prio_of ?ms x = prio_of ms x" if "x \<in> refs_of ms" for x
    using that new by (auto simp: pid_of_def prio_of_def)
  have pend: "map (pid_of ?ms) (ms_pendingTasks ms) = map (pid_of ms) (ms_pendingTasks ms)"
    using old(1) by (auto simp: refs_of_def)
  have "sorted_wrt (\<lambda>a b. prio_of ?ms b \<le> prio_of ?ms a) (ms_pendingTasks ms)"
    using inv old(2) by (auto simp: ms_inv_def refs_of_def elim!: sorted_wrt_mono_rel [rotated])
  moreover have "\<forall>(i, t) \<in> set (ms_activeTasks ms). pid_of ?ms t = i \<and> t \<in> fst ` set (ms_running ms)"
    using inv old(1) by (force simp: ms_inv_def refs_of_def)
  ultimately have inv1: "ms_inv M ?ms"
    using inv by (simp add: ms_inv_def pend del: distinct_append)
  show ?thesis
  proof (cases rule: AddTask_cases [of task ?ms])
    case (refused e)
    then show ?thesis
      using inv1 by simp
  next
    case (added heap)
    let ?ms' = "?ms\<lparr>ms_heap := heap, ms_pendingTasks := insert_task heap task (ms_pendingTasks ?ms)\<rparr>"
    have same: "pid_of ?ms' = pid_of ?ms" "prio_of ?ms' = prio_of ?ms"
      and prio: "prio_of ?ms = (\<lambda>x. priority_number (mt_Priority (heap x)))"
      by (simp_all add: pid_of_def prio_of_def fun_eq_iff added(1))
    have "sorted_wrt (\<lambda>a b. prio_of ?ms b \<le> prio_of ?ms a) (insert_task heap task (ms_pendingTasks ms))"
      using insert_task_sorted [of heap "ms_pendingTasks ms" task] inv1 by (simp add: ms_inv_def prio)
    moreover have "task \<notin> fst ` set (ms_running ms)"
      using new by (simp add: refs_of_def)
    ultimately have "ms_inv M ?ms'"
      unfolding ms_inv_def same using inv1 added(3,4)
      by (auto simp: ms_inv_def insert_task_distinct insert_task_set)
    then show ?thesis
      by (simp add: added(2))
  qed
qed

lemma ms_inv_processQueue:
  assumes inv: "ms_inv M ms"
  shows "ms_inv M (processQueue ms)" and "all_active ms \<Longrightarrow> all_active (processQueue ms)"
proof -
  define slots where "slots = ms_maxConcurrent ms - int (length (ms_activeTasks ms))"
  define ts where "ts = take (nat slots) (ms_pendingTasks ms)"
  define rest where "rest = drop (length ts) (ms_pendingTasks ms)"
  define ms2 where "ms2 = fold start_task ts (ms\<lparr>ms_pendingTasks := rest\<rparr>)"
  have split: "ms_pendingTasks ms = ts @ rest"
    by (simp add: ts_def rest_def min_def)
  have inv': "distinct (map (pid_of ms) (ts @ rest) @ map fst (ms_activeTasks ms))"
    "\<forall>(i, t) \<in> set (ms_activeTasks ms). pid_of ms t = i \<and> t \<in> fst ` set (ms_running ms)"
    "sorted_wrt (\<lambda>a b. prio_of ms b \<le> prio_of ms a) (ts @ rest)"
    "0 < ms_maxConcurrent ms" "ms_maxConcurrent ms \<le> M" "distinct (map fst (ms_running ms))"
    "set (ts @ rest) \<inter> fst ` set (ms_running ms) = {}"
    using inv unfolding ms_inv_def split by - (elim conjE, assumption)+
  have dist: "distinct (map (pid_of ms) ts @ map fst (ms_activeTasks ms))"
    using inv'(1) by auto
  have f: "ms_activeTasks ms2 = ms_activeTasks ms @ map (\<lambda>t. (pid_of ms t, t)) ts" "pid_of ms2 = pid_of ms"
    "prio_of ms2 = prio_of ms" "ms_pendingTasks ms2 = rest" "ms_running ms2 = ms_running ms" "ms_maxConcurrent ms2 = ms_maxConcurrent ms"
    using fold_start_task [of "ms\<lparr>ms_pendingTasks := rest\<rparr>" ts] dist by (simp_all add: ms2_def)
  have res: "processQueue ms = (if slots \<le> 0 \<or> ms_pendingTasks ms = [] then ms
      else ms2\<lparr>ms_running := ms_running ms @ map (\<lambda>t. (t, Exec_started)) ts\<rparr>)"
    using f(5) by (simp add: processQueue_def slots_def ts_def rest_def ms2_def Let_def)
  have distinct: "distinct ts" "set ts \<inter> set rest = {}"
    using inv'(1) by (auto simp: distinct_map)
  have active: "\<forall>(i, t) \<in> set (ms_activeTasks ms2). pid_of ms t = i \<and> t \<in> fst ` set (ms_running ms) \<union> set ts"
    using inv'(2) f(1) by auto
  have run: "fst ` set (ms_running ms @ map (\<lambda>t. (t, Exec_started)) ts) = fst ` set (ms_running ms) \<union> set ts"
    by (force simp: image_iff)
  define R where "R = ms_running ms @ map (\<lambda>t. (t, Exec_started)) ts"
  have iff: "ms_inv M (ms2\<lparr>ms_running := R\<rparr>) \<longleftrightarrow>
      distinct (map (pid_of ms) rest @ map fst (ms_activeTasks ms2)) \<and>
      (\<forall>(i, t) \<in> set (ms_activeTasks ms2). pid_of ms t = i \<and> t \<in> fst ` set R) \<and>
      sorted_wrt (\<lambda>a b. prio_of ms b \<le> prio_of ms a) rest \<and> int (length (ms_activeTasks ms2)) \<le> M \<and>
      0 < ms_maxConcurrent ms \<and> ms_maxConcurrent ms \<le> M \<and> distinct (map fst R) \<and> set rest \<inter> fst ` set R = {}"
    unfolding ms_inv_def by (simp add: f(2-6) del: distinct_append)
  show "ms_inv M (processQueue ms)"
  proof (cases "slots \<le> 0 \<or> ms_pendingTasks ms = []")
    case True
    then show ?thesis
      using inv res by simp
  next
    case False
    have "ms_inv M (ms2\<lparr>ms_running := R\<rparr>)"
      unfolding iff
    proof (intro conjI)
      show "distinct (map (pid_of ms) rest @ map fst (ms_activeTasks ms2))"
        using inv'(1) f(1) by (auto simp: comp_def)
      show "\<forall>(i, t) \<in> set (ms_activeTasks ms2). pid_of ms t = i \<and> t \<in> fst ` set R"
        using active unfolding R_def run .
      show "sorted_wrt (\<lambda>a b. prio_of ms b \<le> prio_of ms a) rest"
        using inv'(3) by (simp add: sorted_wrt_append)
      show "int (length (ms_activeTasks ms2)) \<le> M"
        using False inv'(5) f(1) by (auto simp: slots_def ts_def)
      show "distinct (map fst R)"
        using inv'(6,7) distinct(1) by (auto simp: comp_def R_def)
      show "set rest \<inter> fst ` set R = {}"
        using inv'(7) distinct(2) unfolding R_def run by auto
    qed (rule inv'(4,5))+
    then show ?thesis
      using False res by (simp add: R_def)
  qed
  show "all_active (processQueue ms)" if "all_active ms"
    using that f(1) run unfolding all_active_def res by (auto simp: image_Un image_image)
qed

lemma completeMigration_simps [simp]:
  "ms_pendingTasks (completeMigration st task e ms) = ms_pendingTasks ms"
  "ms_activeTasks (completeMigration st task e ms) = AList.delete (pid_of ms task) (ms_activeTasks ms)"
  "ms_running (completeMigration st task e ms) = ms_running ms"
  "ms_maxConcurrent (completeMigration st task e ms) = ms_maxConcurrent ms"
  "ms_completedTasks (completeMigration st task e ms) = ms_completedTasks ms @ [task]"
  "ms_totalMigrated (completeMigration st task e ms) = ms_totalMigrated ms + (if e = None then 1 else 0)"
  "ms_totalFailed (completeMigration st task e ms) = ms_totalFailed ms + (if e = None then 0 else 1)"
  by (simp_all add: completeMigration_def pid_of_def Let_def split: option.splits)

text \<open>Taking a partition out of the active table and ending goroutines of other partitions.\<close>

lemma ms_inv_end:
  assumes inv: "ms_inv M ms" and "pid_of ms' = pid_of ms" "prio_of ms' = prio_of ms" "ms_pendingTasks ms' = ms_pendingTasks ms"
    "ms_maxConcurrent ms' = ms_maxConcurrent ms" "ms_activeTasks ms' = AList.delete i (ms_activeTasks ms)"
    and run: "distinct (map fst (ms_running ms'))" "fst ` set (ms_running ms') \<subseteq> fst ` set (ms_running ms)"
      "\<And>t. t \<in> fst ` set (ms_running ms) \<Longrightarrow> pid_of ms t \<noteq> i \<Longrightarrow> t \<in> fst ` set (ms_running ms')"
  shows "ms_inv M ms'"
proof -
  note old = inv [unfolded ms_inv_def]
  have sub: "set (AList.delete i (ms_activeTasks ms)) \<subseteq> set (ms_activeTasks ms)"
    by (rule delete_keys_subset)
  have d: "distinct (map (pid_of ms) (ms_pendingTasks ms))" "distinct (map fst (ms_activeTasks ms))"
    "pid_of ms ` set (ms_pendingTasks ms) \<inter> fst ` set (ms_activeTasks ms) = {}"
    using old by simp_all
  have "distinct (map (pid_of ms) (ms_pendingTasks ms) @ map fst (AList.delete i (ms_activeTasks ms)))"
  proof -
    have "pid_of ms ` set (ms_pendingTasks ms) \<inter> fst ` set (AList.delete i (ms_activeTasks ms)) = {}"
      using d(3) image_mono [OF sub, of fst] by blast
    then show ?thesis
      using d(1) delete_keys_subset(4) [OF d(2), of i] by simp
  qed
  moreover have "\<forall>(j, t) \<in> set (AList.delete i (ms_activeTasks ms)). pid_of ms t = j \<and> t \<in> fst ` set (ms_running ms')"
  proof clarify
    fix j t
    assume jt: "(j, t) \<in> set (AList.delete i (ms_activeTasks ms))"
    note active = subsetD [OF sub jt]
    have "pid_of ms t = j \<and> t \<in> fst ` set (ms_running ms)"
      using bspec [OF old [THEN conjunct2, THEN conjunct1] active] by (simp only: prod.case)
    then show "pid_of ms t = j \<and> t \<in> fst ` set (ms_running ms')"
      using run(3) delete_keys_subset(2) [OF jt] by simp
  qed
  moreover have "int (length (AList.delete i (ms_activeTasks ms))) \<le> M"
    using old delete_keys_subset(3) [where k = i and xs = "ms_activeTasks ms"] by simp
  moreover have "set (ms_pendingTasks ms) \<inter> fst ` set (ms_running ms') = {}"
  proof -
    have "set (ms_pendingTasks ms) \<inter> fst ` set (ms_running ms) = {}"
      using old by simp
    then show ?thesis
      using run(2) by blast
  qed
  ultimately show ?thesis
    using old run(1) unfolding ms_inv_def assms(2-6) by simp
qed

lemma remove1_running:
  assumes "distinct (map fst xs)" and "(task, ph) \<in> set xs"
  shows "fst ` set (remove1 (task, ph) xs) = fst ` set xs - {task}" "distinct (map fst (remove1 (task, ph) xs))"
proof -
  have set: "set (remove1 (task, ph) xs) = set xs - {(task, ph)}"
    using assms(1) by (simp add: distinct_map set_remove1_eq)
  have "task \<notin> fst ` (set xs - {(task, ph)})"
  proof
    assume "task \<in> fst ` (set xs - {(task, ph)})"
    then obtain p where p: "p \<in> set xs" "p \<noteq> (task, ph)" "task = fst p"
      by blast
    have "(task, snd p) \<in> set xs"
      using p(1,3) by simp
    from map_of_is_SomeI [OF assms(1) this] map_of_is_SomeI [OF assms] have "snd p = ph"
      by simp
    then show False
      using p(2,3) by (cases p) simp
  qed
  moreover have "fst ` set xs - {task} \<subseteq> fst ` (set xs - {(task, ph)})"
    by auto
  ultimately show "fst ` set (remove1 (task, ph) xs) = fst ` set xs - {task}"
    unfolding set by blast
  show "distinct (map fst (remove1 (task, ph) xs))"
    using assms(1) inj_on_subset [OF _ set_remove1_subset [of "(task, ph)" xs], of fst] by (simp add: distinct_map)
qed

lemma ms_inv_complete:
  assumes inv: "ms_inv M ms" and r: "(task, ph) \<in> set (ms_running ms)"
    and ms': "ms' = (completeMigration st task e ms)\<lparr>ms_running := remove1 (task, ph) (ms_running ms)\<rparr>"
  shows "ms_inv M ms'" and "all_active ms \<Longrightarrow> all_active ms'"
proof -
  have dist: "distinct (map fst (ms_running ms))"
    using inv by (simp add: ms_inv_def)
  note rem = remove1_running [OF dist r]
  show "ms_inv M ms'"
    using rem by (intro ms_inv_end [OF inv, of ms' "pid_of ms task"]) (auto simp: ms')
  show "all_active ms'" if "all_active ms"
  proof -
    have act: "pid_of ms t = j" if "(j, t) \<in> set (ms_activeTasks ms)" for j t
      using inv that by (auto simp: ms_inv_def)
    have keys: "distinct (map fst (ms_activeTasks ms))"
      using inv by (simp add: ms_inv_def)
    have "t \<in> snd ` set (AList.delete (pid_of ms task) (ms_activeTasks ms))" if t: "t \<in> fst ` set (ms_running ms)" "t \<noteq> task" for t
    proof -
      obtain j where j: "(j, t) \<in> set (ms_activeTasks ms)"
        using t \<open>all_active ms\<close> by (force simp: all_active_def)
      have "task \<in> snd ` set (ms_activeTasks ms)"
        using r \<open>all_active ms\<close> by (force simp: all_active_def)
      then have "(pid_of ms task, task) \<in> set (ms_activeTasks ms)"
        using act by force
      then have "j \<noteq> pid_of ms task"
        using map_of_is_SomeI [OF keys j] map_of_is_SomeI [OF keys, of "pid_of ms task" task] t(2) by auto
      then have "(j, t) \<in> set (AList.delete (pid_of ms task) (ms_activeTasks ms))"
        using j by (simp add: AList.delete_eq)
      then show ?thesis
        by force
    qed
    then show ?thesis
      using rem(1) by (auto simp: all_active_def ms')
  qed
qed

lemma remove_pending_cases:
  "remove_pending heap i ts = ts \<or> (\<exists>xs t ys. ts = xs @ t # ys \<and> remove_pending heap i ts = xs @ ys)"
proof (induction ts)
  case (Cons t ts)
  show ?case
  proof (cases "mt_PartitionID (heap t) = i")
    case True
    then show ?thesis
      by (intro disjI2 exI [of _ "[]"] exI [of _ t] exI [of _ ts]) simp
  next
    case False
    from Cons.IH show ?thesis
    proof
      assume "\<exists>xs t ys. ts = xs @ t # ys \<and> remove_pending heap i ts = xs @ ys"
      then obtain xs t' ys where "ts = xs @ t' # ys" "remove_pending heap i ts = xs @ ys"
        by blast
      then show ?thesis
        using False by (intro disjI2 exI [of _ "t # xs"] exI [of _ t'] exI [of _ ys]) simp
    qed (use False in simp)
  qed
qed simp

lemma ms_inv_pending:
  assumes "ms_inv M ms" and "ms_pendingTasks ms = xs @ t # ys"
  shows "ms_inv M (ms\<lparr>ms_pendingTasks := xs @ ys\<rparr>)"
  using assms by (auto simp: ms_inv_def sorted_wrt_append)

lemma ms_inv_no_pending: "ms_inv M ms \<Longrightarrow> ms_inv M (ms\<lparr>ms_pendingTasks := []\<rparr>)"
  by (simp add: ms_inv_def)

lemma ms_inv_router: "ms_inv M (ms\<lparr>ms_router := r\<rparr>) = ms_inv M ms" "all_active (ms\<lparr>ms_router := r\<rparr>) = all_active ms"
  by (simp_all add: ms_inv_def all_active_def)

lemma ms_inv_cancel_active:
  assumes inv: "ms_inv M ms"
  shows "ms_inv M (cancel_active msg (i, t) ms)"
proof -
  have frame: "ms_pendingTasks (cancel_active msg (i, t) ms) = ms_pendingTasks ms" "ms_running (cancel_active msg (i, t) ms) = ms_running ms"
    "ms_maxConcurrent (cancel_active msg (i, t) ms) = ms_maxConcurrent ms"
    "ms_activeTasks (cancel_active msg (i, t) ms) = AList.delete i (ms_activeTasks ms)"
    by (simp_all add: cancel_active_def)
  have "distinct (map fst (ms_running ms))"
    using inv by (simp add: ms_inv_def)
  then show ?thesis
    by (intro ms_inv_end [OF inv, of "cancel_active msg (i, t) ms" i]) (simp_all add: frame)
qed

lemma ms_inv_step:
  assumes "ms_step st M cancels ms ms'" and "ms_inv M ms"
  shows "ms_inv M ms' \<and> (\<not> cancels \<and> all_active ms \<longrightarrow> all_active ms')"
  using assms
proof (induction rule: ms_step.induct)
  case (step_AddTask task ms t)
  have frame: "ms_activeTasks (fst (AddTask task ms)) = ms_activeTasks ms" "ms_running (fst (AddTask task ms)) = ms_running ms"
    for ms :: "'a MigrationScheduler"
    by (simp_all add: AddTask_def Let_def)
  show ?case
    using ms_inv_AddTask [OF step_AddTask(2,1), of t] by (simp add: all_active_def frame)
next
  case (step_CancelTask ms i)
  show ?case
  proof (cases "map_of (ms_activeTasks ms) i")
    case None
    then show ?thesis
      using step_CancelTask remove_pending_cases [of "ms_heap ms" i "ms_pendingTasks ms"]
      by (auto simp: CancelTask_def intro: ms_inv_pending)
  next
    case (Some t)
    then show ?thesis
      using step_CancelTask by (simp add: CancelTask_def ms_inv_cancel_active)
  qed
next
  case (step_CancelAllTasks ms)
  have "ms_inv M (fold (cancel_active msg) xs ms)" if "ms_inv M ms" for msg xs and ms :: "'a MigrationScheduler"
    using that by (induction xs arbitrary: ms) (auto simp: ms_inv_cancel_active)
  then show ?case
    using step_CancelAllTasks by (simp add: CancelAllTasks_def ms_inv_no_pending)
next
  case (step_SetConfig limit ms bandwidth)
  then show ?case
    unfolding ms_inv_def all_active_def pid_of_operations by (simp add: SetConfig_def Let_def)
next
  case (step_Start ms)
  then show ?case
    by (simp add: ms_Start_def ms_inv_def all_active_def pid_of_def [abs_def] prio_of_def [abs_def])
next
  case (step_Stop ms)
  then show ?case
    by (simp add: ms_Stop_def ms_inv_def all_active_def pid_of_def [abs_def] prio_of_def [abs_def])
next
  case (step_processQueue ms)
  then show ?case
    using ms_inv_processQueue by blast
next
  case (step_begin task ms ms' continue)
  obtain s' e where set: "st_SetMigrationState st (mt_PartitionID (ms_heap ms task))
      \<lparr>mi_PartitionID = mt_PartitionID (ms_heap ms task), mi_Target = mt_Target (ms_heap ms task), mi_State = MIGRATION_COPYING,
       mi_IsPrimaryMove = mt_IsPrimary (ms_heap ms task)\<rparr> (r_store (ms_router ms)) = (s', e)"
    by force
  let ?ms = "ms\<lparr>ms_router := (ms_router ms)\<lparr>r_store := s'\<rparr>\<rparr>"
  show ?case
  proof (cases e)
    case None
    then have "continue" "ms' = ?ms"
      using step_begin(2) set by (auto simp: exec_begin_def Let_def)
    moreover have "distinct (map fst (ms_running ms))"
      using step_begin(3) by (simp add: ms_inv_def)
    note rem = remove1_running [OF this step_begin(1)]
    have "fst ` set ((task, Exec_waiting) # remove1 (task, Exec_started) (ms_running ms)) = fst ` set (ms_running ms)"
      using rem(1) step_begin(1) by force
    moreover have "distinct (map fst ((task, Exec_waiting) # remove1 (task, Exec_started) (ms_running ms)))"
      using rem by (simp add: image_set [symmetric] del: image_set)
    ultimately show ?thesis
      using step_begin(3) unfolding ms_inv_def all_active_def by (simp add: pid_of_simps)
  next
    case (Some er)
    then have "\<not> continue" "ms' = completeMigration st task (Some er) ?ms"
      using step_begin(2) set by (auto simp: exec_begin_def Let_def)
    then show ?thesis
      using ms_inv_complete [of M ?ms task Exec_started _ st "Some er"] step_begin(1,3) by (simp add: ms_inv_router)
  qed
next
  case (step_finish task ms ctxErr ms')
  have "\<exists>r e. exec_finish st task ctxErr ms = completeMigration st task e (ms\<lparr>ms_router := r\<rparr>)"
  proof (cases ctxErr)
    case (Some e)
    then show ?thesis
      by (intro exI [of _ "ms_router ms"] exI [of _ "Some e"]) (simp add: exec_finish_def)
  qed (auto simp: exec_finish_def Let_def split: prod.splits)
  then obtain r e where "ms' = completeMigration st task e (ms\<lparr>ms_router := r\<rparr>)"
    using step_finish(2) by blast
  then show ?case
    using ms_inv_complete [of M "ms\<lparr>ms_router := r\<rparr>" task Exec_waiting _ st e] step_finish(1,3) by (simp add: ms_inv_router)
next
  case (step_router ms r)
  then show ?case
    by (simp add: ms_inv_router)
qed

lemma ms_inv_steps:
  assumes "ms_steps st M cancels (NewMigrationScheduler heap router) ms" and "DefaultMaxConcurrent \<le> M"
  shows "ms_inv M ms \<and> (\<not> cancels \<longrightarrow> all_active ms)"
  using assms
proof (induction "NewMigrationScheduler heap router" ms rule: ms_steps.induct)
  case ms_refl
  then show ?case
    by (simp add: NewMigrationScheduler_def ms_inv_def all_active_def DefaultMaxConcurrent_def)
next
  case (ms_next ms' ms'')
  then show ?case
    using ms_inv_step by blast
qed

lemma ms_steps_mono:
  assumes "ms_steps st m cancels ms ms'" and "m \<le> M"
  shows "ms_steps st M cancels ms ms'"
proof -
  have "ms_step st M cancels ms ms'" if "ms_step st m cancels ms ms'" for ms ms' :: "'a MigrationScheduler"
    using that by (induction rule: ms_step.induct) (rule ms_step.intros; use assms(2) in simp)+
  with assms(1) show ?thesis
    by (induction rule: ms_steps.induct) (auto intro: ms_steps.intros)
qed

text \<open>Only \<open>SetConfig\<close> changes the limit.\<close>

lemma limit_frame:
  "ms_maxConcurrent (fst (AddTask task ms)) = ms_maxConcurrent ms" "ms_maxConcurrent (cancel_active msg x ms) = ms_maxConcurrent ms"
  "ms_maxConcurrent (fst (CancelTask i ms)) = ms_maxConcurrent ms" "ms_maxConcurrent (CancelAllTasks ms) = ms_maxConcurrent ms"
  "ms_maxConcurrent (start_task task ms) = ms_maxConcurrent ms" "ms_maxConcurrent (processQueue ms) = ms_maxConcurrent ms"
  "ms_maxConcurrent (fst (exec_begin st task ms)) = ms_maxConcurrent ms" "ms_maxConcurrent (exec_finish st task e ms) = ms_maxConcurrent ms"
proof -
  have fold: "ms_maxConcurrent (fold f xs ms) = ms_maxConcurrent ms"
    if "\<And>x ms. ms_maxConcurrent (f x ms) = ms_maxConcurrent ms" for f :: "'c \<Rightarrow> 'a MigrationScheduler \<Rightarrow> _" and xs ms
    using that by (induction xs arbitrary: ms) simp_all
  show cancel: "ms_maxConcurrent (cancel_active msg x ms) = ms_maxConcurrent ms" for msg x and ms :: "'a MigrationScheduler"
    by (simp add: cancel_active_def split: prod.splits)
  show start: "ms_maxConcurrent (start_task task ms) = ms_maxConcurrent ms" for task and ms :: "'a MigrationScheduler"
    by (simp add: start_task_def)
  have complete: "ms_maxConcurrent (completeMigration st task e ms) = ms_maxConcurrent ms" for task e and ms :: "'a MigrationScheduler"
    by simp
  show "ms_maxConcurrent (fst (AddTask task ms)) = ms_maxConcurrent ms"
    by (simp add: AddTask_def Let_def)
  show "ms_maxConcurrent (fst (CancelTask i ms)) = ms_maxConcurrent ms"
    by (simp add: CancelTask_def cancel split: option.splits)
  show "ms_maxConcurrent (CancelAllTasks ms) = ms_maxConcurrent ms"
    by (simp add: CancelAllTasks_def fold [OF cancel])
  show "ms_maxConcurrent (processQueue ms) = ms_maxConcurrent ms"
    by (simp add: processQueue_def Let_def fold [OF start])
  show "ms_maxConcurrent (fst (exec_begin st task ms)) = ms_maxConcurrent ms"
    by (simp add: exec_begin_def Let_def complete split: prod.splits option.splits)
  show "ms_maxConcurrent (exec_finish st task e ms) = ms_maxConcurrent ms"
    by (simp add: exec_finish_def Let_def complete split: prod.splits option.splits)
qed

lemma limit_steps:
  assumes "ms_steps st m cancels ms ms'" and "ms_maxConcurrent ms \<le> m"
  shows "ms_maxConcurrent ms' \<le> m"
  using assms
proof (induction rule: ms_steps.induct)
  case (ms_next ms ms' ms'')
  from ms_next(2) ms_next(3) [OF ms_next(4)] show ?case
  proof (cases rule: ms_step.cases)
    case (step_begin task ms2 continue)
    with limit_frame(7) [of st task ms'] ms_next(3) [OF ms_next(4)] show ?thesis
      by simp
  qed (auto simp: limit_frame SetConfig_def Let_def ms_Start_def ms_Stop_def)
qed

lemma ms_inv_limit:
  assumes "ms_inv M ms" and "ms_maxConcurrent ms \<le> K" and "int (length (ms_activeTasks ms)) \<le> K"
  shows "ms_inv K ms"
  using assms by (simp add: ms_inv_def)

lemma ms_inv_steps_from:
  assumes "ms_steps st M cancels ms ms'" and "ms_inv M ms" and "\<not> cancels \<longrightarrow> all_active ms"
  shows "ms_inv M ms' \<and> (\<not> cancels \<longrightarrow> all_active ms')"
  using assms by (induction rule: ms_steps.induct) (use ms_inv_step in blast)+

lemma ms_limit_steps:
  assumes "ms_steps st M cancels (NewMigrationScheduler heap router) ms0" and "0 < m"
    and "ms_steps st m cancels (SetConfig m bandwidth ms0) ms1" and "ms_steps st m cancels ms1 ms"
  shows "ms_inv (max m (int (GetActiveCount ms1))) ms" and "ms_maxConcurrent ms \<le> m" and "\<not> cancels \<longrightarrow> all_active ms"
proof -
  let ?N = "max (max M m) DefaultMaxConcurrent" and ?K = "max m (int (GetActiveCount ms1))"
  have "ms_steps st ?N cancels (NewMigrationScheduler heap router) ms0"
    by (rule ms_steps_mono [OF assms(1)]) simp
  from ms_next [OF this step_SetConfig [of m]]
  have "ms_steps st ?N cancels (NewMigrationScheduler heap router) (SetConfig m bandwidth ms0)"
    by simp
  from ms_inv_steps [OF this] have "ms_inv ?N (SetConfig m bandwidth ms0) \<and> (\<not> cancels \<longrightarrow> all_active (SetConfig m bandwidth ms0))"
    by simp
  with ms_inv_steps_from [OF ms_steps_mono [OF assms(3)], of ?N]
  have inv1: "ms_inv ?N ms1" "\<not> cancels \<longrightarrow> all_active ms1"
    by simp_all
  have lim1: "ms_maxConcurrent ms1 \<le> m"
    by (rule limit_steps [OF assms(3)]) (use assms(2) in \<open>simp add: SetConfig_def Let_def\<close>)
  have "ms_inv ?K ms1"
    by (rule ms_inv_limit [OF inv1(1)]) (use lim1 in \<open>simp_all add: GetActiveCount_def\<close>)
  from ms_inv_steps_from [OF ms_steps_mono [OF assms(4)] this inv1(2)]
  show "ms_inv ?K ms" "\<not> cancels \<longrightarrow> all_active ms"
    by simp_all
  show "ms_maxConcurrent ms \<le> m"
    by (rule limit_steps [OF assms(4) lim1])
qed

lemma running_bounded:
  assumes "ms_inv M ms" "all_active ms"
  shows "distinct (map (pid_of ms \<circ> fst) (ms_running ms))" "int (length (ms_running ms)) \<le> M"
proof -
  note inv = assms(1) [unfolded ms_inv_def]
  have inj: "inj_on (pid_of ms) (snd ` set (ms_activeTasks ms))"
  proof (rule inj_onI, clarify)
    fix i t j u
    assume it: "(i, t) \<in> set (ms_activeTasks ms)" and ju: "(j, u) \<in> set (ms_activeTasks ms)"
      and eq: "pid_of ms (snd (i, t)) = pid_of ms (snd (j, u))"
    have "i = j"
      using bspec [OF inv [THEN conjunct2, THEN conjunct1] it] bspec [OF inv [THEN conjunct2, THEN conjunct1] ju] eq by simp
    then show "snd (i, t) = snd (j, u)"
      using inv map_of_is_SomeI [OF _ it] map_of_is_SomeI [OF _ ju] by simp
  qed
  have "inj_on (pid_of ms) (fst ` set (ms_running ms))"
    using inj_on_subset [OF inj] assms(2) by (simp add: all_active_def)
  moreover have dist: "distinct (map fst (ms_running ms))"
    using inv by simp
  ultimately show "distinct (map (pid_of ms \<circ> fst) (ms_running ms))"
    by (simp add: distinct_map [of "pid_of ms"] flip: map_map)
  have "card (fst ` set (ms_running ms)) \<le> card (snd ` set (ms_activeTasks ms))"
    using assms(2) by (intro card_mono) (simp_all add: all_active_def)
  also have "\<dots> \<le> length (ms_activeTasks ms)"
    using card_image_le [of "set (ms_activeTasks ms)" snd] card_length [of "ms_activeTasks ms"] by simp
  finally show "int (length (ms_running ms)) \<le> M"
    using inv distinct_card [OF dist] by simp
qed

section \<open>Properties\<close>

text \<open>Two tasks queued on a cluster of one partition, the second of a higher priority.\<close>

definition example_task :: "task_ref \<Rightarrow> MigrationTask" where
  "example_task t = \<lparr>mt_PartitionID = (if t = 2 then 8 else 7), mt_Source = ''a'', mt_Target = ''c'',
     mt_Priority = (if t = 2 then PRIORITY_URGENT else PRIORITY_NORMAL), mt_IsPrimary = True, mt_State = MIGRATION_NONE,
     mt_BytesCopied = 0, mt_BytesTotal = 0, mt_ErrorMessage = NoMessage, mt_cancel = False\<rparr>"

definition queue_router :: "(string \<times> meta_value) list Router" where
  "queue_router = (NewRouter [])\<lparr>r_routeTable := \<lparr>rt_Version = 1, rt_Partitions =
     [(7, \<lparr>pi_ID = 7, pi_Primary = ''a'', pi_Replica = ''b'', pi_Status = PartitionStatusNormal, pi_MigrationTarget = [],
           pi_MigrationState = MIGRATION_NONE, pi_Epoch = 1\<rparr>)]\<rparr>\<rparr>"

definition example_queue :: "nat \<Rightarrow> (string \<times> meta_value) list MigrationScheduler" where
  "example_queue n = fst (AddTasks (take n [1, 2]) (NewMigrationScheduler example_task queue_router))"

lemma example_queue_simps:
  "ms_pendingTasks (example_queue 1) = [1]" "ms_pendingTasks (example_queue 2) = [2, 1]"
  "ms_activeTasks (example_queue n) = []" "ms_running (example_queue n) = []" "ms_completedTasks (example_queue n) = []"
  "ms_maxConcurrent (example_queue n) = 4" "ms_router (example_queue n) = queue_router"
  "mt_PartitionID (ms_heap (example_queue n) t) = mt_PartitionID (example_task t)"
  "mt_Priority (ms_heap (example_queue n) t) = mt_Priority (example_task t)"
  "ms_totalMigrated (example_queue n) = 0" "ms_totalFailed (example_queue n) = 0"
  by (cases "n = 0"; cases "n = 1"; simp add: example_queue_def take_Cons' AddTask_def NewMigrationScheduler_def example_task_def Let_def
      DefaultMaxConcurrent_def)+

lemma example_queue_reachable:
  "ms_steps st M cancels (NewMigrationScheduler example_task queue_router) (example_queue 1)"
  "ms_steps st M cancels (NewMigrationScheduler example_task queue_router) (example_queue 2)"
  "ms_steps st M cancels (NewMigrationScheduler example_task queue_router) (processQueue (example_queue 2))"
proof -
  have add: "ms_steps st M cancels s (fst (AddTask t ms))" if "ms_steps st M cancels s ms" "t \<notin> refs_of ms"
    for s t and ms :: "(string \<times> meta_value) list MigrationScheduler"
    using ms_next [OF that(1) step_AddTask [OF that(2), of _ _ _ "ms_heap ms t"]] by simp
  have q1: "example_queue 1 = fst (AddTask 1 (NewMigrationScheduler example_task queue_router))"
    by (simp add: example_queue_def split: prod.splits option.splits)
  have "AddTask 1 (NewMigrationScheduler example_task queue_router) = (example_queue 1, None)"
    unfolding q1 by (simp add: AddTask_def NewMigrationScheduler_def)
  then have q2: "example_queue 2 = fst (AddTask 2 (example_queue 1))"
    by (simp add: example_queue_def [of 2] split: prod.splits option.splits)
  show r1: "ms_steps st M cancels (NewMigrationScheduler example_task queue_router) (example_queue 1)"
    unfolding q1 by (rule add [OF ms_refl]) (simp add: refs_of_def NewMigrationScheduler_def)
  show r2: "ms_steps st M cancels (NewMigrationScheduler example_task queue_router) (example_queue 2)"
    unfolding q2 by (rule add [OF r1]) (simp add: refs_of_def example_queue_simps del: One_nat_def)
  show "ms_steps st M cancels (NewMigrationScheduler example_task queue_router) (processQueue (example_queue 2))"
    by (rule ms_next [OF r2 step_processQueue])
qed

lemma example_started:
  "ms_activeTasks (processQueue (example_queue 2)) = [(8, 2), (7, 1)]"
  by (simp add: processQueue_def example_queue_simps start_task_def example_task_def Let_def)



text \<open>
  In every reachable state, a task is refused exactly when its partition has a pending or
  an active task, and then nothing changes; an accepted task stands behind all the pending
  tasks of its priority, the others keep their order, and no task of a lower priority stands
  before it.
\<close>

theorem AddTask_priority_fifo:
  assumes "ms_steps st M cancels (NewMigrationScheduler heap router) ms" and "DefaultMaxConcurrent \<le> M"
    and "AddTask task ms = (ms', e)"
  shows "(e \<noteq> None \<longleftrightarrow> mt_PartitionID (ms_heap ms task) \<in>
           (\<lambda>t. mt_PartitionID (ms_heap ms t)) ` set (ms_pendingTasks ms) \<union> fst ` set (ms_activeTasks ms)) \<and>
    (e \<noteq> None \<longrightarrow> ms' = ms) \<and>
    (e = None \<longrightarrow>
      (\<forall>p. filter (\<lambda>t. priority_number (mt_Priority (ms_heap ms t)) = p) (ms_pendingTasks ms') =
           filter (\<lambda>t. priority_number (mt_Priority (ms_heap ms t)) = p) (ms_pendingTasks ms) @
             (if priority_number (mt_Priority (ms_heap ms task)) = p then [task] else [])) \<and>
      sorted_wrt (\<lambda>a b. priority_number (mt_Priority (ms_heap ms b)) \<le> priority_number (mt_Priority (ms_heap ms a)))
        (ms_pendingTasks ms'))"
proof (cases rule: AddTask_cases [of task ms])
  case (refused er)
  then show ?thesis
    using assms(3) by (simp add: pid_of_def [abs_def])
next
  case (added heap')
  have sorted: "sorted_wrt (\<lambda>a b. prio_of ms b \<le> prio_of ms a) (ms_pendingTasks ms)"
    using ms_inv_steps [OF assms(1,2)] unfolding ms_inv_def by - (elim conjE, assumption)
  have prio: "priority_number (mt_Priority (heap' t)) = priority_number (mt_Priority (ms_heap ms t))" for t
    by (simp add: added(1))
  have "e = None" "ms_pendingTasks ms' = insert_task heap' task (ms_pendingTasks ms)"
    using assms(3) added(2) by auto
  then show ?thesis
    using insert_task_fifo [of heap' "ms_pendingTasks ms" _ task] insert_task_sorted [of heap' "ms_pendingTasks ms" task] sorted added(3,4)
    by (simp add: prio prio_of_def pid_of_def)
qed

theorem AddTask_priority_fifo_witness:
  "snd (AddTask 2 (example_queue 1)) = None \<and>
   sorted_wrt (\<lambda>a b. priority_number (mt_Priority (example_task b)) \<le> priority_number (mt_Priority (example_task a)))
     (ms_pendingTasks (fst (AddTask 2 (example_queue 1))))"
  using AddTask_priority_fifo [OF example_queue_reachable(1) [of "EtcdStore (mem_etcd None)" 4 True], of 2
      "fst (AddTask 2 (example_queue 1))" "snd (AddTask 2 (example_queue 1))"]
  by (auto simp: DefaultMaxConcurrent_def example_queue_simps example_task_def simp del: One_nat_def)

text \<open>
  C37. Cancelling a migration that is under way does not stop it: when its goroutine's wait is
  over, it switches the route table exactly as if it had not been cancelled; the task is
  counted as failed and as migrated, is listed twice among the completed ones and ends in the
  state complete.
\<close>

theorem cancelled_migration_still_switches:
  assumes "map_of (ms_activeTasks ms) i = Some task" and "mt_PartitionID (ms_heap ms task) = i"
    and "CompleteMigration st i (mt_Target (ms_heap ms task)) (mt_IsPrimary (ms_heap ms task)) (ms_router ms) = (r, None)"
    and "CancelTask i ms = (ms1, e)" and "exec_finish st task None ms1 = ms2"
  shows "e = None \<and> ms_router ms2 = r\<lparr>r_store := fst (st_DeleteMigrationState st i (r_store r))\<rparr> \<and>
    mt_State (ms_heap ms1 task) = MIGRATION_FAILED \<and> mt_State (ms_heap ms2 task) = MIGRATION_COMPLETE \<and>
    ms_totalFailed ms2 = ms_totalFailed ms + 1 \<and> ms_totalMigrated ms2 = ms_totalMigrated ms + 1 \<and>
    ms_completedTasks ms2 = ms_completedTasks ms @ [task, task]"
proof -
  have ms1: "ms1 = cancel_active ''cancelled by user'' (i, task) ms" "e = None"
    using assms(1,4) by (auto simp: CancelTask_def)
  have ms2: "ms2 = completeMigration st task None (ms1\<lparr>ms_router := r\<rparr>)"
    using assms(2,3,5) by (simp add: exec_finish_def ms1 cancel_active_def)
  show ?thesis
    using assms(2) by (simp add: ms2 ms1 cancel_active_def completeMigration_def)
qed

theorem cancelled_migration_still_switches_witness:
  "let st = EtcdStore (mem_etcd None); ms = processQueue (example_queue 2); ms2 = exec_finish st 1 None (fst (CancelTask 7 ms))
   in mt_State (ms_heap ms2 1) = MIGRATION_COMPLETE \<and>
      (case map_of (r_store (ms_router ms2)) routeTableKey of
         Some (JRoute table) \<Rightarrow> map_option pi_Primary (map_of (rt_Partitions table) 7) = Some ''c''
       | _ \<Rightarrow> False)"
proof -
  let ?st = "EtcdStore (mem_etcd None)" and ?ms = "processQueue (example_queue 2)"
  let ?r = "CompleteMigration ?st 7 ''c'' True queue_router"
  have heap: "mt_PartitionID (ms_heap ?ms 1) = 7" "mt_Target (ms_heap ?ms 1) = ''c''" "mt_IsPrimary (ms_heap ?ms 1)"
    "ms_router ?ms = queue_router"
    by (simp_all add: processQueue_def start_task_def example_task_def Let_def example_queue_def AddTask_def NewMigrationScheduler_def
        DefaultMaxConcurrent_def)
  have r: "snd ?r = None" "case map_of (fst (st_DeleteMigrationState ?st 7 (r_store (fst ?r)))) routeTableKey of
         Some (JRoute table) \<Rightarrow> map_option pi_Primary (map_of (rt_Partitions table) 7) = Some ''c''
       | _ \<Rightarrow> False"
    by (simp_all add: CompleteMigration_def queue_router_def NewRouter_def save_table_def mem_etcd_def EtcdStore_def
        es_UpdateRouteTable_def es_GetRouteTable_def es_DeleteMigrationState_def set_partition_def copy_table_def plain_def
        updateRouteTable_def update_conv' Let_def split: option.splits prod.splits)
  have act: "map_of (ms_activeTasks ?ms) 7 = Some 1"
    by (simp add: example_started)
  have switch: "CompleteMigration ?st 7 (mt_Target (ms_heap ?ms 1)) (mt_IsPrimary (ms_heap ?ms 1)) (ms_router ?ms) = (fst ?r, None)"
    using r(1) heap(3) unfolding heap(2,4) by (simp only: prod_eq_iff fst_conv snd_conv)
  have sel: "r_store (x\<lparr>r_store := y\<rparr>) = y" for x :: "(string \<times> meta_value) list Router" and y
    by simp
  note res = cancelled_migration_still_switches [OF act heap(1) switch surjective_pairing refl]
  show ?thesis
    using r(2) res unfolding Let_def by (elim conjE) (simp only: sel simp_thms)
qed

text \<open>
  One round of the queue: the tasks \<open>processQueue\<close> starts run to their end, each with its own
  outcome of the wait.
\<close>

definition drain_round ::
    "('s, 'x) Store_scheme \<Rightarrow> (task_ref \<Rightarrow> err option) \<Rightarrow> 's MigrationScheduler \<Rightarrow> 's MigrationScheduler" where
  "drain_round st ctx ms =
     (let ms1 = processQueue ms
      in (fold (\<lambda>g. scheduler_executeMigration st (ctx (fst g)) (fst g)) (ms_running ms1) ms1)\<lparr>ms_running := []\<rparr>)"

lemma executeMigration_completes:
  "\<exists>e r. scheduler_executeMigration st c task ms = completeMigration st task e (ms\<lparr>ms_router := r\<rparr>)"
proof -
  obtain s' e where set: "st_SetMigrationState st (mt_PartitionID (ms_heap ms task))
      \<lparr>mi_PartitionID = mt_PartitionID (ms_heap ms task), mi_Target = mt_Target (ms_heap ms task), mi_State = MIGRATION_COPYING,
       mi_IsPrimaryMove = mt_IsPrimary (ms_heap ms task)\<rparr> (r_store (ms_router ms)) = (s', e)"
    by force
  show ?thesis
    using set by (cases e; cases c) (auto simp: scheduler_executeMigration_def exec_begin_def exec_finish_def Let_def split: prod.splits)
qed

lemma fold_executeMigration:
  fixes ms :: "'s MigrationScheduler"
  assumes "ms' = fold (\<lambda>g. scheduler_executeMigration st (ctx (fst g)) (fst g)) gs ms"
  shows "ms_pendingTasks ms' = ms_pendingTasks ms \<and> ms_maxConcurrent ms' = ms_maxConcurrent ms \<and>
    ms_activeTasks ms' = filter (\<lambda>(i, _). i \<notin> pid_of ms ` fst ` set gs) (ms_activeTasks ms) \<and> pid_of ms' = pid_of ms \<and>
    ms_completedTasks ms' = ms_completedTasks ms @ map fst gs \<and>
    ms_totalMigrated ms' + ms_totalFailed ms' = ms_totalMigrated ms + ms_totalFailed ms + int (length gs)"
  using assms
proof (induction gs arbitrary: ms)
  case (Cons g gs)
  obtain e r where ex: "scheduler_executeMigration st (ctx (fst g)) (fst g) ms = completeMigration st (fst g) e (ms\<lparr>ms_router := r\<rparr>)"
    using executeMigration_completes by blast
  have flt: "filter (\<lambda>(i, _). i \<notin> A) (AList.delete k xs) = filter (\<lambda>(i, _). i \<noteq> k \<and> i \<notin> A) xs"
    for A k and xs :: "(u32 \<times> task_ref) list"
    by (induction xs) auto
  show ?case
    using Cons.IH [of "completeMigration st (fst g) e (ms\<lparr>ms_router := r\<rparr>)"] Cons.prems by (simp add: ex flt)
qed simp

lemma drain_round_step:
  fixes ms :: "'s MigrationScheduler"
  assumes "distinct (map (pid_of ms) (ms_pendingTasks ms))" "ms_activeTasks ms = []" "ms_running ms = []" "0 < ms_maxConcurrent ms"
    and ms': "ms' = drain_round st ctx ms" and k: "k = nat (ms_maxConcurrent ms)"
  shows "ms_pendingTasks ms' = drop k (ms_pendingTasks ms) \<and> ms_activeTasks ms' = [] \<and> ms_running ms' = [] \<and>
    ms_maxConcurrent ms' = ms_maxConcurrent ms \<and> pid_of ms' = pid_of ms \<and>
    ms_completedTasks ms' = ms_completedTasks ms @ take k (ms_pendingTasks ms) \<and>
    ms_totalMigrated ms' + ms_totalFailed ms' = ms_totalMigrated ms + ms_totalFailed ms + int (length (take k (ms_pendingTasks ms)))"
proof (cases "ms_pendingTasks ms = []")
  case True
  then show ?thesis
    using assms(2,3) by (simp add: ms' drain_round_def processQueue_def)
next
  case False
  define ts where "ts = take k (ms_pendingTasks ms)"
  define ms0 where "ms0 = ms\<lparr>ms_pendingTasks := drop (length ts) (ms_pendingTasks ms)\<rparr>"
  define ms1 where "ms1 = (fold start_task ts ms0)\<lparr>ms_running := map (\<lambda>t. (t, Exec_started)) ts\<rparr>"
  have frame: "ms_completedTasks (fold start_task ts x) = ms_completedTasks x \<and> ms_totalMigrated (fold start_task ts x) = ms_totalMigrated x \<and>
      ms_totalFailed (fold start_task ts x) = ms_totalFailed x" for x :: "'s MigrationScheduler"
    by (induction ts arbitrary: x) (simp_all add: start_task_def)
  have "distinct (map (pid_of ms) ts)"
    using assms(1) by (simp add: ts_def distinct_take flip: take_map)
  then have f: "ms_activeTasks ms1 = map (\<lambda>t. (pid_of ms t, t)) ts" "pid_of ms1 = pid_of ms"
    "ms_pendingTasks ms1 = drop (length ts) (ms_pendingTasks ms)" "ms_maxConcurrent ms1 = ms_maxConcurrent ms"
    "ms_running ms1 = map (\<lambda>t. (t, Exec_started)) ts" "ms_completedTasks ms1 = ms_completedTasks ms"
    "ms_totalMigrated ms1 = ms_totalMigrated ms" "ms_totalFailed ms1 = ms_totalFailed ms"
    using fold_start_task [of ms0 ts] assms(2) frame [of ms0] by (simp_all add: ms1_def ms0_def)
  have "processQueue ms = ms1"
    using False assms(2-4) fold_start_task [of ms0 ts] \<open>distinct (map (pid_of ms) ts)\<close>
    by (simp add: processQueue_def ms1_def ms0_def ts_def k Let_def)
  then have ms'': "ms' = (fold (\<lambda>g. scheduler_executeMigration st (ctx (fst g)) (fst g)) (ms_running ms1) ms1)\<lparr>ms_running := []\<rparr>"
    by (simp add: ms' drain_round_def)
  have drop: "drop (length ts) (ms_pendingTasks ms) = drop k (ms_pendingTasks ms)"
    by (simp add: ts_def min_def)
  have "filter (\<lambda>(i, _). i \<notin> pid_of ms ` set ts) (map (\<lambda>t. (pid_of ms t, t)) ts) = []"
    by (auto simp: filter_empty_conv)
  then show ?thesis
    using fold_executeMigration [OF refl, of st ctx "ms_running ms1" ms1] f drop
    by (simp add: ms'' comp_def image_image ts_def)
qed

lemma drain_rounds:
  assumes "distinct (map (pid_of ms) (ms_pendingTasks ms))" "ms_activeTasks ms = []" "ms_running ms = []" "0 < ms_maxConcurrent ms"
    and "ms' = (drain_round st ctx ^^ n) ms"
  shows "ms_pendingTasks ms' = drop (n * nat (ms_maxConcurrent ms)) (ms_pendingTasks ms) \<and> ms_activeTasks ms' = [] \<and>
    ms_completedTasks ms' = ms_completedTasks ms @ take (n * nat (ms_maxConcurrent ms)) (ms_pendingTasks ms) \<and>
    ms_totalMigrated ms' + ms_totalFailed ms' =
      ms_totalMigrated ms + ms_totalFailed ms + int (length (take (n * nat (ms_maxConcurrent ms)) (ms_pendingTasks ms)))"
  using assms
proof (induction n arbitrary: ms)
  case (Suc n)
  define ms1 where "ms1 = drain_round st ctx ms"
  define k where "k = nat (ms_maxConcurrent ms)"
  note step = drain_round_step [OF Suc.prems(1-4) ms1_def k_def]
  have "distinct (map (pid_of ms1) (ms_pendingTasks ms1))"
    using step Suc.prems(1) by (simp add: distinct_drop flip: drop_map)
  note ih = Suc.IH [OF this]
  have "ms' = (drain_round st ctx ^^ n) ms1"
    using Suc.prems(5) by (simp add: ms1_def funpow_swap1)
  moreover have "take (k + n * k) xs = take k xs @ take (n * k) (drop k xs)" for xs :: "task_ref list"
    by (rule take_add)
  ultimately show ?case
    using ih step Suc.prems(4) by (simp add: k_def [symmetric] drop_drop add.commute)
qed simp



end
