(* ===== verification/Failover.thy ===== *)
theory Failover
  imports Meta_Router
begin

text \<open>
  The failover manager of the metadata service, \<open>src/pkg/metadata/failover.go\<close>: the health
  of the storage nodes by their heartbeats, and the promotion of replicas when a node
  fails.

  Times and durations are nanoseconds. The router, with the metadata store in it, is a part of the
  state, and so is the number of rebalancing goroutines that still sleep. The router's watch runs beside
  the manager: \<open>watch\<close> is what it does to the router between two operations.
\<close>

section \<open>State\<close>

definition millisecond :: int where "millisecond = 1000000"

definition DefaultHeartbeatInterval :: int where "DefaultHeartbeatInterval = 100 * millisecond"

definition DefaultHeartbeatTimeout :: int where "DefaultHeartbeatTimeout = 1000 * millisecond"

definition DefaultFailoverDelay :: int where "DefaultFailoverDelay = 5000 * millisecond"

record FailoverConfig =
  fc_HeartbeatInterval :: int
  fc_HeartbeatTimeout :: int
  fc_FailoverDelay :: int

definition DefaultFailoverConfig :: FailoverConfig where
  "DefaultFailoverConfig =
     \<lparr>fc_HeartbeatInterval = DefaultHeartbeatInterval, fc_HeartbeatTimeout = DefaultHeartbeatTimeout,
      fc_FailoverDelay = DefaultFailoverDelay\<rparr>"

record nodeHealthInfo =
  nh_nodeID :: NodeID
  nh_lastHeartbeat :: int
  nh_failCount :: int
  nh_isHealthy :: bool

record 's FailoverManager =
  fm_config :: FailoverConfig
  fm_router :: "'s Router"
  fm_nodeHealth :: "(NodeID \<times> nodeHealthInfo) list"
  fm_sleeping :: nat

definition NewFailoverManager :: "FailoverConfig option \<Rightarrow> 's Router \<Rightarrow> 's FailoverManager" where
  "NewFailoverManager config router =
     \<lparr>fm_config = (case config of None \<Rightarrow> DefaultFailoverConfig | Some c \<Rightarrow> c), fm_router = router, fm_nodeHealth = [],
      fm_sleeping = 0\<rparr>"

section \<open>Failure of a node\<close>

definition promote_all :: "('s, 'x) Store_scheme \<Rightarrow> ('s Router \<Rightarrow> 's Router) \<Rightarrow> u32 list \<Rightarrow> 's Router \<Rightarrow> 's Router" where
  "promote_all st watch = fold (\<lambda>partitionID r. watch (fst (PromoteReplica st partitionID r)))"

definition handleNodeFailure ::
    "('s, 'x) Store_scheme \<Rightarrow> ('s Router \<Rightarrow> 's Router) \<Rightarrow> NodeID \<Rightarrow> 's FailoverManager \<Rightarrow> 's FailoverManager" where
  "handleNodeFailure st watch nodeID fm =
     (let r = fm_router fm;
          r = r\<lparr>r_store := fst (st_UpdateNodeStatus st nodeID NodeStatusOffline (r_store r))\<rparr>
      in case st_GetNode st nodeID (r_store r) of
           Inr (Some node) \<Rightarrow>
             let affectedPrimaryPartitions =
                   map fst (filter (\<lambda>(i, p). pi_Primary p = ni_Addr node) (rt_Partitions (r_routeTable r)))
             in fm\<lparr>fm_router := promote_all st watch affectedPrimaryPartitions r, fm_sleeping := fm_sleeping fm + 1\<rparr>
         | _ \<Rightarrow> fm\<lparr>fm_router := r\<rparr>)"

text \<open>A rebalancing goroutine after its sleep.\<close>

definition delayed_rebalance :: "('s, 'x) Store_scheme \<Rightarrow> 's FailoverManager \<Rightarrow> 's FailoverManager" where
  "delayed_rebalance st fm =
     (if fm_sleeping fm = 0 then fm
      else fm\<lparr>fm_router := fst (RebalancePartitions st (fm_router fm)), fm_sleeping := fm_sleeping fm - 1\<rparr>)"

section \<open>Health\<close>

text \<open>One node of the loop of \<open>checkNodes\<close>: its health and whether it has failed.\<close>

definition check_health :: "FailoverConfig \<Rightarrow> int \<Rightarrow> NodeInfo \<Rightarrow> nodeHealthInfo option \<Rightarrow> nodeHealthInfo \<times> bool" where
  "check_health config now node known =
     (let health = (case known of
                      None \<Rightarrow> \<lparr>nh_nodeID = ni_ID node, nh_lastHeartbeat = ni_LastHeartbeat node, nh_failCount = 0, nh_isHealthy = True\<rparr>
                    | Some h \<Rightarrow> h);
          health = (if ni_LastHeartbeat node > nh_lastHeartbeat health
                    then health\<lparr>nh_lastHeartbeat := ni_LastHeartbeat node, nh_failCount := 0, nh_isHealthy := True\<rparr>
                    else health)
      in if now - nh_lastHeartbeat health > fc_HeartbeatTimeout config
         then (health\<lparr>nh_failCount := nh_failCount health + 1, nh_isHealthy := False\<rparr>, True)
         else (health, False))"

fun check_loop ::
    "FailoverConfig \<Rightarrow> int \<Rightarrow> NodeInfo list \<Rightarrow> (NodeID \<times> nodeHealthInfo) list \<Rightarrow> (NodeID \<times> nodeHealthInfo) list \<times> NodeID list" where
  "check_loop config now [] nodeHealth = (nodeHealth, [])"
| "check_loop config now (node # nodes) nodeHealth =
     (let (health, failed) = check_health config now node (map_of nodeHealth (ni_ID node));
          (nodeHealth, failedNodes) = check_loop config now nodes (AList.update (ni_ID node) health nodeHealth)
      in (nodeHealth, if failed then ni_ID node # failedNodes else failedNodes))"

definition checkNodes ::
    "('s, 'x) Store_scheme \<Rightarrow> ('s Router \<Rightarrow> 's Router) \<Rightarrow> int \<Rightarrow> 's FailoverManager \<Rightarrow> 's FailoverManager" where
  "checkNodes st watch now fm =
     (case st_ListNodes st NodeRoleStorage (r_store (fm_router fm)) of
        Inl _ \<Rightarrow> fm
      | Inr nodes \<Rightarrow>
          let (nodeHealth, failedNodes) = check_loop (fm_config fm) now nodes (fm_nodeHealth fm)
          in fold (handleNodeFailure st watch) failedNodes (fm\<lparr>fm_nodeHealth := nodeHealth\<rparr>))"

definition RecordHeartbeat :: "int \<Rightarrow> NodeID \<Rightarrow> 's FailoverManager \<Rightarrow> 's FailoverManager" where
  "RecordHeartbeat now nodeID fm =
     (let health = (case map_of (fm_nodeHealth fm) nodeID of
                      None \<Rightarrow> \<lparr>nh_nodeID = nodeID, nh_lastHeartbeat = 0, nh_failCount = 0, nh_isHealthy = True\<rparr>
                    | Some h \<Rightarrow> h)
      in fm\<lparr>fm_nodeHealth := AList.update nodeID
              (health\<lparr>nh_lastHeartbeat := now, nh_failCount := 0, nh_isHealthy := True\<rparr>) (fm_nodeHealth fm)\<rparr>)"

definition IsNodeHealthy :: "'s FailoverManager \<Rightarrow> NodeID \<Rightarrow> bool" where
  "IsNodeHealthy fm nodeID =
     (case map_of (fm_nodeHealth fm) nodeID of None \<Rightarrow> False | Some health \<Rightarrow> nh_isHealthy health)"

definition GetHealthyNodes :: "'s FailoverManager \<Rightarrow> NodeID list" where
  "GetHealthyNodes fm = map fst (filter (\<lambda>(nodeID, health). nh_isHealthy health) (fm_nodeHealth fm))"

definition GetNodeHealth :: "'s FailoverManager \<Rightarrow> NodeID \<Rightarrow> int \<times> bool \<times> int" where
  "GetNodeHealth fm nodeID =
     (case map_of (fm_nodeHealth fm) nodeID of
        None \<Rightarrow> (0, False, 0)
      | Some health \<Rightarrow> (nh_lastHeartbeat health, nh_isHealthy health, nh_failCount health))"

section \<open>Promotion with a watch that keeps up\<close>

definition promoted :: "PartitionInfo \<Rightarrow> PartitionInfo" where
  "promoted p = (plain p)\<lparr>pi_Primary := pi_Replica p, pi_Replica := pi_Primary p, pi_Epoch := pi_Epoch p + 1\<rparr>"

lemma plain_promoted [simp]: "plain (promoted p) = promoted p" "plain (plain p) = plain p"
  "promoted (plain p) = promoted p"
  by (simp_all add: promoted_def plain_def)

abbreviation parts :: "'s Router \<Rightarrow> u32 \<rightharpoonup> PartitionInfo" where
  "parts r \<equiv> map_of (rt_Partitions (r_routeTable r))"

text \<open>The watch has delivered every write before the next operation.\<close>

definition keeps_up :: "('s \<Rightarrow> meta_abs) \<Rightarrow> ('s Router \<Rightarrow> 's Router) \<Rightarrow> bool" where
  "keeps_up holds watch \<longleftrightarrow> (\<forall>r. watch r = route_event (ma_table (holds (r_store r))) r)"

definition in_sync :: "('s \<Rightarrow> meta_abs) \<Rightarrow> 's Router \<Rightarrow> bool" where
  "in_sync holds r \<longleftrightarrow> r_routeTable r = ma_table (holds (r_store r)) \<and> distinct (map fst (rt_Partitions (r_routeTable r)))"

text \<open>\<open>ok\<close> describes states in which the store serves every request.\<close>

definition serves :: "('s, 'x) Store_scheme \<Rightarrow> ('s \<Rightarrow> bool) \<Rightarrow> bool" where
  "serves st ok \<longleftrightarrow> (\<forall>s. ok s \<longrightarrow> (\<forall>nid. \<exists>found. st_GetNode st nid s = Inr found) \<and>
     (\<forall>nid v. ok (fst (st_UpdateNodeStatus st nid v s))) \<and> (\<forall>i. ok (fst (st_DeleteMigrationState st i s))) \<and>
     (\<forall>t. snd (st_UpdateRouteTable st t s) = None \<and> ok (fst (fst (st_UpdateRouteTable st t s)))))"

definition addr_of :: "meta_abs \<Rightarrow> NodeID \<rightharpoonup> string" where
  "addr_of a nodeID = map_option ni_Addr (ma_nodes a nodeID)"

text \<open>\<open>p'\<close> is \<open>p\<close>, or, for a partition to promote, \<open>p\<close> promoted; if the store serves the latter.\<close>

definition promotion :: "bool \<Rightarrow> bool \<Rightarrow> PartitionInfo \<Rightarrow> PartitionInfo \<Rightarrow> bool" where
  "promotion served affected p p' \<longleftrightarrow>
     plain p' = plain p \<and> \<not> (affected \<and> served) \<or> affected \<and> plain p' = promoted p"

lemma distinct_set_partition:
  assumes "distinct (map fst (rt_Partitions t))"
  shows "distinct (map fst (rt_Partitions (set_partition i p t)))" "distinct (map fst (rt_Partitions (copy_table t)))"
proof -
  have "map fst (rt_Partitions (copy_table t)) = map fst (rt_Partitions t)"
    by (simp add: copy_table_def case_prod_beta comp_def)
  with assms show "distinct (map fst (rt_Partitions (copy_table t)))"
    by simp
  show "distinct (map fst (rt_Partitions (set_partition i p t)))"
    using assms by (simp add: set_partition_def distinct_update)
qed

context meta_store
begin

lemma PromoteReplica_step:
  assumes sync: "in_sync holds r" and up: "keeps_up holds watch" and known: "parts r i \<noteq> None"
    and r': "r' = watch (fst (PromoteReplica st i r))"
    and ok: "served \<longrightarrow> serves st ok \<and> ok (r_store r)"
  shows "in_sync holds r' \<and> (served \<longrightarrow> ok (r_store r')) \<and> (\<forall>j. rel_option (promotion served (j = i)) (parts r j) (parts r' j))"
proof -
  obtain p where p: "parts r i = Some p"
    using known by blast
  define t where "t = set_partition i (promoted p) (copy_table (r_routeTable r))"
  obtain r1 t' e where sv: "save_table st t r = ((r1, t'), e)"
    by (metis prod.collapse)
  have "PromoteReplica st i r = (r1, e)"
    using p sv by (simp add: PromoteReplica_def Let_def t_def promoted_def)
  then have r'': "r' = route_event (ma_table (holds (r_store r1))) r1"
    using up by (simp add: r' keeps_up_def)
  have srv: "e = None \<and> ok (r_store r')" if "served"
    using ok that arg_cong [OF sv, of snd] arg_cong [OF sv, of "\<lambda>x. r_store (fst (fst x))"]
    by (simp add: serves_def save_table_def r'' split: prod.splits) (metis fst_conv snd_conv)
  have dist: "distinct (map fst (rt_Partitions t))"
    unfolding t_def by (intro distinct_set_partition sync [unfolded in_sync_def, THEN conjunct2])
  from save_table_stored [OF sv] consider
    (new) "ma_table (holds (r_store r1)) = t\<lparr>rt_Version := rt_Version (ma_table (holds (r_store r))) + 1\<rparr>"
    | (old) "e \<noteq> None" "ma_table (holds (r_store r1)) = ma_table (holds (r_store r))"
    by blast
  then show ?thesis
  proof cases
    case new
    then show ?thesis
      using dist p srv by (auto simp: r'' in_sync_def t_def promotion_def rel_option_iff split: option.splits)
  next
    case old
    then show ?thesis
      using sync srv by (auto simp: r'' in_sync_def promotion_def intro!: option.rel_refl)
  qed
qed

lemma promote_all_effect:
  assumes "in_sync holds r" and up: "keeps_up holds watch" and "distinct ids" and "\<forall>i \<in> set ids. parts r i \<noteq> None"
    and "served \<longrightarrow> serves st ok \<and> ok (r_store r)"
  shows "in_sync holds (promote_all st watch ids r) \<and> (served \<longrightarrow> ok (r_store (promote_all st watch ids r))) \<and>
    (\<forall>j. rel_option (promotion served (j \<in> set ids)) (parts r j) (parts (promote_all st watch ids r) j))"
  using assms(1,3-5)
proof (induction ids arbitrary: r)
  case Nil
  then show ?case
    by (auto simp: promote_all_def promotion_def intro: option.rel_refl)
next
  case (Cons i ids)
  define r1 where "r1 = watch (fst (PromoteReplica st i r))"
  have "parts r i \<noteq> None"
    using Cons.prems(3) by simp
  note step' = PromoteReplica_step [OF Cons.prems(1) up this r1_def Cons.prems(4)]
  then have step: "in_sync holds r1" "served \<longrightarrow> serves st ok \<and> ok (r_store r1)" "\<And>j. rel_option (promotion served (j = i)) (parts r j) (parts r1 j)"
    using Cons.prems(4) by blast+
  have "\<forall>k \<in> set ids. parts r1 k \<noteq> None"
    using Cons.prems(3) step(3) by (metis list.set_intros(2) option.rel_distinct(2) option.exhaust)
  with Cons.IH [OF step(1) _ _ step(2)] Cons.prems(2)
  have ih: "in_sync holds (promote_all st watch ids r1)" "served \<longrightarrow> ok (r_store (promote_all st watch ids r1))"
    "\<And>j. rel_option (promotion served (j \<in> set ids)) (parts r1 j) (parts (promote_all st watch ids r1) j)"
    by simp_all
  have res: "promote_all st watch (i # ids) r = promote_all st watch ids r1"
    by (simp add: promote_all_def r1_def)
  have "rel_option (promotion served (j \<in> set (i # ids))) (parts r j) (parts (promote_all st watch ids r1) j)" for j
    using step(3) [of j] ih(3) [of j] Cons.prems(2)
    by (auto simp: rel_option_iff promotion_def split: option.splits; metis plain_promoted)
  then show ?case
    using ih(1,2) res by simp
qed

text \<open>The addresses of the nodes do not change.\<close>

lemma addr_of_status:
  "addr_of (holds (fst (st_UpdateNodeStatus st nid v s))) = addr_of (holds s)"
  "ma_table (holds (fst (st_UpdateNodeStatus st nid v s))) = ma_table (holds s)"
proof -
  obtain s' r where u: "st_UpdateNodeStatus st nid v s = (s', r)"
    by force
  show "addr_of (holds (fst (st_UpdateNodeStatus st nid v s))) = addr_of (holds s)"
    "ma_table (holds (fst (st_UpdateNodeStatus st nid v s))) = ma_table (holds s)"
    using UpdateNodeStatus_cases [OF u] by (auto simp: u addr_of_def fun_eq_iff)
qed

lemma addr_of_promote:
  assumes up: "keeps_up holds watch"
  shows "addr_of (holds (r_store (promote_all st watch ids r))) = addr_of (holds (r_store r))"
proof (induction ids arbitrary: r)
  case (Cons i ids)
  have save: "addr_of (holds (r_store r1)) = addr_of (holds (r_store r))" if sv: "save_table st t r = ((r1, t'), e)" for t r1 t' e
  proof -
    obtain s1 where u: "st_UpdateRouteTable st t (r_store r) = ((s1, t'), e)" "r1 = r\<lparr>r_store := s1\<rparr>"
      using sv by (auto simp: save_table_def split: prod.splits)
    then show ?thesis
      using UpdateRouteTable_ok [of t "r_store r" s1 t'] UpdateRouteTable_failed [of t "r_store r" s1 t']
      by (cases e) (auto simp: addr_of_def fun_eq_iff)
  qed
  have "addr_of (holds (r_store (watch (fst (PromoteReplica st i r))))) = addr_of (holds (r_store r))"
    using up by (auto simp: keeps_up_def PromoteReplica_def Let_def split: option.splits prod.splits dest: save)
  then show ?case
    using Cons.IH by (simp add: promote_all_def)
qed (simp add: promote_all_def)

lemma handleNodeFailure_effect:
  assumes sync: "in_sync holds (fm_router fm)" and up: "keeps_up holds watch" 
    and get: "st_GetNode st nodeID (fst (st_UpdateNodeStatus st nodeID NodeStatusOffline (r_store (fm_router fm)))) = Inr found"
    and node: "addr_of (holds (r_store (fm_router fm))) nodeID = Some addr" and fm': "fm' = handleNodeFailure st watch nodeID fm"
    and ok: "served \<longrightarrow> serves st ok \<and> ok (r_store (fm_router fm))"
  shows "in_sync holds (fm_router fm') \<and> (served \<longrightarrow> ok (r_store (fm_router fm'))) \<and> addr_of (holds (r_store (fm_router fm'))) = addr_of (holds (r_store (fm_router fm))) \<and>
    (\<forall>i. rel_option (\<lambda>p p'. promotion served (pi_Primary p = addr) p p') (parts (fm_router fm) i) (parts (fm_router fm') i)) \<and>
    fm_sleeping fm' = fm_sleeping fm + 1"
proof -
  define r where "r = (fm_router fm)\<lparr>r_store := fst (st_UpdateNodeStatus st nodeID NodeStatusOffline (r_store (fm_router fm)))\<rparr>"
  have r: "in_sync holds r" "parts r = parts (fm_router fm)" "addr_of (holds (r_store r)) = addr_of (holds (r_store (fm_router fm)))"
    using sync by (auto simp: r_def in_sync_def addr_of_status)
  have found: "st_GetNode st nodeID (r_store r) = Inr found" and ok': "served \<longrightarrow> serves st ok \<and> ok (r_store r)"
    using get ok by (auto simp: r_def serves_def)
  obtain n where n: "found = Some n" "ni_Addr n = addr"
    using GetNode_ok [OF found] node r(3) by (auto simp: addr_of_def fun_eq_iff) (metis map_option_eq_Some)
  define ids where "ids = map fst (filter (\<lambda>(i, p). pi_Primary p = addr) (rt_Partitions (r_routeTable r)))"
  have fm'': "fm' = fm\<lparr>fm_router := promote_all st watch ids r, fm_sleeping := fm_sleeping fm + 1\<rparr>"
    using found n by (simp add: fm' handleNodeFailure_def r_def ids_def Let_def)
  have dist: "distinct (map fst (rt_Partitions (r_routeTable r)))"
    by (rule r(1) [unfolded in_sync_def, THEN conjunct2])
  then have "distinct ids"
    unfolding ids_def by (rule distinct_map_filter)
  have mem: "i \<in> set ids \<longleftrightarrow> (\<exists>p. (i, p) \<in> set (rt_Partitions (r_routeTable r)) \<and> pi_Primary p = addr)" for i
    by (force simp: ids_def)
  have lookup: "(i, p) \<in> set (rt_Partitions (r_routeTable r)) \<longleftrightarrow> parts r i = Some p" for i p
    using map_of_eq_Some_iff [OF dist] by blast
  have "\<forall>i \<in> set ids. parts r i \<noteq> None"
    by (auto simp: mem lookup)
  note eff = promote_all_effect [OF r(1) up \<open>distinct ids\<close> this ok']
  have "rel_option (\<lambda>p p'. promotion served (pi_Primary p = addr) p p') (parts r i) (parts (promote_all st watch ids r) i)" for i
    using eff [THEN conjunct2, THEN conjunct2, THEN spec, of i] by (cases "parts r i") (auto simp: mem lookup rel_option_iff split: option.splits)
  then show ?thesis
    using eff addr_of_promote [OF up, of ids r] r(3) by (simp add: fm'' r(2))
qed

lemma served_failure:
  assumes "serves st ok" and "ok (r_store (fm_router fm))" and up: "keeps_up holds watch" and sync: "in_sync holds (fm_router fm)"
    and "ma_nodes (holds (r_store (fm_router fm))) nodeID = Some node" and fm': "fm' = handleNodeFailure st watch nodeID fm"
  shows "in_sync holds (fm_router fm') \<and> ok (r_store (fm_router fm')) \<and>
    addr_of (holds (r_store (fm_router fm'))) = addr_of (holds (r_store (fm_router fm))) \<and> fm_sleeping fm' = fm_sleeping fm + 1 \<and>
    (\<forall>i. rel_option (\<lambda>p p'. plain p' = (if pi_Primary p = ni_Addr node then promoted p else plain p)) (parts (fm_router fm) i) (parts (fm_router fm') i))"
proof -
  obtain found where get: "st_GetNode st nodeID (fst (st_UpdateNodeStatus st nodeID NodeStatusOffline (r_store (fm_router fm)))) = Inr found"
    using assms(1,2) unfolding serves_def by blast
  have addr: "addr_of (holds (r_store (fm_router fm))) nodeID = Some (ni_Addr node)"
    using assms(5) by (simp add: addr_of_def)
  have "promotion True = (\<lambda>affected p p'. plain p' = (if affected then promoted p else plain p))"
    by (auto simp: promotion_def fun_eq_iff)
  then show ?thesis
    using handleNodeFailure_effect [OF sync up get addr fm', of True ok] assms(1,2) by simp
qed

end

lemma promoted_simps:
  assumes "plain p' = promoted p"
  shows "pi_Primary p' = pi_Replica p \<and> pi_Replica p' = pi_Primary p \<and> pi_Epoch p' = pi_Epoch p + 1 \<and> pi_Status p' = pi_Status p"
  using arg_cong [OF assms, of pi_Primary] arg_cong [OF assms, of pi_Replica] arg_cong [OF assms, of pi_Epoch]
    arg_cong [OF assms, of pi_Status] by (simp add: promoted_def)

section \<open>Health of the nodes\<close>

text \<open>A node whose record and whose known health are late is found failed.\<close>

lemma check_health_late:
  assumes "check_health config now node known = (health, failed)"
    and "now - ni_LastHeartbeat node > fc_HeartbeatTimeout config"
    and "\<And>h. known = Some h \<Longrightarrow> now - nh_lastHeartbeat h > fc_HeartbeatTimeout config"
  shows "failed \<and> \<not> nh_isHealthy health \<and> now - nh_lastHeartbeat health > fc_HeartbeatTimeout config"
  using assms by (cases known) (auto simp: check_health_def Let_def split: if_splits)

lemma check_loop_late:
  assumes "\<forall>n \<in> set nodes. ni_ID n = i \<longrightarrow> now - ni_LastHeartbeat n > fc_HeartbeatTimeout config"
    and "\<forall>h. map_of nodeHealth i = Some h \<longrightarrow> now - nh_lastHeartbeat h > fc_HeartbeatTimeout config"
    and "check_loop config now nodes nodeHealth = (nodeHealth', failedNodes)"
  shows "(i \<in> ni_ID ` set nodes \<longrightarrow> i \<in> set failedNodes \<and> (\<exists>h. map_of nodeHealth' i = Some h \<and> \<not> nh_isHealthy h)) \<and>
    (i \<notin> ni_ID ` set nodes \<longrightarrow> map_of nodeHealth' i = map_of nodeHealth i)"
  using assms
proof (induction nodes arbitrary: nodeHealth failedNodes)
  case (Cons n nodes)
  obtain h f where ch: "check_health config now n (map_of nodeHealth (ni_ID n)) = (h, f)"
    by force
  obtain fs where fs: "check_loop config now nodes (AList.update (ni_ID n) h nodeHealth) = (nodeHealth', fs)"
    "failedNodes = (if f then ni_ID n # fs else fs)"
    using Cons.prems(3) ch by (auto split: prod.splits)
  have late: "f \<and> \<not> nh_isHealthy h \<and> now - nh_lastHeartbeat h > fc_HeartbeatTimeout config" if "ni_ID n = i"
    using check_health_late [OF ch] Cons.prems(1,2) that by simp
  have "\<forall>h'. map_of (AList.update (ni_ID n) h nodeHealth) i = Some h' \<longrightarrow> now - nh_lastHeartbeat h' > fc_HeartbeatTimeout config"
    using late Cons.prems(2) by (simp add: update_conv')
  with Cons.IH [OF _ this fs(1)] Cons.prems(1) show ?case
    using late fs(2) by (auto simp: update_conv')
qed auto

lemma check_loop_both:
  assumes "ni_ID a \<noteq> ni_ID b" and "now - ni_LastHeartbeat a > fc_HeartbeatTimeout config" and "now - ni_LastHeartbeat b > fc_HeartbeatTimeout config"
    and known: "\<forall>h \<in> snd ` set nodeHealth. now - nh_lastHeartbeat h > fc_HeartbeatTimeout config"
  shows "\<exists>nodeHealth'. check_loop config now [a, b] nodeHealth = (nodeHealth', [ni_ID a, ni_ID b])"
proof -
  obtain ha fa where a: "check_health config now a (map_of nodeHealth (ni_ID a)) = (ha, fa)"
    by force
  obtain hb fb where b: "check_health config now b (map_of nodeHealth (ni_ID b)) = (hb, fb)"
    by force
  have known': "now - nh_lastHeartbeat h > fc_HeartbeatTimeout config" if "map_of nodeHealth j = Some h" for j h
    using known map_of_SomeD [OF that] by (metis image_eqI snd_conv)
  have "fa" "fb"
    using check_health_late [OF a assms(2) known' [of "ni_ID a"]] check_health_late [OF b assms(3) known' [of "ni_ID b"]] by simp_all
  then show ?thesis
    using a b assms(1) by (simp add: update_conv')
qed

lemma handleNodeFailure_frame:
  "fm_nodeHealth (handleNodeFailure st watch nodeID fm) = fm_nodeHealth fm"
  "fm_config (handleNodeFailure st watch nodeID fm) = fm_config fm"
  "fm_sleeping fm \<le> fm_sleeping (handleNodeFailure st watch nodeID fm)"
  by (simp_all add: handleNodeFailure_def Let_def split: sum.splits option.splits)

lemma fold_handleNodeFailure_frame:
  "fm_nodeHealth (fold (handleNodeFailure st watch) ids fm) = fm_nodeHealth fm"
  by (induction ids arbitrary: fm) (simp_all add: handleNodeFailure_frame)

text \<open>An in-memory store whose documents have the kinds of their keys serves every request.\<close>

definition well_kinded :: "(string \<times> meta_value) list \<Rightarrow> bool" where
  "well_kinded s \<longleftrightarrow> (\<forall>nid v. map_of s (nodePrefix @ nid) = Some v \<longrightarrow> (\<exists>n. v = JNode n)) \<and>
     (\<forall>v. map_of s routeTableKey = Some v \<longrightarrow> (\<exists>t. v = JRoute t))"

lemma well_kinded_GetNode: "well_kinded s \<Longrightarrow> \<exists>found. es_GetNode (mem_etcd None) nid s = Inr found"
  by (auto simp: well_kinded_def es_GetNode_def mem_etcd_def split: option.splits meta_value.splits)

lemma well_kinded_serves: "serves (EtcdStore (mem_etcd None)) well_kinded"
  unfolding serves_def
proof (intro allI impI conjI)
  fix s nid v t
  assume ok: "well_kinded s"
  show "\<exists>found. st_GetNode (EtcdStore (mem_etcd None)) nid s = Inr found"
    using well_kinded_GetNode [OF ok] by (simp add: EtcdStore_def)
  have "well_kinded (AList.update (nodePrefix @ nid) (JNode n) s)" for n
    using ok by (auto simp: well_kinded_def update_conv')
  then show "well_kinded (fst (st_UpdateNodeStatus (EtcdStore (mem_etcd None)) nid v s))"
    using ok well_kinded_GetNode [OF ok, of nid]
    by (auto simp: EtcdStore_def es_UpdateNodeStatus_def mem_etcd_def [of None] split: sum.splits option.splits)
  have "well_kinded (AList.delete (migrationPrefix @ k) s)" for k
    using ok by (auto simp: well_kinded_def delete_conv')
  then show "well_kinded (fst (st_DeleteMigrationState (EtcdStore (mem_etcd None)) i s))" for i
    by (simp add: EtcdStore_def es_DeleteMigrationState_def mem_etcd_def)
  have table: "\<exists>t. es_GetRouteTable (mem_etcd None) s = Inr t"
    using ok by (auto simp: well_kinded_def es_GetRouteTable_def mem_etcd_def split: option.splits meta_value.splits)
  then show "snd (st_UpdateRouteTable (EtcdStore (mem_etcd None)) t s) = None"
    by (auto simp: EtcdStore_def es_UpdateRouteTable_def mem_etcd_def Let_def)
  have "well_kinded (AList.update routeTableKey (JRoute t') s)" for t'
    using ok by (auto simp: well_kinded_def update_conv')
  then show "well_kinded (fst (fst (st_UpdateRouteTable (EtcdStore (mem_etcd None)) t s)))"
    using table by (auto simp: EtcdStore_def es_UpdateRouteTable_def mem_etcd_def [of None] Let_def)
qed

text \<open>Two storage nodes; \<open>a\<close> is the primary of the partitions 1 and 2, \<open>b\<close> the replica.\<close>

definition failover_store :: "(string \<times> meta_value) list" where
  "failover_store = [(routeTableKey, JRoute example_table), (nodePrefix @ ''a'', JNode (example_node ''a'')),
     (nodePrefix @ ''b'', JNode (example_node ''b''))]"

definition failover_router :: "(string \<times> meta_value) list Router" where
  "failover_router = (NewRouter failover_store)\<lparr>r_routeTable := example_table\<rparr>"

definition mem_watch :: "(string \<times> meta_value) list Router \<Rightarrow> (string \<times> meta_value) list Router" where
  "mem_watch r = route_event (ma_table (etcd_abs (map_of (r_store r)))) r"

lemma failover_example:
  "meta_store (EtcdStore (mem_etcd None)) (\<lambda>s. etcd_abs (map_of s))" "keeps_up (\<lambda>s. etcd_abs (map_of s)) mem_watch"
  "in_sync (\<lambda>s. etcd_abs (map_of s)) failover_router" "well_kinded (r_store failover_router)"
  "ma_nodes (etcd_abs (map_of (r_store failover_router))) = [''a'' \<mapsto> example_node ''a'', ''b'' \<mapsto> example_node ''b'']"
  "parts failover_router 1 = Some (example_partition 1)"
  "st_ListNodes (EtcdStore (mem_etcd None)) NodeRoleStorage (r_store failover_router) = Inr [example_node ''a'', example_node ''b'']"
proof -
  have store: "r_store failover_router = failover_store"
    by (simp add: failover_router_def NewRouter_def)
  show "meta_store (EtcdStore (mem_etcd None)) (\<lambda>s. etcd_abs (map_of s))"
    by (rule memkv.is_meta_store)
  show "keeps_up (\<lambda>s. etcd_abs (map_of s)) mem_watch"
    by (simp add: keeps_up_def mem_watch_def)
  show "in_sync (\<lambda>s. etcd_abs (map_of s)) failover_router"
    by (simp add: in_sync_def failover_router_def NewRouter_def etcd_abs_def failover_store_def example_table_def)
  show "well_kinded (r_store failover_router)"
    by (auto simp: store failover_store_def well_kinded_def)
  show "ma_nodes (etcd_abs (map_of (r_store failover_router))) = [''a'' \<mapsto> example_node ''a'', ''b'' \<mapsto> example_node ''b'']"
    by (auto simp: store failover_store_def etcd_abs_def fun_eq_iff)
  show "parts failover_router 1 = Some (example_partition 1)"
    by (simp add: failover_router_def example_table_def)
  show "st_ListNodes (EtcdStore (mem_etcd None)) NodeRoleStorage (r_store failover_router) = Inr [example_node ''a'', example_node ''b'']"
    by (simp add: store EtcdStore_def es_ListNodes_def mem_etcd_def failover_store_def example_node_def NodeRoleStorage_def nodePrefix_def
        routeTableKey_def)
qed

section \<open>Properties\<close>

text \<open>
  C13. Failover, with a store that serves and a watch that keeps up: the failure of a node leaves the
  partitions of other primaries as they are and promotes the replica of each of its own
  exactly once, with the next epoch; no partition is lost or added, the table the router has
  is the stored one, and a rebalancing is scheduled.
\<close>

theorem failover_promotes_replicas:
  assumes "meta_store st holds" and "serves st ok" and "ok (r_store (fm_router fm))" and "keeps_up holds watch"
    and "in_sync holds (fm_router fm)" and "ma_nodes (holds (r_store (fm_router fm))) nodeID = Some node"
    and "fm' = handleNodeFailure st watch nodeID fm"
  shows "ma_table (holds (r_store (fm_router fm'))) = r_routeTable (fm_router fm') \<and> fm_sleeping fm' = fm_sleeping fm + 1 \<and>
    (case parts (fm_router fm) i of
       None \<Rightarrow> parts (fm_router fm') i = None
     | Some p \<Rightarrow>
         \<exists>p'. parts (fm_router fm') i = Some p' \<and>
           (if pi_Primary p = ni_Addr node
            then pi_Primary p' = pi_Replica p \<and> pi_Replica p' = ni_Addr node \<and> pi_Epoch p' = pi_Epoch p + 1 \<and> pi_Status p' = pi_Status p
            else plain p' = plain p))"
proof -
  note eff = meta_store.served_failure [OF assms(1-6) assms(7)]
  show ?thesis
  proof (cases "parts (fm_router fm) i")
    case None
    then show ?thesis
      using eff by (auto simp: in_sync_def dest!: spec [of _ i])
  next
    case (Some p)
    then obtain p' where "parts (fm_router fm') i = Some p'" "plain p' = (if pi_Primary p = ni_Addr node then promoted p else plain p)"
      using eff [THEN conjunct2, THEN conjunct2, THEN conjunct2, THEN conjunct2, THEN spec, of i]
      by (cases "parts (fm_router fm') i") auto
    then show ?thesis
      using Some eff promoted_simps [of p' p] by (auto simp: in_sync_def)
  qed
qed

theorem failover_promotes_replicas_witness:
  "let fm' = handleNodeFailure (EtcdStore (mem_etcd None)) mem_watch ''a'' (NewFailoverManager None failover_router)
   in \<exists>p'. parts (fm_router fm') 1 = Some p' \<and> pi_Primary p' = ''b'' \<and> pi_Epoch p' = 2"
  using failover_promotes_replicas [OF failover_example(1) well_kinded_serves, of "NewFailoverManager None failover_router" mem_watch
      "''a''" "example_node ''a''", where i = 1]
  by (auto simp: Let_def NewFailoverManager_def failover_example example_partition_def example_node_def)

text \<open>
  When both nodes of a partition are down, failover never settles: each check of the nodes, every
  100 ms, promotes the dead replica and then the dead primary again, so that the
  partition is where it was with an epoch higher by two, and two more rebalancings are scheduled.
\<close>

theorem dead_pair_flips:
  assumes "meta_store st holds" and "serves st ok" and "ok (r_store (fm_router fm))" and "keeps_up holds watch" and "in_sync holds (fm_router fm)"
    and "st_ListNodes st NodeRoleStorage (r_store (fm_router fm)) = Inr [a, b]"
    and "\<forall>n \<in> {a, b}. ma_nodes (holds (r_store (fm_router fm))) (ni_ID n) = Some n \<and> now - ni_LastHeartbeat n > fc_HeartbeatTimeout (fm_config fm)"
    and "\<forall>h \<in> snd ` set (fm_nodeHealth fm). now - nh_lastHeartbeat h > fc_HeartbeatTimeout (fm_config fm)"
    and "parts (fm_router fm) i = Some p" and "pi_Primary p = ni_Addr a" and "pi_Replica p = ni_Addr b" and "ni_Addr a \<noteq> ni_Addr b"
  shows "\<exists>p'. parts (fm_router (checkNodes st watch now fm)) i = Some p' \<and> pi_Primary p' = ni_Addr a \<and> pi_Replica p' = ni_Addr b \<and>
     pi_Epoch p' = pi_Epoch p + 2 \<and> fm_sleeping (checkNodes st watch now fm) = fm_sleeping fm + 2"
proof -
  note na = bspec [OF assms(7), of a, simplified] and nb = bspec [OF assms(7), of b, simplified]
  have ids: "ni_ID a \<noteq> ni_ID b"
    using na nb assms(12) by (metis option.inject)
  obtain nodeHealth where loop: "check_loop (fm_config fm) now [a, b] (fm_nodeHealth fm) = (nodeHealth, [ni_ID a, ni_ID b])"
    using check_loop_both [OF ids na [THEN conjunct2] nb [THEN conjunct2] assms(8)] by blast
  define fm0 where "fm0 = fm\<lparr>fm_nodeHealth := nodeHealth\<rparr>"
  define fm1 where "fm1 = handleNodeFailure st watch (ni_ID a) fm0"
  define fm2 where "fm2 = handleNodeFailure st watch (ni_ID b) fm1"
  have fm0: "fm_router fm0 = fm_router fm" "fm_sleeping fm0 = fm_sleeping fm"
    by (simp_all add: fm0_def)
  note eff1 = meta_store.served_failure [OF assms(1,2) assms(3) [folded fm0] assms(4) assms(5) [folded fm0] na [THEN conjunct1, folded fm0] fm1_def,
      unfolded fm0]
  have "addr_of (holds (r_store (fm_router fm1))) (ni_ID b) = addr_of (holds (r_store (fm_router fm))) (ni_ID b)"
    using eff1 by simp
  then have "map_option ni_Addr (ma_nodes (holds (r_store (fm_router fm1))) (ni_ID b)) = Some (ni_Addr b)"
    using nb by (simp add: addr_of_def)
  then obtain b' where b': "ma_nodes (holds (r_store (fm_router fm1))) (ni_ID b) = Some b'" "ni_Addr b' = ni_Addr b"
    by auto
  have sync1: "in_sync holds (fm_router fm1)" "ok (r_store (fm_router fm1))"
    using eff1 by blast+
  note eff2 = meta_store.served_failure [OF assms(1,2) sync1(2) assms(4) sync1(1) b'(1) fm2_def]
  obtain p1 where p1: "parts (fm_router fm1) i = Some p1" "plain p1 = promoted p"
    using eff1 [THEN conjunct2, THEN conjunct2, THEN conjunct2, THEN conjunct2, THEN spec, of i] assms(9,10)
    by (cases "parts (fm_router fm1) i") auto
  obtain p2 where p2: "parts (fm_router fm2) i = Some p2" "plain p2 = promoted p1"
    using eff2 [THEN conjunct2, THEN conjunct2, THEN conjunct2, THEN conjunct2, THEN spec, of i] p1 promoted_simps [OF p1(2)] assms(11) b'(2)
    by (cases "parts (fm_router fm2) i") auto
  have "checkNodes st watch now fm = fm2"
    using assms(6) loop by (simp add: checkNodes_def fm0_def fm1_def fm2_def)
  moreover have "fm_sleeping fm2 = fm_sleeping fm + 2"
    using eff1 eff2 by simp
  ultimately show ?thesis
    using p2(1) promoted_simps [OF p1(2)] promoted_simps [OF p2(2)] assms(10,11) by (simp add: add.assoc)
qed

theorem dead_pair_flips_witness:
  "\<exists>p'. parts (fm_router (checkNodes (EtcdStore (mem_etcd None)) mem_watch 1000000001 (NewFailoverManager None failover_router))) 1 = Some p' \<and>
     pi_Primary p' = ''a'' \<and> pi_Epoch p' = 3"
  using dead_pair_flips [OF failover_example(1) well_kinded_serves, of "NewFailoverManager None failover_router" mem_watch
      "example_node ''a''" "example_node ''b''" 1000000001 1 "example_partition 1"]
  by (auto simp: NewFailoverManager_def failover_example example_partition_def example_node_def DefaultFailoverConfig_def
      DefaultHeartbeatTimeout_def millisecond_def)

text \<open>
  C38. Heartbeats do not keep a node alive: the store keeps them under a key of their own, and the
  failover manager reads the time of registration. However recent the heartbeat at \<open>beat\<close>, a node that
  registered longer ago than the timeout is found unhealthy and failed over at the first
  check after the manager starts.
\<close>

theorem heartbeats_do_not_count:
  assumes "meta_store st holds" and "st_UpdateNodeHeartbeat st beat nodeID s = (s', None)"
    and "\<forall>j n. ma_nodes (holds s) j = Some n \<longrightarrow> ni_ID n = j"
    and "ma_nodes (holds s) nodeID = Some node" and "ni_Role node = NodeRoleStorage"
    and "st_ListNodes st NodeRoleStorage s' = Inr nodes" and "r_store r = s'"
    and "now - ni_LastHeartbeat node > DefaultHeartbeatTimeout"
  shows "\<not> IsNodeHealthy (checkNodes st watch now (NewFailoverManager None r)) nodeID \<and>
     nodeID \<in> set (snd (check_loop DefaultFailoverConfig now nodes []))"
proof -
  have "holds s' = holds s"
    using meta_store.UpdateNodeHeartbeat_same [OF assms(1,2)] .
  then have nodes: "set nodes = {n \<in> ran (ma_nodes (holds s)). NodeRoleStorage = [] \<or> ni_Role n = NodeRoleStorage}"
    using meta_store.ListNodes_ok [OF assms(1,6)] by simp
  have late: "\<forall>n \<in> set nodes. ni_ID n = nodeID \<longrightarrow> now - ni_LastHeartbeat n > fc_HeartbeatTimeout DefaultFailoverConfig"
    using assms(3,4,8) by (auto simp: nodes ran_def DefaultFailoverConfig_def)
  have mem: "nodeID \<in> ni_ID ` set nodes"
    using assms(3-5) by (force simp: nodes ran_def)
  obtain nodeHealth failed where loop: "check_loop DefaultFailoverConfig now nodes [] = (nodeHealth, failed)"
    by force
  have "nodeID \<in> set failed \<and> (\<exists>h. map_of nodeHealth nodeID = Some h \<and> \<not> nh_isHealthy h)"
    using check_loop_late [OF late _ loop] mem by simp
  then show ?thesis
    using assms(6,7) loop
    by (auto simp: checkNodes_def NewFailoverManager_def IsNodeHealthy_def fold_handleNodeFailure_frame)
qed

theorem heartbeats_do_not_count_witness:
  "let s' = fst (st_UpdateNodeHeartbeat (EtcdStore (mem_etcd None)) 1000000000 ''a'' failover_store); r = NewRouter s'
   in \<not> IsNodeHealthy (checkNodes (EtcdStore (mem_etcd None)) mem_watch 1000000001 (NewFailoverManager None r)) ''a''"
proof -
  let ?st = "EtcdStore (mem_etcd None)"
  let ?s' = "fst (st_UpdateNodeHeartbeat ?st 1000000000 ''a'' failover_store)"
  have store: "r_store failover_router = failover_store"
    by (simp add: failover_router_def NewRouter_def)
  have beat: "st_UpdateNodeHeartbeat ?st 1000000000 ''a'' failover_store = (?s', None)"
    "\<exists>ns. st_ListNodes ?st NodeRoleStorage ?s' = Inr ns"
    by (simp_all add: EtcdStore_def es_UpdateNodeHeartbeat_def es_GetNode_def es_ListNodes_def mem_etcd_def failover_store_def)
  obtain ns where ns: "st_ListNodes ?st NodeRoleStorage ?s' = Inr ns"
    using beat(2) by blast
  show ?thesis
    using heartbeats_do_not_count [OF failover_example(1) beat(1) _ _ _ ns, of "example_node ''a''" "NewRouter ?s'" 1000000001 mem_watch]
    by (simp add: failover_example(5) [unfolded store] example_node_def NewRouter_def DefaultHeartbeatTimeout_def millisecond_def Let_def)
qed

end
