(* ===== verification/Shutdown.thy ===== *)
theory Shutdown
  imports Scheduler Failover
begin

text \<open>
  The controlled shutdown of a storage node, \<open>ShutdownNode\<close> of
  \<open>src/pkg/metadata/router.go\<close>.

  The router and the scheduler share one state, the scheduler's; \<open>scheduled\<close> tells whether a
  scheduler was given, and without one only the router in it is used. Other goroutines (the
  router's watch, the scheduler and its tasks) run between the operations: \<open>env\<close> is what
  they do after one operation, and \<open>wait\<close> what they do during \<open>WaitForCompletion\<close>.
  The counters are 32-bit.
\<close>

section \<open>Moving partitions\<close>

type_synonym i32 = "32 word"

definition new_task :: "u32 \<Rightarrow> string \<Rightarrow> string \<Rightarrow> MigrationPriority \<Rightarrow> bool \<Rightarrow> MigrationTask" where
  "new_task partitionID source target priority isPrimary =
     \<lparr>mt_PartitionID = partitionID, mt_Source = source, mt_Target = target, mt_Priority = priority, mt_IsPrimary = isPrimary,
      mt_State = MIGRATION_NONE, mt_BytesCopied = 0, mt_BytesTotal = 0, mt_ErrorMessage = NoMessage, mt_cancel = False\<rparr>"

text \<open>The address of a new task object.\<close>

definition fresh_ref :: "'s MigrationScheduler \<Rightarrow> task_ref" where
  "fresh_ref ms = Suc (fold max (ms_pendingTasks ms @ map snd (ms_activeTasks ms) @ ms_completedTasks ms @ map fst (ms_running ms)) 0)"

text \<open>A task for the scheduler, or the migration at once.\<close>

definition move_partition ::
    "('s, 'x) Store_scheme \<Rightarrow> bool \<Rightarrow> MigrationTask \<Rightarrow> 's MigrationScheduler \<Rightarrow> 's MigrationScheduler \<times> err option" where
  "move_partition st scheduled task ms =
     (if scheduled then
        let ref = fresh_ref ms in AddTask ref (ms\<lparr>ms_heap := (ms_heap ms)(ref := task)\<rparr>)
      else
        let (r, e) = CompleteMigration st (mt_PartitionID task) (mt_Target task) (mt_IsPrimary task) (ms_router ms)
        in (ms\<lparr>ms_router := r\<rparr>, e))"

text \<open>The counts after a move: a queued task counts only when it was refused.\<close>

definition count_move :: "bool \<Rightarrow> err option \<Rightarrow> i32 \<times> i32 \<Rightarrow> i32 \<times> i32" where
  "count_move scheduled e = (\<lambda>(migratedCount, failedCount).
     if e \<noteq> None then (migratedCount, failedCount + 1)
     else if scheduled then (migratedCount, failedCount)
     else (migratedCount + 1, failedCount))"

definition drain_primary ::
    "('s, 'x) Store_scheme \<Rightarrow> ('s MigrationScheduler \<Rightarrow> 's MigrationScheduler) \<Rightarrow> bool \<Rightarrow> string \<Rightarrow> ConsistentHash \<Rightarrow> u32 \<times> PartitionInfo \<Rightarrow>
     's MigrationScheduler \<times> i32 \<times> i32 \<Rightarrow> 's MigrationScheduler \<times> i32 \<times> i32" where
  "drain_primary st env scheduled addr newHashRing = (\<lambda>(partitionID, part) (ms, counts).
     let (newPrimary, newReplica) = GetNodes newHashRing partitionID in
     if pi_Replica part \<noteq> [] \<and> pi_Replica part \<noteq> addr then
       let (r, e) = PromoteReplica st partitionID (ms_router ms) in
       (env (ms\<lparr>ms_router := r\<rparr>), if e = None then (fst counts + 1, snd counts) else (fst counts, snd counts + 1))
     else
       let (ms, e) = move_partition st scheduled (new_task partitionID addr newPrimary PRIORITY_HIGH True) ms;
           ms = env ms;
           counts = count_move scheduled e counts
       in if pi_Replica part = addr \<and> newReplica \<noteq> []
          then (env (fst (move_partition st scheduled (new_task partitionID addr newReplica PRIORITY_NORMAL False) ms)), counts)
          else (ms, counts))"

definition drain_replica ::
    "('s, 'x) Store_scheme \<Rightarrow> ('s MigrationScheduler \<Rightarrow> 's MigrationScheduler) \<Rightarrow> bool \<Rightarrow> string \<Rightarrow> ConsistentHash \<Rightarrow> u32 \<times> PartitionInfo \<Rightarrow>
     's MigrationScheduler \<times> i32 \<times> i32 \<Rightarrow> 's MigrationScheduler \<times> i32 \<times> i32" where
  "drain_replica st env scheduled addr newHashRing = (\<lambda>(partitionID, part) (ms, counts).
     let newReplica = snd (GetNodes newHashRing partitionID) in
     if pi_Primary part = addr \<or> newReplica = [] then (ms, counts)
     else
       let (ms, e) = move_partition st scheduled (new_task partitionID addr newReplica PRIORITY_NORMAL False) ms
       in (env ms, count_move scheduled e counts))"

section \<open>The shutdown\<close>

definition node_status :: "('s, 'x) Store_scheme \<Rightarrow> NodeID \<Rightarrow> string \<Rightarrow> 's MigrationScheduler \<Rightarrow> 's MigrationScheduler \<times> err option" where
  "node_status st nodeID v ms =
     (let r = ms_router ms; (s', e) = st_UpdateNodeStatus st nodeID v (r_store r)
      in (ms\<lparr>ms_router := r\<lparr>r_store := s'\<rparr>\<rparr>, e))"

definition shutdown_targets :: "NodeID \<Rightarrow> NodeInfo list \<Rightarrow> NodeInfo list" where
  "shutdown_targets nodeID = filter (\<lambda>n. ni_ID n \<noteq> nodeID \<and> (ni_Status n = NodeStatusOnline \<or> ni_Status n = ''online''))"

text \<open>The result is the state, whether a rebalancing goroutine was started, the counts and the error.\<close>

definition ShutdownNode ::
    "('s, 'x) Store_scheme \<Rightarrow> ('s MigrationScheduler \<Rightarrow> 's MigrationScheduler) \<Rightarrow> ('s MigrationScheduler \<Rightarrow> 's MigrationScheduler) \<Rightarrow>
     bool \<Rightarrow> NodeID \<Rightarrow> bool \<Rightarrow> 's MigrationScheduler \<Rightarrow> ('s MigrationScheduler \<times> bool) \<times> (i32 \<times> i32) \<times> err option" where
  "ShutdownNode st env wait scheduled nodeID force ms =
     (case st_GetNode st nodeID (r_store (ms_router ms)) of
        Inl e \<Rightarrow> ((ms, False), (0, 0), Some e)
      | Inr None \<Rightarrow> ((ms, False), (0, 0), Some (ErrNodeNotFound nodeID))
      | Inr (Some node) \<Rightarrow>
     (case node_status st nodeID NodeStatusDraining ms of
        (ms, Some e) \<Rightarrow> ((ms, False), (0, 0), Some e)
      | (ms, None) \<Rightarrow>
          let table = rt_Partitions (r_routeTable (ms_router ms));
              primaryPartitions = filter (\<lambda>(i, part). pi_Primary part = ni_Addr node) table;
              replicaPartitions = filter (\<lambda>(i, part). pi_Replica part = ni_Addr node) table;
              totalPartitions = of_nat (length primaryPartitions + length replicaPartitions)
          in
          if force then
            (case node_status st nodeID NodeStatusRemoved ms of
               (ms, Some e) \<Rightarrow> ((ms, False), (0, totalPartitions), Some e)
             | (ms, None) \<Rightarrow> ((ms, True), (0, totalPartitions), None))
          else
          (case st_ListNodes st NodeRoleStorage (r_store (ms_router ms)) of
             Inl e \<Rightarrow> ((ms, False), (0, 0), Some e)
           | Inr onlineNodes \<Rightarrow>
               let targetNodes = shutdown_targets nodeID onlineNodes in
               if length targetNodes < MinReplicaNodes - 1
               then ((ms, False), (0, 0), Some (ErrNotEnoughNodes (MinReplicaNodes - 1) (length targetNodes)))
               else
                 let newHashRing = ring_of (map ni_Addr targetNodes);
                     (ms, counts) = fold (drain_primary st env scheduled (ni_Addr node) newHashRing) primaryPartitions (ms, 0, 0);
                     (ms, counts) = fold (drain_replica st env scheduled (ni_Addr node) newHashRing) replicaPartitions (ms, counts);
                     (ms, counts) =
                       (if scheduled then let ms = wait ms in (ms, of_int (ms_totalMigrated ms), of_int (ms_totalFailed ms))
                        else (ms, counts))
                 in case RemoveNode (ni_Addr node) (r_hashRing (ms_router ms)) of
                      Inl e \<Rightarrow> ((ms, False), counts, Some e)
                    | Inr hashRing \<Rightarrow>
                        let ms = ms\<lparr>ms_router := (ms_router ms)\<lparr>r_hashRing := hashRing\<rparr>\<rparr>
                        in ((fst (node_status st nodeID NodeStatusRemoved ms), False), counts, None))))"

text \<open>The rebalancing goroutine of a forced shutdown.\<close>

definition forced_rebalance :: "('s, 'x) Store_scheme \<Rightarrow> 's MigrationScheduler \<Rightarrow> 's MigrationScheduler" where
  "forced_rebalance st ms = ms\<lparr>ms_router := fst (RebalancePartitions st (ms_router ms))\<rparr>"

section \<open>A shutdown without a scheduler\<close>

text \<open>What becomes of a partition when the node at \<open>addr\<close> is drained.\<close>

definition moved :: "bool \<Rightarrow> string \<Rightarrow> PartitionInfo \<Rightarrow> PartitionInfo" where
  "moved isPrimary newNode p =
     (if isPrimary
      then (plain p)\<lparr>pi_Primary := newNode, pi_Replica := (if pi_Primary p \<noteq> newNode then pi_Primary p else pi_Replica p),
                     pi_Epoch := pi_Epoch p + 1, pi_Status := PartitionStatusNormal\<rparr>
      else (plain p)\<lparr>pi_Replica := newNode, pi_Status := PartitionStatusNormal\<rparr>)"

definition drained :: "ConsistentHash \<Rightarrow> string \<Rightarrow> u32 \<Rightarrow> PartitionInfo \<Rightarrow> PartitionInfo" where
  "drained ring addr i p =
     (let (newPrimary, newReplica) = GetNodes ring i in
      if pi_Primary p = addr then
        if pi_Replica p \<noteq> [] \<and> pi_Replica p \<noteq> addr then promoted p
        else if pi_Replica p = addr \<and> newReplica \<noteq> [] then moved False newReplica (moved True newPrimary p)
        else moved True newPrimary p
      else if pi_Replica p = addr \<and> newReplica \<noteq> [] then moved False newReplica p
      else plain p)"

lemma plain_moved [simp]: "plain (moved b n p) = moved b n p" "moved b n (plain p) = moved b n p"
  by (simp_all add: moved_def plain_def)

text \<open>The table of a router without the migration fields.\<close>

definition ptab :: "'s Router \<Rightarrow> u32 \<rightharpoonup> PartitionInfo" where
  "ptab r = (\<lambda>i. map_option plain (parts r i))"

lemma ptab_set_partition:
  assumes "plain p = p"
  shows "(\<lambda>j. map_option plain (map_of (rt_Partitions (set_partition i p (copy_table (r_routeTable r)))) j)) = (ptab r)(i \<mapsto> p)"
  using assms by (auto simp: ptab_def fun_eq_iff option.map_comp comp_def)

lemma ptab_SomeD: "ptab r i = Some p \<Longrightarrow> \<exists>q. parts r i = Some q \<and> p = plain q"
  by (auto simp: ptab_def)

lemma map_of_filter_value:
  assumes "distinct (map fst xs)"
  shows "map_of (filter (\<lambda>(k, v). P v) xs) i = (case map_of xs i of Some v \<Rightarrow> if P v then Some v else None | None \<Rightarrow> None)"
  using assms
proof (induction xs)
  case (Cons x xs)
  obtain k v where x: "x = (k, v)"
    by force
  have "map_of (filter (\<lambda>(k, v). P v) xs) k = None"
    using Cons.prems by (auto simp: x map_of_eq_None_iff)
  then show ?case
    using Cons by (simp add: x)
qed simp

lemma filter_True_all: "filter (\<lambda>x. True) xs = xs"
  by simp

lemma fold_filter_id: "(\<And>x. x \<in> set xs \<Longrightarrow> \<not> P x \<Longrightarrow> f x = id) \<Longrightarrow> fold f xs = fold f (filter P xs)"
  by (induction xs) auto

definition env_of :: "('s Router \<Rightarrow> 's Router) \<Rightarrow> 's MigrationScheduler \<Rightarrow> 's MigrationScheduler" where
  "env_of watch ms = ms\<lparr>ms_router := watch (ms_router ms)\<rparr>"

text \<open>The router of \<open>ms\<close> is in a good state with the table \<open>T\<close> and the ring \<open>h\<close>.\<close>

definition has_table :: "('s \<Rightarrow> meta_abs) \<Rightarrow> ('s \<Rightarrow> bool) \<Rightarrow> ConsistentHash \<Rightarrow> 's MigrationScheduler \<Rightarrow> (u32 \<rightharpoonup> PartitionInfo) \<Rightarrow> bool" where
  "has_table holds ok h ms T \<longleftrightarrow> in_sync holds (ms_router ms) \<and> r_hashRing (ms_router ms) = h \<and> ok (r_store (ms_router ms)) \<and> ptab (ms_router ms) = T"

text \<open>Steps that each change one entry, over distinct entries.\<close>

lemma fold_entries:
  assumes "\<And>i p ms T c. (i, p) \<in> set xs \<Longrightarrow> has_table holds ok h ms T \<Longrightarrow> T i = Some (plain p) \<Longrightarrow>
      \<exists>ms'. F (i, p) (ms, c) = (ms', fst c + of_bool (moves i p), snd c) \<and> has_table holds ok h ms' (T(i \<mapsto> g i p))"
    and "distinct (map fst xs)" and "\<forall>(i, p) \<in> set xs. T i = Some (plain p)" and "has_table holds ok h ms T"
  shows "\<exists>ms'. fold F xs (ms, c) = (ms', fst c + of_nat (length (filter (\<lambda>(i, p). moves i p) xs)), snd c) \<and>
    has_table holds ok h ms' (\<lambda>j. case map_of xs j of Some p \<Rightarrow> Some (g j p) | None \<Rightarrow> T j)"
  using assms
proof (induction xs arbitrary: ms T c)
  case Nil
  then show ?case
    by (cases c) simp
next
  case (Cons x xs)
  obtain i p where x: "x = (i, p)"
    by force
  have at: "(i, p) \<in> set (x # xs)" "T i = Some (plain p)"
    using Cons.prems(3) by (simp_all add: x)
  obtain ms1 where ms1: "F (i, p) (ms, c) = (ms1, fst c + of_bool (moves i p), snd c)" "has_table holds ok h ms1 (T(i \<mapsto> g i p))"
    using Cons.prems(1) [OF at(1) Cons.prems(4) at(2), of c] by blast
  have rest: "\<forall>(j, q) \<in> set xs. (T(i \<mapsto> g i p)) j = Some (plain q)"
  proof clarify
    fix j q
    assume jq: "(j, q) \<in> set xs"
    then have "j \<in> fst ` set xs" and jx: "(j, q) \<in> set (x # xs)"
      by (metis fst_conv image_eqI, simp)
    then have "j \<noteq> i"
      using Cons.prems(2) x by (metis distinct.simps(2) fst_conv list.simps(9) set_map)
    then show "(T(i \<mapsto> g i p)) j = Some (plain q)"
      using bspec [OF Cons.prems(3) jx] by simp
  qed
  have dist: "distinct (map fst xs)"
    using Cons.prems(2) by simp
  have step: "\<exists>ms'. F (j, q) (ms, c) = (ms', fst c + of_bool (moves j q), snd c) \<and> has_table holds ok h ms' (T(j \<mapsto> g j q))"
    if "(j, q) \<in> set xs" "has_table holds ok h ms T" "T j = Some (plain q)" for j q ms T c
    by (rule Cons.prems(1) [OF list.set_intros(2) [OF that(1)] that(2,3)])
  from Cons.IH [OF step dist rest ms1(2), of "(fst c + of_bool (moves i p), snd c)"]
  obtain ms' where ms': "fold F xs (ms1, fst c + of_bool (moves i p), snd c) =
      (ms', fst c + of_bool (moves i p) + of_nat (length (filter (\<lambda>(i, p). moves i p) xs)), snd c)"
    "has_table holds ok h ms' (\<lambda>j. case map_of xs j of Some p \<Rightarrow> Some (g j p) | None \<Rightarrow> (T(i \<mapsto> g i p)) j)"
    unfolding fst_conv snd_conv by blast
  have "map_of xs i = None"
    using Cons.prems(2) x by (simp add: map_of_eq_None_iff)
  then have "(\<lambda>j. case map_of xs j of Some p \<Rightarrow> Some (g j p) | None \<Rightarrow> (T(i \<mapsto> g i p)) j) =
      (\<lambda>j. case map_of (x # xs) j of Some p \<Rightarrow> Some (g j p) | None \<Rightarrow> T j)"
    by (auto simp: x fun_eq_iff split: option.splits)
  with ms'(2) have "has_table holds ok h ms' (\<lambda>j. case map_of (x # xs) j of Some p \<Rightarrow> Some (g j p) | None \<Rightarrow> T j)"
    by (simp only:)
  moreover have "fold F (x # xs) (ms, c) = (ms', fst c + of_nat (length (filter (\<lambda>(i, p). moves i p) (x # xs))), snd c)"
    using ms1(1) ms'(1) by (simp add: x add.assoc)
  ultimately show ?case
    by blast
qed

context meta_store
begin

lemma save_step:
  assumes "serves st ok" and "ok (r_store r)" and up: "keeps_up holds watch" and dist: "distinct (map fst (rt_Partitions t))"
    and sv: "save_table st t r = ((r1, t'), e)"
  shows "e = None \<and> in_sync holds (watch r1) \<and> ok (r_store (watch r1)) \<and> r_hashRing (watch r1) = r_hashRing r \<and>
    parts (watch r1) = map_of (rt_Partitions t)"
proof -
  have e: "e = None" "ok (r_store r1)"
    using assms(1,2) arg_cong [OF sv, of snd] arg_cong [OF sv, of "\<lambda>x. r_store (fst (fst x))"]
    by (simp_all add: serves_def save_table_def split: prod.splits) (metis fst_conv snd_conv)+
  with save_table_stored [OF sv] have "ma_table (holds (r_store r1)) = t\<lparr>rt_Version := rt_Version (ma_table (holds (r_store r))) + 1\<rparr>"
    by blast
  with up e dist save_table_stored [OF sv] show ?thesis
    by (simp add: keeps_up_def in_sync_def)
qed

lemma promote_step:
  assumes "serves st ok" and "ok (r_store r)" and up: "keeps_up holds watch" and sync: "in_sync holds r"
    and "ptab r i = Some (plain p)" and pr: "PromoteReplica st i r = (r1, e)"
  shows "e = None \<and> in_sync holds (watch r1) \<and> ok (r_store (watch r1)) \<and> r_hashRing (watch r1) = r_hashRing r \<and>
    ptab (watch r1) = (ptab r)(i \<mapsto> promoted p)"
proof -
  obtain q where q: "parts r i = Some q" "plain p = plain q"
    using ptab_SomeD [OF assms(5)] by blast
  define t where "t = set_partition i (promoted q) (copy_table (r_routeTable r))"
  have dist: "distinct (map fst (rt_Partitions t))"
    unfolding t_def by (intro distinct_set_partition sync [unfolded in_sync_def, THEN conjunct2])
  obtain t' where sv: "save_table st t r = ((r1, t'), e)"
    using pr q(1) by (auto simp: PromoteReplica_def Let_def t_def promoted_def split: prod.splits)
  note step = save_step [OF assms(1,2) up dist sv]
  have "ptab (watch r1) = (ptab r)(i \<mapsto> promoted q)"
    using step ptab_set_partition [of "promoted q" i r] by (simp add: ptab_def t_def)
  moreover have "promoted q = promoted p"
    using q(2) plain_promoted(3) by metis
  ultimately show ?thesis
    using step by simp
qed

lemma complete_step:
  assumes "serves st ok" and "ok (r_store r)" and up: "keeps_up holds watch" and sync: "in_sync holds r"
    and "ptab r i = Some (plain p)" and cm: "CompleteMigration st i node prim r = (r1, e)"
  shows "e = None \<and> in_sync holds (watch r1) \<and> ok (r_store (watch r1)) \<and> r_hashRing (watch r1) = r_hashRing r \<and>
    ptab (watch r1) = (ptab r)(i \<mapsto> moved prim node p)"
proof -
  obtain q where q: "parts r i = Some q" "plain p = plain q"
    using ptab_SomeD [OF assms(5)] by blast
  define r0 where "r0 = r\<lparr>r_store := fst (st_DeleteMigrationState st i (r_store r))\<rparr>"
  define t where "t = set_partition i (moved prim node q) (copy_table (r_routeTable r))"
  have dist: "distinct (map fst (rt_Partitions t))"
    unfolding t_def by (intro distinct_set_partition sync [unfolded in_sync_def, THEN conjunct2])
  have "(if prim then (plain q)\<lparr>pi_Primary := node, pi_Replica := if pi_Primary q \<noteq> node then pi_Primary q else pi_Replica (plain q), pi_Epoch := pi_Epoch q + 1\<rparr>
         else (plain q)\<lparr>pi_Replica := node\<rparr>)\<lparr>pi_Status := PartitionStatusNormal\<rparr> = moved prim node q"
    by (simp add: moved_def)
  then obtain t' where sv: "save_table st t r0 = ((r1, t'), e)"
    using cm q(1) by (auto simp: CompleteMigration_def Let_def t_def r0_def split: prod.splits)
  have "ok (r_store r0)"
    using assms(1,2) by (simp add: serves_def r0_def)
  note step = save_step [OF assms(1) this up dist sv]
  have "ptab (watch r1) = (ptab r)(i \<mapsto> moved prim node q)"
    using step ptab_set_partition [of "moved prim node q" i r] by (simp add: ptab_def t_def)
  moreover have "moved prim node q = moved prim node p"
    using q(2) plain_moved(2) by metis
  ultimately show ?thesis
    using step by (simp add: r0_def)
qed

lemma move_partition_step:
  assumes "serves st ok" and up: "keeps_up holds watch" and "has_table holds ok h ms T" and "T i = Some (plain p)"
    and mv: "move_partition st False (new_task i source node prio prim) ms = (ms1, e)"
  shows "e = None \<and> has_table holds ok h (env_of watch ms1) (T(i \<mapsto> moved prim node p))"
proof -
  obtain r1 where r1: "CompleteMigration st i node prim (ms_router ms) = (r1, e)" "ms1 = ms\<lparr>ms_router := r1\<rparr>"
    using mv by (auto simp: move_partition_def new_task_def split: prod.splits)
  have T: "in_sync holds (ms_router ms)" "ok (r_store (ms_router ms))" "ptab (ms_router ms) = T" "r_hashRing (ms_router ms) = h"
    using assms(3) by (auto simp: has_table_def)
  then show ?thesis
    using complete_step [OF assms(1) T(2) up T(1) _ r1(1), of p] assms(4) T(4) by (auto simp: has_table_def env_of_def r1(2))
qed

lemma drain_primary_step:
  assumes "serves st ok" and up: "keeps_up holds watch" and tab: "has_table holds ok h ms T" and at: "T i = Some (plain p)"
    and prim: "pi_Primary p = addr"
  shows "\<exists>ms'. drain_primary st (env_of watch) False addr ring (i, p) (ms, c) = (ms', fst c + 1, snd c) \<and>
    has_table holds ok h ms' (T(i \<mapsto> drained ring addr i p))"
proof -
  obtain np nr where ring: "GetNodes ring i = (np, nr)"
    by force
  show ?thesis
  proof (cases "pi_Replica p \<noteq> [] \<and> pi_Replica p \<noteq> addr")
    case True
    obtain r1 e where pr: "PromoteReplica st i (ms_router ms) = (r1, e)"
      by force
    have T: "in_sync holds (ms_router ms)" "ok (r_store (ms_router ms))" "ptab (ms_router ms) = T" "r_hashRing (ms_router ms) = h"
      using tab by (auto simp: has_table_def)
    show ?thesis
      using promote_step [OF assms(1) T(2) up T(1) _ pr, of p] at T(3,4) True prim ring
      by (auto simp: drain_primary_def drained_def has_table_def env_of_def pr)
  next
    case False
    obtain ms1 e where mv: "move_partition st False (new_task i addr np PRIORITY_HIGH True) ms = (ms1, e)"
      by force
    note step1 = move_partition_step [OF assms(1) up tab at mv]
    obtain ms2 e2 where mv2: "move_partition st False (new_task i addr nr PRIORITY_NORMAL False) (env_of watch ms1) = (ms2, e2)"
      by force
    have "(T(i \<mapsto> moved True np p)) i = Some (plain (moved True np p))"
      by simp
    note step2 = move_partition_step [OF assms(1) up step1 [THEN conjunct2] this mv2, unfolded fun_upd_upd]
    show ?thesis
      using step1 step2 False prim ring by (cases c) (auto simp: drain_primary_def drained_def mv mv2 count_move_def)
  qed
qed

lemma drain_replica_step:
  assumes "serves st ok" and up: "keeps_up holds watch" and tab: "has_table holds ok h ms T" and at: "T i = Some (plain p)"
    and repl: "pi_Replica p = addr" "pi_Primary p \<noteq> addr"
  shows "\<exists>ms'. drain_replica st (env_of watch) False addr ring (i, p) (ms, c) =
      (ms', fst c + of_bool (snd (GetNodes ring i) \<noteq> []), snd c) \<and> has_table holds ok h ms' (T(i \<mapsto> drained ring addr i p))"
proof (cases "snd (GetNodes ring i) = []")
  case True
  then have "T(i \<mapsto> drained ring addr i p) = T"
    using at repl by (auto simp: drained_def case_prod_beta fun_upd_idem)
  then show ?thesis
    using True tab by (cases c) (auto simp: drain_replica_def)
next
  case False
  obtain ms1 e where mv: "move_partition st False (new_task i addr (snd (GetNodes ring i)) PRIORITY_NORMAL False) ms = (ms1, e)"
    by force
  show ?thesis
    using move_partition_step [OF assms(1) up tab at mv] False repl
    by (cases c) (auto simp: drain_replica_def drained_def mv count_move_def case_prod_beta)
qed

lemma drain_all:
  assumes "serves st ok" and up: "keeps_up holds watch" and tab: "has_table holds ok h ms (\<lambda>i. map_option plain (map_of table i))"
    and dist: "distinct (map fst table)"
  shows "\<exists>ms1 ms2 c1. fold (drain_primary st (env_of watch) False addr ring) (filter (\<lambda>(i, p). pi_Primary p = addr) table) (ms, 0, 0) = (ms1, c1) \<and>
    fold (drain_replica st (env_of watch) False addr ring) (filter (\<lambda>(i, p). pi_Replica p = addr) table) (ms1, c1) =
      (ms2, of_nat (length (filter (\<lambda>(i, p). pi_Primary p = addr \<or> pi_Replica p = addr \<and> snd (GetNodes ring i) \<noteq> []) table)), 0) \<and>
    has_table holds ok h ms2 (\<lambda>i. map_option (drained ring addr i) (map_of table i))"
proof -
  define prims where "prims = filter (\<lambda>(i, p). pi_Primary p = addr) table"
  define repls where "repls = filter (\<lambda>(i, p). pi_Replica p = addr \<and> pi_Primary p \<noteq> addr) table"
  let ?T = "\<lambda>i. map_option plain (map_of table i)"
  let ?T1 = "\<lambda>j. case map_of prims j of Some p \<Rightarrow> Some (drained ring addr j p) | None \<Rightarrow> ?T j"
  have look: "map_of table i = Some p \<longleftrightarrow> (i, p) \<in> set table" for i p
    using map_of_eq_Some_iff [OF dist] .
  have d: "distinct (map fst prims)" "distinct (map fst repls)"
    using dist by (simp_all add: prims_def repls_def distinct_map_filter)
  have lp: "map_of prims i = (case map_of table i of Some p \<Rightarrow> if pi_Primary p = addr then Some p else None | None \<Rightarrow> None)" for i
    unfolding prims_def by (rule map_of_filter_value [OF dist])
  have lr: "map_of repls i = (case map_of table i of Some p \<Rightarrow> if pi_Replica p = addr \<and> pi_Primary p \<noteq> addr then Some p else None | None \<Rightarrow> None)" for i
    unfolding repls_def by (rule map_of_filter_value [OF dist])
  have s1: "\<exists>ms'. drain_primary st (env_of watch) False addr ring (i, p) (ms, c) = (ms', fst c + of_bool True, snd c) \<and>
      has_table holds ok h ms' (T(i \<mapsto> drained ring addr i p))"
    if "(i, p) \<in> set prims" "has_table holds ok h ms T" "T i = Some (plain p)" for i p ms T c
  proof -
    have "pi_Primary p = addr"
      using that(1) by (simp add: prims_def)
    from drain_primary_step [OF assms(1) up that(2,3) this] show ?thesis
      by (simp only: of_bool_eq)
  qed
  have "\<forall>(i, p) \<in> set prims. ?T i = Some (plain p)"
    by (auto simp: prims_def look [symmetric])
  from fold_entries [OF s1 d(1) this tab, of "(0, 0)"]
  obtain ms1 where ms1: "fold (drain_primary st (env_of watch) False addr ring) prims (ms, 0, 0) = (ms1, of_nat (length prims), 0)"
    "has_table holds ok h ms1 ?T1"
    unfolding fst_conv snd_conv case_prod_beta filter_True_all add_0 by blast
  have s2: "\<exists>ms'. drain_replica st (env_of watch) False addr ring (i, p) (ms, c) =
        (ms', fst c + of_bool (snd (GetNodes ring i) \<noteq> []), snd c) \<and> has_table holds ok h ms' (T(i \<mapsto> drained ring addr i p))"
    if "(i, p) \<in> set repls" "has_table holds ok h ms T" "T i = Some (plain p)" for i p ms T c
  proof -
    have "pi_Replica p = addr" "pi_Primary p \<noteq> addr"
      using that(1) by (simp_all add: repls_def)
    from drain_replica_step [OF assms(1) up that(2,3) this] show ?thesis .
  qed
  have "\<forall>(i, p) \<in> set repls. ?T1 i = Some (plain p)"
    by (auto simp: repls_def look [symmetric] lp)
  from fold_entries [OF s2 d(2) this ms1(2), of "(of_nat (length prims), 0)"]
  obtain ms2 where ms2: "fold (drain_replica st (env_of watch) False addr ring) repls (ms1, of_nat (length prims), 0) =
      (ms2, of_nat (length prims) + of_nat (length (filter (\<lambda>(i, p). snd (GetNodes ring i) \<noteq> []) repls)), 0)"
    "has_table holds ok h ms2 (\<lambda>j. case map_of repls j of Some p \<Rightarrow> Some (drained ring addr j p) | None \<Rightarrow> ?T1 j)"
    unfolding fst_conv snd_conv by blast
  have "(\<lambda>j. case map_of repls j of Some p \<Rightarrow> Some (drained ring addr j p) | None \<Rightarrow> ?T1 j) = (\<lambda>i. map_option (drained ring addr i) (map_of table i))"
    by (auto simp: fun_eq_iff lp lr drained_def case_prod_beta split: option.splits)
  with ms2(2) have tab2: "has_table holds ok h ms2 (\<lambda>i. map_option (drained ring addr i) (map_of table i))"
    by (simp only:)
  have "fold (drain_replica st (env_of watch) False addr ring) (filter (\<lambda>(i, p). pi_Replica p = addr) table) =
      fold (drain_replica st (env_of watch) False addr ring) (filter (\<lambda>(i, p). pi_Primary p \<noteq> addr) (filter (\<lambda>(i, p). pi_Replica p = addr) table))"
    by (rule fold_filter_id) (auto simp: drain_replica_def)
  also have "filter (\<lambda>(i, p). pi_Primary p \<noteq> addr) (filter (\<lambda>(i, p). pi_Replica p = addr) table) = repls"
    by (auto simp: repls_def intro!: filter_cong)
  finally have fr: "fold (drain_replica st (env_of watch) False addr ring) (filter (\<lambda>(i, p). pi_Replica p = addr) table) =
      fold (drain_replica st (env_of watch) False addr ring) repls" .
  have "length prims + length (filter (\<lambda>(i, p). snd (GetNodes ring i) \<noteq> []) repls) =
      length (filter (\<lambda>(i, p). pi_Primary p = addr \<or> pi_Replica p = addr \<and> snd (GetNodes ring i) \<noteq> []) table)"
    unfolding prims_def repls_def by (induction table) auto
  from this [symmetric] show ?thesis
    using ms1(1) ms2(1) tab2 by (simp add: fr prims_def [symmetric])
qed

lemma has_table_status:
  assumes "has_table holds ok h ms T" and "serves st ok" and "node_status st nodeID v ms = (ms', e)"
  shows "has_table holds ok h ms' T" and "r_routeTable (ms_router ms') = r_routeTable (ms_router ms)"
    and "e = None \<Longrightarrow> (\<exists>n. ma_nodes (holds (r_store (ms_router ms'))) nodeID = Some n \<and> ni_Status n = v)"
proof -
  obtain s' where s': "st_UpdateNodeStatus st nodeID v (r_store (ms_router ms)) = (s', e)"
    "ms' = ms\<lparr>ms_router := (ms_router ms)\<lparr>r_store := s'\<rparr>\<rparr>"
    using assms(3) by (auto simp: node_status_def Let_def split: prod.splits)
  have "ok s'"
    using assms(1,2) s'(1) by (metis fst_conv has_table_def serves_def)
  then show "has_table holds ok h ms' T" "r_routeTable (ms_router ms') = r_routeTable (ms_router ms)"
    using assms(1) addr_of_status(2) [of nodeID v "r_store (ms_router ms)"] by (auto simp: has_table_def in_sync_def s' ptab_def)
  show "\<exists>n. ma_nodes (holds (r_store (ms_router ms'))) nodeID = Some n \<and> ni_Status n = v" if "e = None"
    using UpdateNodeStatus_ok [OF s'(1) [unfolded that]] by (auto simp: s')
qed

lemma ShutdownNode_drains:
  assumes "serves st ok" and up: "keeps_up holds watch" and ok: "ok (r_store (ms_router ms))" and sync: "in_sync holds (ms_router ms)"
    and node: "ma_nodes (holds (r_store (ms_router ms))) nodeID = Some node"
    and drain: "node_status st nodeID NodeStatusDraining ms = (ms1, None)"
    and nodes: "st_ListNodes st NodeRoleStorage (r_store (ms_router ms1)) = Inr nodes"
    and ring: "ring = ring_of (map ni_Addr (shutdown_targets nodeID nodes))" and "shutdown_targets nodeID nodes \<noteq> []"
    and hr: "RemoveNode (ni_Addr node) (r_hashRing (ms_router ms)) = Inr hr"
    and moves: "moves = length (filter (\<lambda>(i, p). pi_Primary p = ni_Addr node \<or> pi_Replica p = ni_Addr node \<and> snd (GetNodes ring i) \<noteq> [])
      (rt_Partitions (r_routeTable (ms_router ms))))"
  shows "\<exists>ms'. ShutdownNode st (env_of watch) wait False nodeID False ms = ((ms', False), (of_nat moves, 0), None) \<and>
    has_table holds ok hr ms' (\<lambda>i. map_option (drained ring (ni_Addr node) i) (parts (ms_router ms) i))"
proof -
  have get: "st_GetNode st nodeID (r_store (ms_router ms)) = Inr (Some node)"
    using assms(1) ok node GetNode_ok [of nodeID "r_store (ms_router ms)"] unfolding serves_def by metis
  define table where "table = rt_Partitions (r_routeTable (ms_router ms))"
  have dist: "distinct (map fst table)"
    using sync unfolding in_sync_def table_def by blast
  have "has_table holds ok (r_hashRing (ms_router ms)) ms (\<lambda>i. map_option plain (map_of table i))"
    using sync ok by (simp add: has_table_def ptab_def table_def)
  note tab1 = has_table_status(1,2) [OF this assms(1) drain]
  obtain ms2 ms3 c2 where f: "fold (drain_primary st (env_of watch) False (ni_Addr node) ring) (filter (\<lambda>(i, p). pi_Primary p = ni_Addr node) table) (ms1, 0, 0) = (ms2, c2)"
    "fold (drain_replica st (env_of watch) False (ni_Addr node) ring) (filter (\<lambda>(i, p). pi_Replica p = ni_Addr node) table) (ms2, c2) = (ms3, of_nat moves, 0)"
    "has_table holds ok (r_hashRing (ms_router ms)) ms3 (\<lambda>i. map_option (drained ring (ni_Addr node) i) (map_of table i))"
    using drain_all [OF assms(1) up tab1(1) dist, of "ni_Addr node" ring] unfolding moves table_def by blast
  have few: "\<not> length (shutdown_targets nodeID nodes) < MinReplicaNodes - 1"
    using assms(9) by (cases "shutdown_targets nodeID nodes") (simp_all add: MinReplicaNodes_def)
  have table1: "rt_Partitions (r_routeTable (ms_router ms1)) = table"
    by (simp add: tab1(2) table_def)
  have hr3: "RemoveNode (ni_Addr node) (r_hashRing (ms_router ms3)) = Inr hr"
    using f(3) hr by (simp add: has_table_def)
  define ms4 where "ms4 = ms3\<lparr>ms_router := (ms_router ms3)\<lparr>r_hashRing := hr\<rparr>\<rparr>"
  obtain ms5 e5 where ms5: "node_status st nodeID NodeStatusRemoved ms4 = (ms5, e5)"
    by force
  have frame: "ptab (ms_router ms4) = ptab (ms_router ms3)" "in_sync holds (ms_router ms4) = in_sync holds (ms_router ms3)"
      "r_store (ms_router ms4) = r_store (ms_router ms3)" "r_hashRing (ms_router ms4) = hr"
    by (simp_all add: ms4_def ptab_def in_sync_def)
  then have tab4: "has_table holds ok hr ms4 (\<lambda>i. map_option (drained ring (ni_Addr node) i) (map_of table i))"
    using f(3) by (simp add: has_table_def)
  have "ShutdownNode st (env_of watch) wait False nodeID False ms = ((ms5, False), (of_nat moves, 0), None)"
    using get drain nodes few f(1,2) hr3 ms5 by (simp add: ShutdownNode_def Let_def table1 ring [symmetric] ms4_def [symmetric])
  then show ?thesis
    using has_table_status(1) [OF tab4 assms(1) ms5] by (auto simp: table_def)
qed

end

section \<open>Properties\<close>



end
