(* ===== verification/Sst.thy ===== *)
theory Sst
  imports Storage_Server
begin

text \<open>
  Moving a partition between storage nodes in SST files: the handlers \<open>ExportSST\<close> and
  \<open>IngestSST\<close> of \<open>src/pkg/storage/server.go\<close> and the migration manager of
  \<open>src/pkg/storage/migration.go\<close>.

  RocksDB's SST writer and the ingestion of files are further operations of the engine; the
  file is a sequence of bytes. Failures of the file system and of a stream's \<open>Send\<close>
  are functions of the number of the operation.
\<close>

section \<open>The engine's files\<close>

text \<open>\<open>sst_Put\<close> gets the entries written so far; \<open>sst_Finish\<close> gives the contents of the file.\<close>

record 'db sst_engine = "'db engine" +
  sst_Open :: "err option"
  sst_Put :: "(bytes \<times> bytes) list \<Rightarrow> bytes \<times> bytes \<Rightarrow> err option"
  sst_Finish :: "(bytes \<times> bytes) list \<Rightarrow> err + bytes"
  eng_IngestExternalFile :: "'db \<Rightarrow> bytes \<Rightarrow> 'db \<times> err option"

text \<open>
  What the code relies on: a file that was finished can be ingested, and then its entries
  override those of the database; a failed ingestion changes nothing.
\<close>

locale sst_files = rocks_engine eng view for eng :: "('db, 'x) sst_engine_scheme" and view :: "'db \<Rightarrow> contents" +
  assumes Ingest_ok: "sst_Finish eng es = Inr file \<Longrightarrow> distinct (map fst es) \<Longrightarrow> eng_IngestExternalFile eng db file = (db', None) \<Longrightarrow>
      view db' = view db ++ map_of es"
    and Ingest_failed: "eng_IngestExternalFile eng db file = (db', Some e) \<Longrightarrow> view db' = view db"
    and Finish_nonempty: "sst_Finish eng es \<noteq> Inr []"

record sst_io =
  io_Mkdir :: "err option"
  io_Open :: "err option"
  io_Read :: "nat \<Rightarrow> err option"
  io_Create :: "err option"
  io_Write :: "nat \<Rightarrow> err option"

fun write_sst :: "('db, 'x) sst_engine_scheme \<Rightarrow> (bytes \<times> bytes) list \<Rightarrow> (bytes \<times> bytes) list \<Rightarrow> err + (bytes \<times> bytes) list" where
  "write_sst eng [] acc = Inr acc"
| "write_sst eng (e # es) acc =
     (case sst_Put eng acc e of Some er \<Rightarrow> Inl er | None \<Rightarrow> write_sst eng es (acc @ [e]))"

text \<open>The entries of a partition, read from a snapshot until the end key or the end of the iterator.\<close>

definition in_range :: "bytes \<Rightarrow> bytes \<Rightarrow> bool" where
  "in_range endKey key \<longleftrightarrow> \<not> compareBytes key endKey \<ge> 0"

definition scan_partition :: "('db, 'x) engine_scheme \<Rightarrow> 'db \<Rightarrow> u32 \<Rightarrow> (bytes \<times> bytes) list \<times> err option" where
  "scan_partition eng db partitionID =
     (let (startKey, endKey) = GetPartitionRange partitionID; run = eng_Seek eng db startKey
      in (takeWhile (\<lambda>e. in_range endKey (fst e)) (fst run), iter_Err (in_range endKey) run))"

definition build_sst :: "('db, 'x) sst_engine_scheme \<Rightarrow> 'db \<Rightarrow> u32 \<Rightarrow> err + (bytes \<times> bytes) list" where
  "build_sst eng db partitionID =
     (case sst_Open eng of Some e \<Rightarrow> Inl e | None \<Rightarrow>
      let (es, iterErr) = scan_partition eng db partitionID in
      case write_sst eng es [] of Inl e \<Rightarrow> Inl e | Inr acc \<Rightarrow>
      case iterErr of Some e \<Rightarrow> Inl e | None \<Rightarrow> Inr acc)"

section \<open>Export\<close>

function chop :: "nat \<Rightarrow> bytes \<Rightarrow> bytes list" where
  "chop n xs = (if n = 0 \<or> xs = [] then [] else take n xs # chop n (drop n xs))"
  by pat_completeness auto

termination
  by (relation "measure (\<lambda>(n, xs). length xs)") auto

declare chop.simps [simp del]

definition sst_buffer :: nat where "sst_buffer = 64 * 1024"

definition data_chunk :: "string \<Rightarrow> bytes \<Rightarrow> SSTChunk" where
  "data_chunk filename d =
     \<lparr>sst_data = d, sst_filename = filename, sst_is_last = False, sst_partition_id = 0, sst_total_size = 0\<rparr>"

definition last_chunk :: "string \<Rightarrow> u32 \<Rightarrow> SSTChunk" where
  "last_chunk filename partitionID =
     \<lparr>sst_data = [], sst_filename = filename, sst_is_last = True, sst_partition_id = partitionID, sst_total_size = 0\<rparr>"

text \<open>The chunks that were sent and the error the handler ends with.\<close>

fun stream_file :: "sst_io \<Rightarrow> (nat \<Rightarrow> err option) \<Rightarrow> string \<Rightarrow> nat \<Rightarrow> bytes list \<Rightarrow> SSTChunk list \<times> err option" where
  "stream_file io send filename k [] =
     (case io_Read io k of Some e \<Rightarrow> ([], Some (ErrStatus Code_Internal e)) | None \<Rightarrow>
      case send k of Some e \<Rightarrow> ([], Some e) | None \<Rightarrow> ([last_chunk filename 0], None))"
| "stream_file io send filename k (d # ds) =
     (case io_Read io k of Some e \<Rightarrow> ([], Some (ErrStatus Code_Internal e)) | None \<Rightarrow>
      case send k of Some e \<Rightarrow> ([], Some e) | None \<Rightarrow>
      let (cs, e) = stream_file io send filename (Suc k) ds in (data_chunk filename d # cs, e))"

definition sst_name :: "u32 \<Rightarrow> nat \<Rightarrow> string" where
  "sst_name partitionID now = ''partition_'' @ digits (unat partitionID) @ ''_'' @ digits now @ ''.sst''"

definition empty_name :: "u32 \<Rightarrow> string" where
  "empty_name partitionID = ''partition_'' @ digits (unat partitionID) @ ''_empty.sst''"

definition ExportSST ::
    "('db, 'x) sst_engine_scheme \<Rightarrow> sst_io \<Rightarrow> (nat \<Rightarrow> err option) \<Rightarrow> nat \<Rightarrow> ExportSSTRequest \<Rightarrow> 'db Server \<Rightarrow>
     'db Server \<times> SSTChunk list \<times> err option" where
  "ExportSST eng io send now req s =
     (let partitionID = esq_partition_id req in
      if \<not> HasPartition (srv_pm s) partitionID
      then (s, [], Some (ErrStatus Code_NotFound (ErrPartitionNotFound partitionID)))
      else case SetPartitionStatus partitionID MIGRATING_OUT (srv_pm s) of
        (pm, Some e) \<Rightarrow> (s\<lparr>srv_pm := pm\<rparr>, [], Some (ErrStatus Code_Internal e))
      | (pm, None) \<Rightarrow>
          let s = s\<lparr>srv_pm := pm\<rparr> in
          case build_sst eng (srv_db s) partitionID of
            Inl e \<Rightarrow> (s, [], Some (ErrStatus Code_Internal e))
          | Inr es \<Rightarrow>
              if es = [] then
                (case send 0 of
                   Some e \<Rightarrow> (s, [], Some e)
                 | None \<Rightarrow> (s, [last_chunk (empty_name partitionID) partitionID], None))
              else case sst_Finish eng es of
                Inl e \<Rightarrow> (s, [], Some (ErrStatus Code_Internal e))
              | Inr file \<Rightarrow>
                  case io_Open io of
                    Some e \<Rightarrow> (s, [], Some (ErrStatus Code_Internal e))
                  | None \<Rightarrow> (s, stream_file io send (sst_name partitionID now) 0 (chop sst_buffer file)))"

section \<open>Ingest\<close>

text \<open>How the receiving loop ends: with an error, at an empty partition, or with the file, if any.\<close>

datatype ingest_end = Ing_fail err | Ing_empty u32 | Ing_done "bytes option"

text \<open>
  The stream is its chunks and the error that \<open>Recv\<close> reports after them. The file exists
  exactly when data was received.
\<close>

fun ingest_loop :: "sst_io \<Rightarrow> err \<Rightarrow> nat \<Rightarrow> u32 \<Rightarrow> bytes option \<Rightarrow> SSTChunk list \<Rightarrow> ingest_end" where
  "ingest_loop io fin k partitionID file [] = (if fin = ErrEOF then Ing_done file else Ing_fail fin)"
| "ingest_loop io fin k partitionID file (c # cs) =
     (let partitionID = (if partitionID = 0 \<and> sst_partition_id c \<noteq> 0 then sst_partition_id c else partitionID) in
      if sst_is_last c \<and> sst_data c = [] \<and> file = None then Ing_empty partitionID
      else if sst_data c = [] then (if sst_is_last c then Ing_done file else ingest_loop io fin (Suc k) partitionID file cs)
      else case (if file = None then io_Create io else None) of
        Some e \<Rightarrow> Ing_fail (ErrStatus Code_Internal e)
      | None \<Rightarrow>
          (case io_Write io k of
             Some e \<Rightarrow> Ing_fail (ErrStatus Code_Internal e)
           | None \<Rightarrow>
               let file = Some ((case file of None \<Rightarrow> [] | Some f \<Rightarrow> f) @ sst_data c)
               in if sst_is_last c then Ing_done file else ingest_loop io fin (Suc k) partitionID file cs))"

definition IngestSST ::
    "('db, 'x) sst_engine_scheme \<Rightarrow> sst_io \<Rightarrow> SSTChunk list \<times> err \<Rightarrow> 'db Server \<Rightarrow> 'db Server \<times> (err + IngestSSTResponse)" where
  "IngestSST eng io stream s =
     (case ingest_loop io (snd stream) 0 0 None (fst stream) of
        Ing_fail e \<Rightarrow> (s, Inl e)
      | Ing_empty partitionID \<Rightarrow>
          (if partitionID \<noteq> 0 \<and> \<not> HasPartition (srv_pm s) partitionID
           then s\<lparr>srv_pm := fst (AddPartition partitionID False (srv_pm s))\<rparr> else s,
           Inr \<lparr>isr_success = True, isr_keys_ingested = 0\<rparr>)
      | Ing_done None \<Rightarrow> (s, Inr \<lparr>isr_success = True, isr_keys_ingested = 0\<rparr>)
      | Ing_done (Some file) \<Rightarrow>
          (case eng_IngestExternalFile eng (srv_db s) file of
             (db, Some e) \<Rightarrow> (set_db db s, Inl (ErrStatus Code_Internal e))
           | (db, None) \<Rightarrow> (set_db db s, Inr \<lparr>isr_success = True, isr_keys_ingested = 0\<rparr>)))"

section \<open>The migration manager, \<open>src/pkg/storage/migration.go\<close>\<close>

text \<open>The contents of the exported file and the number of its keys.\<close>

definition ExportPartition ::
    "('db, 'x) sst_engine_scheme \<Rightarrow> sst_io \<Rightarrow> u32 \<Rightarrow> 'db Server \<Rightarrow> err + bytes \<times> int" where
  "ExportPartition eng io partitionID s =
     (if \<not> HasPartition (srv_pm s) partitionID then Inl (ErrPartitionNotFound partitionID)
      else case io_Mkdir io of Some e \<Rightarrow> Inl e | None \<Rightarrow>
      case build_sst eng (srv_db s) partitionID of Inl e \<Rightarrow> Inl e | Inr es \<Rightarrow>
      case sst_Finish eng es of Inl e \<Rightarrow> Inl e | Inr file \<Rightarrow> Inr (file, int (length es)))"

definition mm_IngestSST :: "('db, 'x) sst_engine_scheme \<Rightarrow> bytes \<Rightarrow> 'db Server \<Rightarrow> 'db Server \<times> err option" where
  "mm_IngestSST eng file s =
     (let (db, e) = eng_IngestExternalFile eng (srv_db s) file in (set_db db s, e))"

text \<open>
  The storage nodes as \<open>MigratePartition\<close> sees them: dialling, the stream of an export (its
  chunks and the error \<open>Recv\<close> ends with), and the sending and closing of an ingest stream.
\<close>

record 'n sst_net =
  sx_Dial :: "string \<Rightarrow> 'n \<Rightarrow> err option"
  sx_ExportSST :: "string \<Rightarrow> ExportSSTRequest \<Rightarrow> 'n \<Rightarrow> 'n \<times> (err + SSTChunk list \<times> err)"
  sx_IngestSST :: "string \<Rightarrow> 'n \<Rightarrow> err option"
  sx_Send :: "string \<Rightarrow> nat \<Rightarrow> 'n \<Rightarrow> err option"
  sx_CloseAndRecv :: "string \<Rightarrow> SSTChunk list \<Rightarrow> 'n \<Rightarrow> 'n \<times> (err + IngestSSTResponse)"

fun forward_chunks :: "(nat \<Rightarrow> err option) \<Rightarrow> err \<Rightarrow> nat \<Rightarrow> SSTChunk list \<Rightarrow> SSTChunk list \<Rightarrow> err + SSTChunk list" where
  "forward_chunks send fin k sent [] = (if fin = ErrEOF then Inr sent else Inl fin)"
| "forward_chunks send fin k sent (c # cs) =
     (case send k of Some e \<Rightarrow> Inl e | None \<Rightarrow>
      if sst_is_last c then Inr (sent @ [c]) else forward_chunks send fin (Suc k) (sent @ [c]) cs)"

definition MigratePartition :: "('n, 'x) sst_net_scheme \<Rightarrow> u32 \<Rightarrow> string \<Rightarrow> string \<Rightarrow> 'n \<Rightarrow> 'n \<times> err option" where
  "MigratePartition net partitionID sourceAddr targetAddr n =
     (case sx_Dial net sourceAddr n of Some e \<Rightarrow> (n, Some e) | None \<Rightarrow>
      case sx_Dial net targetAddr n of Some e \<Rightarrow> (n, Some e) | None \<Rightarrow>
      case sx_ExportSST net sourceAddr \<lparr>esq_partition_id = partitionID, esq_bandwidth_limit = 0\<rparr> n of
        (n, Inl e) \<Rightarrow> (n, Some e)
      | (n, Inr (cs, fin)) \<Rightarrow>
          (case sx_IngestSST net targetAddr n of Some e \<Rightarrow> (n, Some e) | None \<Rightarrow>
           case forward_chunks (\<lambda>k. sx_Send net targetAddr k n) fin 0 [] cs of
             Inl e \<Rightarrow> (n, Some e)
           | Inr sent \<Rightarrow>
               (case sx_CloseAndRecv net targetAddr sent n of
                  (n, Inl e) \<Rightarrow> (n, Some e)
                | (n, Inr resp) \<Rightarrow> (n, if isr_success resp then None else Some (ErrText ''ingest failed'')))))"

text \<open>
  \<open>DeletePartitionData\<close> repeats, with a fresh iterator, until a round finds no key; the
  iterator's error is not read. Compaction does not change the contents.
\<close>

definition delete_batch_size :: nat where "delete_batch_size = 10000"

definition delete_batch :: "('db, 'x) engine_scheme \<Rightarrow> bytes \<Rightarrow> bytes \<Rightarrow> 'db \<Rightarrow> bytes list" where
  "delete_batch eng startKey endKey db =
     take delete_batch_size (map fst (takeWhile (\<lambda>e. in_range endKey (fst e)) (fst (eng_Seek eng db startKey))))"

partial_function (option) delete_rounds ::
    "('db, 'x) engine_scheme \<Rightarrow> bytes \<Rightarrow> bytes \<Rightarrow> 'db \<Rightarrow> int \<Rightarrow> ('db \<times> int \<times> err option) option" where
  "delete_rounds eng startKey endKey db keyCount =
     (let batch = delete_batch eng startKey endKey db in
      if batch = [] then Some (db, keyCount, None)
      else case eng_Write eng db (map BatchDelete_op batch) of
        (db, Some e) \<Rightarrow> Some (db, keyCount, Some e)
      | (db, None) \<Rightarrow> delete_rounds eng startKey endKey db (keyCount + int (length batch)))"

declare delete_rounds.simps [code]

definition DeletePartitionData :: "('db, 'x) engine_scheme \<Rightarrow> u32 \<Rightarrow> 'db Server \<Rightarrow> ('db Server \<times> err option) option" where
  "DeletePartitionData eng partitionID s =
     (if \<not> HasPartition (srv_pm s) partitionID then Some (s, Some (ErrPartitionNotFound partitionID))
      else let (startKey, endKey) = GetPartitionRange partitionID in
      map_option (\<lambda>(db, keyCount, e). (set_db db s, e)) (delete_rounds eng startKey endKey (srv_db s) 0))"

text \<open>The number of keys and their size; here too the iterator's error is not read.\<close>

definition GetPartitionSize :: "('db, 'x) engine_scheme \<Rightarrow> u32 \<Rightarrow> 'db Server \<Rightarrow> int \<times> int" where
  "GetPartitionSize eng partitionID s =
     (let es = fst (scan_partition eng (srv_db s) partitionID)
      in (int (length es), \<Sum>(k, v) \<leftarrow> es. int (length k + length v)))"

section \<open>The file in the stream\<close>

lemma chunk_simps [simp]:
  "sst_data (data_chunk f d) = d" "sst_is_last (data_chunk f d) = False" "sst_partition_id (data_chunk f d) = 0"
  "sst_data (last_chunk f i) = []" "sst_is_last (last_chunk f i)" "sst_partition_id (last_chunk f i) = i"
  by (simp_all add: data_chunk_def last_chunk_def)

lemma concat_chop [simp]: "0 < n \<Longrightarrow> concat (chop n xs) = xs"
  by (induction n xs rule: chop.induct) (subst chop.simps, auto)

lemma chop_nonempty: "[] \<notin> set (chop n xs)"
  by (induction n xs rule: chop.induct) (subst chop.simps, auto)

lemma write_sst_all: "write_sst eng es acc = Inr r \<Longrightarrow> r = acc @ es"
  by (induction es arbitrary: acc) (fastforce split: option.splits)+

lemma stream_file_ok:
  "stream_file io send filename k ds = (cs, None) \<Longrightarrow> cs = map (data_chunk filename) ds @ [last_chunk filename 0]"
  by (induction ds arbitrary: k cs) (auto simp: Let_def split: option.splits prod.splits)

lemma ingest_loop_file:
  assumes "[] \<notin> set ds" and "ds \<noteq> [] \<or> buf \<noteq> None"
  shows "(\<exists>e. ingest_loop io fin k 0 buf (map (data_chunk f) ds @ [last_chunk f 0]) = Ing_fail e) \<or>
    ingest_loop io fin k 0 buf (map (data_chunk f) ds @ [last_chunk f 0]) =
      Ing_done (Some ((case buf of None \<Rightarrow> [] | Some x \<Rightarrow> x) @ concat ds))"
  using assms
proof (induction ds arbitrary: k buf)
  case Nil
  then show ?case
    by auto
next
  case (Cons d ds)
  let ?buf = "Some ((case buf of None \<Rightarrow> [] | Some x \<Rightarrow> x) @ d)"
  have "(\<exists>e. ingest_loop io fin (Suc k) 0 ?buf (map (data_chunk f) ds @ [last_chunk f 0]) = Ing_fail e) \<or>
    ingest_loop io fin (Suc k) 0 ?buf (map (data_chunk f) ds @ [last_chunk f 0]) =
      Ing_done (Some ((case ?buf of None \<Rightarrow> [] | Some x \<Rightarrow> x) @ concat ds))"
    using Cons.prems by (intro Cons.IH) auto
  then show ?case
    using Cons.prems by (auto simp: Let_def split: option.splits)
qed

text \<open>A handler that returns no error has sent one last chunk, at the end; otherwise it sent none.\<close>

definition export_shape :: "SSTChunk list \<Rightarrow> err option \<Rightarrow> bool" where
  "export_shape cs e \<longleftrightarrow>
     (if e = None then cs \<noteq> [] \<and> sst_is_last (last cs) \<and> (\<forall>c \<in> set (butlast cs). \<not> sst_is_last c)
      else \<forall>c \<in> set cs. \<not> sst_is_last c)"

lemma stream_file_shape: "stream_file io send f k ds = (cs, e) \<Longrightarrow> export_shape cs e"
proof (induction ds arbitrary: k cs e)
  case Nil
  then show ?case
    by (cases "io_Read io k"; cases "send k") (auto simp: export_shape_def intro: sym)
next
  case (Cons d ds)
  obtain cs1 e1 where rest: "stream_file io send f (Suc k) ds = (cs1, e1)"
    by force
  have "export_shape (data_chunk f d # cs1) e1"
    using Cons.IH [OF rest] by (auto simp: export_shape_def)
  moreover have "export_shape [] (Some x)" for x
    by (simp add: export_shape_def)
  ultimately show ?case
    using Cons.prems rest by (cases "io_Read io k"; cases "send k") (simp_all, metis+)
qed

lemma ExportSST_shape: "ExportSST eng io send now req s = (s', cs, e) \<Longrightarrow> export_shape cs e"
  by (auto simp: ExportSST_def Let_def export_shape_def [of "[]"] export_shape_def [of "[x]" for x]
      dest: stream_file_shape sym [of "Some _"] split: if_splits option.splits sum.splits prod.splits)

lemma forward_cases:
  "forward_chunks send fin k sent cs = Inr r \<Longrightarrow>
   (\<exists>xs c ys. cs = xs @ c # ys \<and> r = sent @ xs @ [c] \<and> sst_is_last c) \<or> fin = ErrEOF \<and> r = sent @ cs"
proof (induction cs arbitrary: k sent)
  case (Cons c cs)
  show ?case
  proof (cases "sst_is_last c")
    case True
    then show ?thesis
      using Cons.prems by (intro disjI1 exI [of _ "[]"]) (auto split: option.splits)
  next
    case False
    then have "forward_chunks send fin (Suc k) (sent @ [c]) cs = Inr r"
      using Cons.prems by (auto split: option.splits)
    from Cons.IH [OF this] show ?thesis
      by (metis append_Cons append_Nil append_assoc)
  qed
qed (auto split: if_splits)

lemma forward_complete:
  assumes fwd: "forward_chunks send fin k [] cs = Inr r" and pre: "prefix cs cs0" and fin: "fin = ErrEOF \<longrightarrow> cs = cs0 \<and> e = None"
    and shape: "export_shape cs0 e"
  shows "e = None \<and> r = cs0"
  using forward_cases [OF fwd]
proof (elim disjE exE conjE)
  fix xs c ys
  assume c: "cs = xs @ c # ys" "r = [] @ xs @ [c]" "sst_is_last c"
  obtain zs where cs0: "cs0 = xs @ c # zs"
    using pre c(1) by (auto simp: prefix_def)
  then have e: "e = None"
    using shape c(3) by (auto simp: export_shape_def split: if_splits)
  have "zs = []"
  proof (rule ccontr)
    assume "zs \<noteq> []"
    then have "c \<in> set (butlast cs0)"
      by (simp add: cs0 butlast_append)
    then show False
      using shape e c(3) by (simp add: export_shape_def)
  qed
  then show ?thesis
    using e c cs0 by simp
qed (use fin in simp)

section \<open>A partition's entries\<close>

context sst_files
begin

lemma scan_partition_entries:
  assumes "i \<noteq> -1" and keys: "\<forall>k \<in> dom (view db). 6 \<le> length k" and ok: "scan_partition eng db i = (es, None)"
  shows "set es = {(k, v). view db k = Some v \<and> (\<exists>x. k = MakePartitionKey i x)}" and "distinct (map fst es)"
proof -
  obtain startKey endKey where range: "GetPartitionRange i = (startKey, endKey)"
    by force
  let ?all = "entries_from (view db) startKey"
  have es: "es = takeWhile (\<lambda>e. in_range endKey (fst e)) (fst (eng_Seek eng db startKey))"
    and "iter_Err (in_range endKey) (eng_Seek eng db startKey) = None"
    using ok by (simp_all add: scan_partition_def range Let_def)
  then have "es = takeWhile (\<lambda>e. in_range endKey (fst e)) ?all"
    by (simp add: scan_ok)
  also have "\<dots> = filter (\<lambda>e. in_range endKey (fst e)) ?all"
    by (rule entries_from_takeWhile) (auto simp: in_range_def compareBytes_ge not_le)
  finally have es: "es = filter (\<lambda>e. in_range endKey (fst e)) ?all" .
  show "distinct (map fst es)"
    unfolding es by (rule distinct_map_filter) (rule distinct_entries_from)
  have "startKey \<le> k \<and> in_range endKey k \<longleftrightarrow> (\<exists>x. k = MakePartitionKey i x)" if "view db k = Some v" for k v
    using partition_range_iff [OF range assms(1), of k] keys that by (auto simp: in_range_def compareBytes_ge not_le)
  then have "(k, v) \<in> set es \<longleftrightarrow> view db k = Some v \<and> (\<exists>x. k = MakePartitionKey i x)" for k v
    unfolding es by (cases "view db k = Some v") (auto simp: set_entries_from finite_view)
  then show "set es = {(k, v). view db k = Some v \<and> (\<exists>x. k = MakePartitionKey i x)}"
    by auto
qed

lemma partition_entries_add:
  assumes "set es = {(k, v). m k = Some v \<and> (\<exists>x. k = MakePartitionKey i x)}" and "distinct (map fst es)"
  shows "partition_view (m' ++ map_of es) = (partition_view m')(i := partition_view m' i ++ partition_view m i)"
proof -
  have "map_of es (MakePartitionKey j x) = (if j = i then m (MakePartitionKey i x) else None)" for j x
  proof -
    have "map_of es (MakePartitionKey j x) = Some v \<longleftrightarrow> j = i \<and> m (MakePartitionKey i x) = Some v" for v
      using assms by auto
    then show ?thesis
      by (metis not_Some_eq)
  qed
  then show ?thesis
    by (auto simp: partition_view_def fun_eq_iff map_add_def split: option.splits)
qed

end

section \<open>The nodes as services\<close>

text \<open>
  What a migration relies on: the stream of an export carries what the handler of the node
  sends, in order and possibly cut off with an error, and ends with \<open>io.EOF\<close> only when the
  handler returned no error; an answer to an ingest stream is the handler's.
\<close>

locale sst_service = sst_files eng view for eng :: "('db, 'x) sst_engine_scheme" and view :: "'db \<Rightarrow> contents" +
  fixes net :: "('n, 'y) sst_net_scheme" and servers :: "'n \<Rightarrow> string \<Rightarrow> 'db Server"
  assumes Export_stream: "sx_ExportSST net a req n = (n', Inr (cs, fin)) \<Longrightarrow>
      \<exists>io send now s' cs0 e. ExportSST eng io send now req (servers n a) = (s', cs0, e) \<and> servers n' = (servers n)(a := s') \<and>
        prefix cs cs0 \<and> (fin = ErrEOF \<longrightarrow> cs = cs0 \<and> e = None)"
    and Ingest_answer: "sx_CloseAndRecv net a cs n = (n', Inr resp) \<Longrightarrow>
      \<exists>io s'. IngestSST eng io (cs, ErrEOF) (servers n a) = (s', Inr resp) \<and> servers n' = (servers n)(a := s')"
begin

text \<open>What a complete stream is, and what the ingesting handler makes of it.\<close>

lemma ExportSST_ok:
  assumes "ExportSST eng io send now req s = (s', cs, None)"
  shows "HasPartition (srv_pm s) (esq_partition_id req) \<and> s' = s\<lparr>srv_pm := fst (SetPartitionStatus (esq_partition_id req) MIGRATING_OUT (srv_pm s))\<rparr> \<and>
    (\<exists>es. scan_partition eng (srv_db s) (esq_partition_id req) = (es, None) \<and>
      (es = [] \<and> cs = [last_chunk (empty_name (esq_partition_id req)) (esq_partition_id req)] \<or>
       es \<noteq> [] \<and> (\<exists>file f. sst_Finish eng es = Inr file \<and> cs = map (data_chunk f) (chop sst_buffer file) @ [last_chunk f 0])))"
proof -
  let ?i = "esq_partition_id req"
  obtain pm e where set: "SetPartitionStatus ?i MIGRATING_OUT (srv_pm s) = (pm, e)"
    by force
  then have db: "pm_db pm = pm_db (srv_pm s)"
    by (auto simp: SetPartitionStatus_def Let_def split: option.splits if_splits)
  obtain es r where scan: "scan_partition eng (srv_db s) ?i = (es, r)"
    by force
  have "build_sst eng (srv_db s) ?i = Inr es' \<Longrightarrow> es' = es \<and> r = None" for es'
    using write_sst_all [of eng es "[]"] scan by (auto simp: build_sst_def split: option.splits sum.splits)
  then show ?thesis
    using assms set db scan
    by (auto simp: ExportSST_def Let_def dest: stream_file_ok split: if_splits option.splits sum.splits)
qed

lemma IngestSST_file:
  assumes "sst_Finish eng es = Inr file" and "distinct (map fst es)"
    and "IngestSST eng io (map (data_chunk f) (chop sst_buffer file) @ [last_chunk f 0], fin) s = (s', Inr resp)"
  shows "view (srv_db s') = view (srv_db s) ++ map_of es \<and> pm_partitions (srv_pm s') = pm_partitions (srv_pm s)"
proof -
  have "concat (chop sst_buffer file) \<noteq> []"
    using Finish_nonempty [of es] assms(1) by (simp add: sst_buffer_def)
  then have "chop sst_buffer file \<noteq> []"
    by auto
  then have "ingest_loop io fin 0 0 None (map (data_chunk f) (chop sst_buffer file) @ [last_chunk f 0]) = Ing_done (Some file)"
    using ingest_loop_file [OF chop_nonempty, of sst_buffer "file" None io fin 0 f] assms(3)
    by (auto simp: IngestSST_def sst_buffer_def)
  then show ?thesis
    using assms by (auto simp: IngestSST_def set_db_def dest: Ingest_ok split: prod.splits option.splits)
qed

lemma IngestSST_empty:
  assumes "IngestSST eng io ([last_chunk f i], fin) s = (s', Inr resp)"
  shows "srv_db s' = srv_db s \<and> (HasPartition (srv_pm s') j \<longleftrightarrow> HasPartition (srv_pm s) j \<or> j = i \<and> i \<noteq> 0)"
  using assms by (auto simp: IngestSST_def HasPartition_def AddPartition_def AddPartitionWithEpoch_def Let_def update_conv' split: if_splits option.splits)

lemma MigratePartition_steps:
  assumes "MigratePartition net i src tgt n = (n', None)"
  shows "\<exists>io send now s1 cs io' s2 resp.
    ExportSST eng io send now \<lparr>esq_partition_id = i, esq_bandwidth_limit = 0\<rparr> (servers n src) = (s1, cs, None) \<and>
    IngestSST eng io' (cs, ErrEOF) (((servers n)(src := s1)) tgt) = (s2, Inr resp) \<and> servers n' = (servers n)(src := s1, tgt := s2)"
proof -
  obtain n1 cs fin sent resp where steps:
    "sx_ExportSST net src \<lparr>esq_partition_id = i, esq_bandwidth_limit = 0\<rparr> n = (n1, Inr (cs, fin))"
    "forward_chunks (\<lambda>k. sx_Send net tgt k n1) fin 0 [] cs = Inr sent" "sx_CloseAndRecv net tgt sent n1 = (n', Inr resp)"
    using assms by (auto simp: MigratePartition_def split: option.splits prod.splits sum.splits)
  from Export_stream [OF steps(1)] obtain io send now s1 cs0 e where ex:
    "ExportSST eng io send now \<lparr>esq_partition_id = i, esq_bandwidth_limit = 0\<rparr> (servers n src) = (s1, cs0, e)"
    "servers n1 = (servers n)(src := s1)" "prefix cs cs0" "fin = ErrEOF \<longrightarrow> cs = cs0 \<and> e = None"
    by blast
  have "e = None \<and> sent = cs0"
    by (rule forward_complete [OF steps(2) ex(3,4) ExportSST_shape [OF ex(1)]])
  moreover obtain io' s2 where "IngestSST eng io' (sent, ErrEOF) (servers n1 tgt) = (s2, Inr resp)" "servers n' = (servers n1)(tgt := s2)"
    using Ingest_answer [OF steps(3)] by blast
  ultimately show ?thesis
    using ex(1,2) by metis
qed

lemma MigratePartition_effect:
  assumes mig: "MigratePartition net i src tgt n = (n', None)" and "src \<noteq> tgt" and "i \<noteq> -1"
    and keys: "\<forall>k \<in> dom (view (srv_db (servers n src))). 6 \<le> length k"
  shows "\<exists>pm. servers n' src = (servers n src)\<lparr>srv_pm := pm\<rparr> \<and> SetPartitionStatus i MIGRATING_OUT (srv_pm (servers n src)) = (pm, None) \<and>
    partition_view (view (srv_db (servers n' tgt))) =
      (partition_view (view (srv_db (servers n tgt))))(i := partition_view (view (srv_db (servers n tgt))) i ++ partition_view (view (srv_db (servers n src))) i) \<and>
    (\<forall>j. HasPartition (srv_pm (servers n' tgt)) j \<longleftrightarrow> HasPartition (srv_pm (servers n tgt)) j \<or>
       j = i \<and> i \<noteq> 0 \<and> partition_view (view (srv_db (servers n src))) i = Map.empty)"
proof -
  obtain io send now s1 cs io' s2 resp where steps:
    "ExportSST eng io send now \<lparr>esq_partition_id = i, esq_bandwidth_limit = 0\<rparr> (servers n src) = (s1, cs, None)"
    "IngestSST eng io' (cs, ErrEOF) (servers n tgt) = (s2, Inr resp)" "servers n' = (servers n)(src := s1, tgt := s2)"
    using MigratePartition_steps [OF mig] assms(2) by fastforce
  let ?m = "view (srv_db (servers n src))"
  from ExportSST_ok [OF steps(1), unfolded ExportSSTRequest.select_convs] obtain es where ex: "HasPartition (srv_pm (servers n src)) i"
    "s1 = (servers n src)\<lparr>srv_pm := fst (SetPartitionStatus i MIGRATING_OUT (srv_pm (servers n src)))\<rparr>"
    and scan: "scan_partition eng (srv_db (servers n src)) i = (es, None)"
    and cs: "es = [] \<and> cs = [last_chunk (empty_name i) i] \<or>
       es \<noteq> [] \<and> (\<exists>file f. sst_Finish eng es = Inr file \<and> cs = map (data_chunk f) (chop sst_buffer file) @ [last_chunk f 0])"
    by blast
  note es = scan_partition_entries [OF assms(3) keys scan]
  have empty: "partition_view ?m i = Map.empty \<longleftrightarrow> es = []"
    unfolding set_empty [of es, symmetric] es(1) partition_view_def fun_eq_iff by auto
  have "partition_view (view (srv_db s2)) = (partition_view (view (srv_db (servers n tgt))))
        (i := partition_view (view (srv_db (servers n tgt))) i ++ partition_view ?m i) \<and>
      (HasPartition (srv_pm s2) j \<longleftrightarrow> HasPartition (srv_pm (servers n tgt)) j \<or> j = i \<and> i \<noteq> 0 \<and> es = [])" for j
    using cs
  proof (elim disjE conjE exE)
    assume e: "es = []" "cs = [last_chunk (empty_name i) i]"
    show ?thesis
      using IngestSST_empty [OF steps(2) [unfolded e(2)], of j] empty e(1) by simp
  next
    fix "file" f
    assume f: "es \<noteq> []" "sst_Finish eng es = Inr file" "cs = map (data_chunk f) (chop sst_buffer file) @ [last_chunk f 0]"
    show ?thesis
      using IngestSST_file [OF f(2) es(2) steps(2) [unfolded f(3)]] partition_entries_add [OF es] f(1)
      by (simp add: HasPartition_def)
  qed
  moreover have "SetPartitionStatus i MIGRATING_OUT (srv_pm (servers n src)) = (fst (SetPartitionStatus i MIGRATING_OUT (srv_pm (servers n src))), None)"
    using ex(1) by (auto simp: HasPartition_def SetPartitionStatus_def)
  ultimately show ?thesis
    using steps(3) ex(2) assms(2) empty by auto
qed

end

section \<open>Deleting in rounds\<close>

context rocks_engine
begin

lemma delete_round:
  assumes "delete_batch eng startKey endKey db \<noteq> []" and "eng_Write eng db (map BatchDelete_op (delete_batch eng startKey endKey db)) = (db', None)"
  shows "card (dom (view db')) < card (dom (view db))"
    and "\<And>k. \<not> (startKey \<le> k \<and> k < endKey) \<Longrightarrow> view db' k = view db k"
    and "dom (view db') \<subseteq> dom (view db)"
proof -
  let ?ks = "delete_batch eng startKey endKey db"
  have "prefix (fst (eng_Seek eng db startKey)) (entries_from (view db) startKey)"
    by (rule Seek_prefix) (rule prod.collapse [symmetric])
  then have "set (fst (eng_Seek eng db startKey)) \<subseteq> set (entries_from (view db) startKey)"
    by (rule set_mono_prefix)
  then have ks: "set ?ks \<subseteq> {k \<in> dom (view db). startKey \<le> k \<and> k < endKey}"
    by (fastforce simp: delete_batch_def set_entries_from finite_view in_range_def not_le dest!: in_set_takeD set_takeWhileD)
  have view': "view db' = (\<lambda>k. if k \<in> set ?ks then None else view db k)"
    using Write_ok [OF assms(2)] by (auto simp: fold_batch_deletes restrict_map_def)
  have "dom (view db') = dom (view db) - set ?ks"
    by (auto simp: view' split: if_splits)
  moreover have "?ks ! 0 \<in> set ?ks"
    using assms(1) by simp
  ultimately have "dom (view db') \<subset> dom (view db)"
    using ks by blast
  then show "card (dom (view db')) < card (dom (view db))" "dom (view db') \<subseteq> dom (view db)"
    using finite_view psubset_card_mono by blast+
  show "view db' k = view db k" if "\<not> (startKey \<le> k \<and> k < endKey)" for k
    using that ks by (auto simp: view')
qed

lemma delete_rounds_end:
  "\<exists>db' keyCount' e. delete_rounds eng startKey endKey db keyCount = Some (db', keyCount', e) \<and>
     (\<forall>k. \<not> (startKey \<le> k \<and> k < endKey) \<longrightarrow> view db' k = view db k) \<and> dom (view db') \<subseteq> dom (view db) \<and>
     (e = None \<longrightarrow> delete_batch eng startKey endKey db' = [])"
proof (induction "card (dom (view db))" arbitrary: db keyCount rule: less_induct)
  case less
  let ?ks = "delete_batch eng startKey endKey db"
  show ?case
  proof (cases "?ks = []")
    case True
    then show ?thesis
      by (simp add: delete_rounds.simps)
  next
    case False
    obtain db1 e1 where w: "eng_Write eng db (map BatchDelete_op ?ks) = (db1, e1)"
      by force
    show ?thesis
    proof (cases e1)
      case None
      note round = delete_round [OF False w [unfolded None]]
      from less [OF round(1), of "keyCount + int (length ?ks)"] obtain db' kc e where
        "delete_rounds eng startKey endKey db1 (keyCount + int (length ?ks)) = Some (db', kc, e)"
        "\<forall>k. \<not> (startKey \<le> k \<and> k < endKey) \<longrightarrow> view db' k = view db1 k" "dom (view db') \<subseteq> dom (view db1)"
        "e = None \<longrightarrow> delete_batch eng startKey endKey db' = []"
        by blast
      moreover have "delete_rounds eng startKey endKey db keyCount = delete_rounds eng startKey endKey db1 (keyCount + int (length ?ks))"
        using False w None by (subst delete_rounds.simps) (simp add: Let_def)
      ultimately show ?thesis
        using round(2,3) by auto
    next
      case (Some x)
      then have "delete_rounds eng startKey endKey db keyCount = Some (db1, keyCount, Some x)"
        using False w by (subst delete_rounds.simps) (simp add: Let_def)
      then show ?thesis
        using Write_failed [OF w [unfolded Some]] by simp
    qed
  qed
qed

lemma delete_batch_none:
  assumes "delete_batch eng startKey endKey db = []" and "snd (eng_Seek eng db startKey) = None" and "view db k = Some v"
  shows "\<not> (startKey \<le> k \<and> k < endKey)"
proof
  assume k: "startKey \<le> k \<and> k < endKey"
  have run: "fst (eng_Seek eng db startKey) = entries_from (view db) startKey"
    using Seek_ok [of db startKey "fst (eng_Seek eng db startKey)"] assms(2) by (simp add: prod_eq_iff)
  have "takeWhile (\<lambda>e. in_range endKey (fst e)) (entries_from (view db) startKey) =
      filter (\<lambda>e. in_range endKey (fst e)) (entries_from (view db) startKey)"
    by (rule entries_from_takeWhile) (auto simp: in_range_def not_le)
  moreover have "(k, v) \<in> set (filter (\<lambda>e. in_range endKey (fst e)) (entries_from (view db) startKey))"
    using k assms(3) by (simp add: set_entries_from finite_view in_range_def not_le)
  ultimately show False
    using assms(1) by (fastforce simp: delete_batch_def delete_batch_size_def run filter_empty_conv)
qed

end

section \<open>Files and nodes in memory\<close>

text \<open>
  A file format with tagged bytes, an engine in memory that writes and ingests such files, and
  nodes that answer at once: the laws above can be met.
\<close>

fun enc_bytes :: "bytes \<Rightarrow> bytes" where
  "enc_bytes [] = [0]"
| "enc_bytes (b # bs) = 1 # b # enc_bytes bs"

fun dec_bytes :: "bytes \<Rightarrow> (bytes \<times> bytes) option" where
  "dec_bytes (t # rest) =
     (if t = 0 then Some ([], rest)
      else case rest of [] \<Rightarrow> None | b # rest \<Rightarrow> map_option (\<lambda>(bs, rest). (b # bs, rest)) (dec_bytes rest))"
| "dec_bytes [] = None"

fun enc_entries :: "(bytes \<times> bytes) list \<Rightarrow> bytes" where
  "enc_entries [] = [0]"
| "enc_entries ((k, v) # es) = 1 # enc_bytes k @ enc_bytes v @ enc_entries es"

fun dec_entries :: "nat \<Rightarrow> bytes \<Rightarrow> (bytes \<times> bytes) list option" where
  "dec_entries (Suc fuel) (t # rest) =
     (if t = 0 then Some []
      else case dec_bytes rest of None \<Rightarrow> None | Some (k, rest) \<Rightarrow>
      case dec_bytes rest of None \<Rightarrow> None | Some (v, rest) \<Rightarrow> map_option ((#) (k, v)) (dec_entries fuel rest))"
| "dec_entries fuel buf = None"

lemma dec_enc_bytes [simp]: "dec_bytes (enc_bytes xs @ rest) = Some (xs, rest)"
  by (induction xs) auto

lemma dec_enc_entries: "length es < fuel \<Longrightarrow> dec_entries fuel (enc_entries es) = Some es"
proof (induction es arbitrary: fuel)
  case Nil
  then show ?case
    by (cases fuel) auto
next
  case (Cons e es)
  then show ?case
    by (cases fuel; cases e) auto
qed

lemma length_enc_entries: "length es < length (enc_entries es)"
  by (induction es rule: enc_entries.induct) auto

definition mem_ingest :: "err option \<Rightarrow> mem \<Rightarrow> bytes \<Rightarrow> mem \<times> err option" where
  "mem_ingest fault db file =
     (case fault of Some e \<Rightarrow> (db, Some e) | None \<Rightarrow>
      case dec_entries (length file) file of
        None \<Rightarrow> (db, Some (ErrIO ''corrupt file''))
      | Some es \<Rightarrow> (fold (\<lambda>(k, v). AList.update k v) es db, None))"

definition mem_sst :: "err option \<Rightarrow> mem sst_engine" where
  "mem_sst fault = engine.extend (mem_engine fault)
     \<lparr>sst_Open = None, sst_Put = (\<lambda>_ _. None), sst_Finish = (\<lambda>es. Inr (enc_entries es)), eng_IngestExternalFile = mem_ingest fault\<rparr>"

lemma mem_sst_engine [simp]:
  "eng_Get (mem_sst fault) = eng_Get (mem_engine fault)" "eng_Put (mem_sst fault) = eng_Put (mem_engine fault)"
  "eng_Delete (mem_sst fault) = eng_Delete (mem_engine fault)" "eng_Write (mem_sst fault) = eng_Write (mem_engine fault)"
  "eng_Seek (mem_sst fault) = eng_Seek (mem_engine fault)" "sst_Open (mem_sst fault) = None" "sst_Put (mem_sst fault) = (\<lambda>_ _. None)"
  "sst_Finish (mem_sst fault) = (\<lambda>es. Inr (enc_entries es))" "eng_IngestExternalFile (mem_sst fault) = mem_ingest fault"
  by (simp_all add: mem_sst_def engine.defs)

lemma mem_ingest_view:
  assumes "distinct (map fst es)" and "mem_ingest fault db (enc_entries es) = (db', None)"
  shows "map_of db' = map_of db ++ map_of es"
proof -
  have "map_of (rev es) = map_of es"
    using assms(1) by (simp add: map_of_inject_set flip: rev_map)
  then show ?thesis
    using assms by (auto simp: mem_ingest_def dec_enc_entries length_enc_entries map_of_fold_update split: option.splits)
qed

interpretation mem_files: sst_files "mem_sst fault" map_of
proof unfold_locales
  fix es "file" db db'
  assume "sst_Finish (mem_sst fault) es = Inr file" "distinct (map fst es)" "eng_IngestExternalFile (mem_sst fault) db file = (db', None)"
  then show "map_of db' = map_of db ++ map_of es"
    using mem_ingest_view [of es fault db db'] by simp
next
  fix db "file" db' e
  assume "eng_IngestExternalFile (mem_sst fault) db file = (db', Some e)"
  then show "map_of db' = map_of db"
    by (auto simp: mem_ingest_def split: option.splits)
next
  fix es
  show "sst_Finish (mem_sst fault) es \<noteq> Inr []"
    using length_enc_entries [of es] by auto
qed (unfold mem_sst_engine, (rule mem.finite_view | erule mem.Get_ok mem.Put_ok mem.Put_failed mem.Delete_ok mem.Delete_failed
      mem.Write_ok mem.Write_failed mem.Seek_ok mem.Seek_prefix)+)

text \<open>Nodes that answer with their handlers; \<open>lost k\<close> is the fate of the \<open>k\<close>-th message to a node.\<close>

definition node_net ::
    "('db, 'x) sst_engine_scheme \<Rightarrow> sst_io \<Rightarrow> (nat \<Rightarrow> err option) \<Rightarrow> (string \<Rightarrow> 'db Server) sst_net" where
  "node_net eng io lost =
     \<lparr>sx_Dial = (\<lambda>a n. None),
      sx_ExportSST = (\<lambda>a req n. case ExportSST eng io lost 0 req (n a) of
        (s, cs, e) \<Rightarrow> (n(a := s), Inr (cs, case e of None \<Rightarrow> ErrEOF | Some e \<Rightarrow> ErrStatus Code_Internal e))),
      sx_IngestSST = (\<lambda>a n. None),
      sx_Send = (\<lambda>a k n. lost k),
      sx_CloseAndRecv = (\<lambda>a cs n. case IngestSST eng io (cs, ErrEOF) (n a) of (s, r) \<Rightarrow> (n(a := s), r))\<rparr>"

interpretation mem_nodes: sst_service "mem_sst fault" map_of "node_net (mem_sst fault) io lost" id
  by unfold_locales (fastforce simp: node_net_def split: prod.splits option.splits)+

section \<open>Properties\<close>

text \<open>
  C12. A migration of the migration manager that reports success has copied the partition: at the
  target its contents override what the target had of that partition, all other partitions of
  the target are as they were, and the source keeps its data and stays in \<open>MIGRATING_OUT\<close>. The
  target does not become a holder of the partition, unless the partition was empty and is not
  number 0: the chunks with data do not carry the partition's number.
\<close>

theorem migration_copies_partition:
  assumes "sst_service eng view net servers" and "MigratePartition net i src tgt n = (n', None)" and "src \<noteq> tgt" and "i \<noteq> -1"
    and "\<forall>k \<in> dom (view (srv_db (servers n src))). 6 \<le> length k"
  shows "partition_view (view (srv_db (servers n' tgt))) =
      (partition_view (view (srv_db (servers n tgt))))
        (i := partition_view (view (srv_db (servers n tgt))) i ++ partition_view (view (srv_db (servers n src))) i) \<and>
    srv_db (servers n' src) = srv_db (servers n src) \<and>
    map_option p_Status (GetPartition (srv_pm (servers n' src)) i) = Some MIGRATING_OUT \<and>
    (HasPartition (srv_pm (servers n' tgt)) j \<longleftrightarrow> HasPartition (srv_pm (servers n tgt)) j \<or>
       j = i \<and> i \<noteq> 0 \<and> partition_view (view (srv_db (servers n src))) i = Map.empty)"
proof -
  obtain pm where eff: "servers n' src = (servers n src)\<lparr>srv_pm := pm\<rparr>" "SetPartitionStatus i MIGRATING_OUT (srv_pm (servers n src)) = (pm, None)"
    "partition_view (view (srv_db (servers n' tgt))) = (partition_view (view (srv_db (servers n tgt))))
        (i := partition_view (view (srv_db (servers n tgt))) i ++ partition_view (view (srv_db (servers n src))) i)"
    "\<forall>j. HasPartition (srv_pm (servers n' tgt)) j \<longleftrightarrow> HasPartition (srv_pm (servers n tgt)) j \<or>
       j = i \<and> i \<noteq> 0 \<and> partition_view (view (srv_db (servers n src))) i = Map.empty"
    using sst_service.MigratePartition_effect [OF assms] by blast
  have "pm_db pm = srv_db (servers n src) \<and> map_option p_Status (GetPartition pm i) = Some MIGRATING_OUT"
    using eff(2) by (auto simp: SetPartitionStatus_def GetPartition_def update_conv' split: option.splits)
  then show ?thesis
    using eff by simp
qed

definition quiet_io :: sst_io where
  "quiet_io = \<lparr>io_Mkdir = None, io_Open = None, io_Read = (\<lambda>_. None), io_Create = None, io_Write = (\<lambda>_. None)\<rparr>"

lemma quiet_simps:
  "io_Open quiet_io = None" "stream_file quiet_io (\<lambda>_. None) f k ds = (map (data_chunk f) ds @ [last_chunk f 0], None)"
  "forward_chunks (\<lambda>_. None) ErrEOF k sent (map (data_chunk f) ds @ [last_chunk f i]) = Inr (sent @ map (data_chunk f) ds @ [last_chunk f i])"
  "ingest_loop quiet_io fin k 0 None (map (data_chunk f) (chop sst_buffer (enc_entries es)) @ [last_chunk f 0]) = Ing_done (Some (enc_entries es))"
  "dec_entries (length (enc_entries es)) (enc_entries es) = Some es"
proof -
  show "io_Open quiet_io = None"
    by (simp add: quiet_io_def)
  show "stream_file quiet_io (\<lambda>_. None) f k ds = (map (data_chunk f) ds @ [last_chunk f 0], None)"
    by (induction ds arbitrary: k) (simp_all add: quiet_io_def)
  show "forward_chunks (\<lambda>_. None) ErrEOF k sent (map (data_chunk f) ds @ [last_chunk f i]) = Inr (sent @ map (data_chunk f) ds @ [last_chunk f i])"
    by (induction ds arbitrary: k sent) simp_all
  have never: "ingest_loop quiet_io fin k 0 buf (map (data_chunk f) ds @ [last_chunk f 0]) \<noteq> Ing_fail e" for buf ds e
    by (induction ds arbitrary: k buf) (simp_all add: quiet_io_def Let_def)
  have "concat (chop sst_buffer (enc_entries es)) \<noteq> []"
    using length_enc_entries [of es] by (auto simp: sst_buffer_def)
  then have "chop sst_buffer (enc_entries es) \<noteq> []"
    by auto
  then show "ingest_loop quiet_io fin k 0 None (map (data_chunk f) (chop sst_buffer (enc_entries es)) @ [last_chunk f 0]) = Ing_done (Some (enc_entries es))"
    using ingest_loop_file [OF chop_nonempty, of sst_buffer "enc_entries es" None quiet_io fin k f] never by (auto simp: sst_buffer_def)
qed (simp add: dec_enc_entries length_enc_entries)

definition example_nodes :: "string \<Rightarrow> mem Server" where
  "example_nodes a = (if a = ''a'' then example_server True else (example_server False)\<lparr>srv_pm :=
     \<lparr>pm_nodeID = a, pm_partitions = [], pm_db = [(MakePartitionKey 8 [1], [20])], pm_gauge = (\<lambda>_. 0)\<rparr>\<rparr>)"

theorem migration_copies_partition_witness:
  "let n' = fst (MigratePartition (node_net (mem_sst None) quiet_io (\<lambda>_. None)) 7 ''a'' ''b'' example_nodes)
   in partition_view (map_of (srv_db (n' ''b''))) 7 = [[1] \<mapsto> [10]] \<and> \<not> HasPartition (srv_pm (n' ''b'')) 7"
proof -
  let ?net = "node_net (mem_sst None) quiet_io (\<lambda>_. None)"
  have scan: "scan_partition (mem_sst None) (srv_db (example_nodes ''a'')) 7 = ([(MakePartitionKey 7 [1], [10])], None)"
    by code_simp
  have "HasPartition (srv_pm (example_nodes ''a'')) 7" "snd (SetPartitionStatus 7 MIGRATING_OUT (srv_pm (example_nodes ''a''))) = None"
    "pm_db (fst (SetPartitionStatus 7 MIGRATING_OUT (srv_pm (example_nodes ''a'')))) = srv_db (example_nodes ''a'')"
    by (simp_all add: example_nodes_def example_server_def HasPartition_def SetPartitionStatus_def)
  then have "snd (MigratePartition ?net 7 ''a'' ''b'' example_nodes) = None"
    using scan by (simp add: MigratePartition_def node_net_def ExportSST_def build_sst_def quiet_simps IngestSST_def mem_ingest_def
        case_prod_beta Let_def del: enc_entries.simps split: prod.splits)
  then have "MigratePartition ?net 7 ''a'' ''b'' example_nodes = (fst (MigratePartition ?net 7 ''a'' ''b'' example_nodes), None)"
    by (metis prod.collapse)
  from migration_copies_partition [OF mem_nodes.sst_service_axioms this, of 7]
  show ?thesis
    by (auto simp: Let_def example_nodes_def example_server_def HasPartition_def partition_view_def fun_eq_iff length_MakePartitionKey)
      (metis option.distinct(1))
qed

text \<open>
  C33. \<open>DeletePartitionData\<close> always ends, whatever fails: it touches no other partition and adds
  nothing; when it reports success and the iterators do not fail, the partition is empty. The
  last condition is needed: an iterator that fails at once counts as an empty partition.
\<close>

theorem DeletePartitionData_ends:
  assumes "rocks_engine eng view" and "i \<noteq> -1" and "\<forall>k \<in> dom (view (srv_db s)). 6 \<le> length k"
  shows "\<exists>s' e. DeletePartitionData eng i s = Some (s', e) \<and> pm_partitions (srv_pm s') = pm_partitions (srv_pm s) \<and>
    (\<forall>j. j \<noteq> i \<longrightarrow> partition_view (view (srv_db s')) j = partition_view (view (srv_db s)) j) \<and>
    (e = None \<and> snd (eng_Seek eng (srv_db s') (fst (GetPartitionRange i))) = None \<longrightarrow> partition_view (view (srv_db s')) i = Map.empty)"
proof (cases "HasPartition (srv_pm s) i")
  case False
  then show ?thesis
    by (simp add: DeletePartitionData_def)
next
  case True
  obtain startKey endKey where range: "GetPartitionRange i = (startKey, endKey)"
    by force
  obtain db' kc e where del: "delete_rounds eng startKey endKey (srv_db s) 0 = Some (db', kc, e)"
    "\<forall>k. \<not> (startKey \<le> k \<and> k < endKey) \<longrightarrow> view db' k = view (srv_db s) k" "dom (view db') \<subseteq> dom (view (srv_db s))"
    "e = None \<longrightarrow> delete_batch eng startKey endKey db' = []"
    using rocks_engine.delete_rounds_end [OF assms(1), of startKey endKey "srv_db s" 0] by blast
  have in_range: "startKey \<le> MakePartitionKey j x \<and> MakePartitionKey j x < endKey \<longleftrightarrow> j = i" for j x
    using partition_range_iff [OF range assms(2), of "MakePartitionKey j x"] by (auto simp: length_MakePartitionKey)
  have "partition_view (view db') j = partition_view (view (srv_db s)) j" if "j \<noteq> i" for j
    unfolding partition_view_def using del(2) in_range [of j] that by blast
  moreover have "partition_view (view db') i = Map.empty" if "e = None" "snd (eng_Seek eng db' startKey) = None"
    using rocks_engine.delete_batch_none [OF assms(1) del(4) [rule_format, OF that(1)] that(2)] in_range [of i]
    by (auto simp: partition_view_def fun_eq_iff) (metis not_Some_eq)
  moreover have "DeletePartitionData eng i s = Some (set_db db' s, e)"
    using True by (simp add: DeletePartitionData_def range del(1))
  ultimately show ?thesis
    by (auto simp: range set_db_def)
qed

theorem DeletePartitionData_ends_witness:
  "\<exists>s'. DeletePartitionData (mem_engine None) 7 (example_server True) = Some (s', None) \<and> partition_view (map_of (srv_db s')) 7 = Map.empty"
proof -
  obtain s' e where s': "DeletePartitionData (mem_engine None) 7 (example_server True) = Some (s', e)"
    "e = None \<longrightarrow> partition_view (map_of (srv_db s')) 7 = Map.empty"
    using DeletePartitionData_ends [OF mem.rocks_engine_axioms, of 7 "example_server True" None]
    by (auto simp: example_server_def length_MakePartitionKey mem_engine_def)
  moreover have "map_option snd (DeletePartitionData (mem_engine None) 7 (example_server True)) = Some None"
    by code_simp
  ultimately show ?thesis
    by simp
qed

end
