(* ===== verification/Meta_Migration.thy ===== *)
theory Meta_Migration
  imports Shutdown Sst "HOL-Library.Multiset"
begin

text \<open>
  The migration controller of the metadata service, \<open>src/pkg/metadata/migration.go\<close>: the plan of a
  rebalancing, its execution by a bounded number of goroutines, and the copying of one
  partition between two storage nodes.

  The storage nodes are the network parameter of the theory \<open>Sst\<close>; the store is inside the
  router. The order in which \<open>range\<close> visits the route table is the order of its association list,
  and the order \<open>sort.Slice\<close> gives to items of the same priority is a parameter. Times and the
  floating point progress of the status are not represented.
\<close>

section \<open>State\<close>

record MigrationConfig =
  mcf_MaxConcurrent :: int
  mcf_BandwidthLimit :: int
  mcf_ChunkSize :: int
  mcf_CatchupThreshold :: int
  mcf_RetryAttempts :: int
  mcf_RetryDelay :: int
  mcf_PauseOnError :: bool
  mcf_Priority :: MigrationPriority

text \<open>The delay is in nanoseconds.\<close>

definition DefaultMigrationConfig :: MigrationConfig where
  "DefaultMigrationConfig =
     \<lparr>mcf_MaxConcurrent = 10, mcf_BandwidthLimit = 200 * 1024 * 1024, mcf_ChunkSize = 4 * 1024 * 1024,
      mcf_CatchupThreshold = 10 * 1024 * 1024, mcf_RetryAttempts = 3, mcf_RetryDelay = 5 * 10 ^ 9,
      mcf_PauseOnError = False, mcf_Priority = PRIORITY_NORMAL\<rparr>"

record PartitionMigrationState =
  pms_PartitionID :: u32
  pms_SourceNode :: string
  pms_TargetNode :: string
  pms_State :: MigrationState
  pms_BytesCopied :: int
  pms_BytesTotal :: int
  pms_Error :: error_message
  pms_RetryCount :: int

record Migration =
  mg_ID :: string
  mg_TotalPartitions :: i32
  mg_CompletedPartitions :: i32
  mg_FailedPartitions :: i32
  mg_BytesCopied :: int
  mg_BytesTotal :: int
  mg_Status :: string
  mg_Partitions :: "(u32 \<times> PartitionMigrationState) list"

record MigrationPlanItem =
  pl_PartitionID :: u32
  pl_SourceNode :: string
  pl_TargetNode :: string
  pl_IsPrimary :: bool
  pl_Priority :: MigrationPriority

text \<open>
  A run of \<open>executeMigration\<close>: the rest of the plan, the goroutines it has started, with how far
  each has come, and the place of the loop. It is about to take the next item, waits for the
  semaphore with the first item of the rest, waits for the goroutines, or has returned. A run
  and its migration object have the same index.
\<close>

datatype go_phase = Go_prepare | Go_copy | Go_switch | Go_end "err option"

datatype run_phase = Run_loop | Run_acquire | Run_wait | Run_returned

record migration_run =
  run_config :: MigrationConfig
  run_rest :: "MigrationPlanItem list"
  run_active :: "(MigrationPlanItem \<times> go_phase) list"
  run_cancelled :: bool
  run_paused :: bool
  run_phase :: run_phase

record ('s, 'n) MigrationController =
  mc_config :: MigrationConfig
  mc_router :: "'s Router"
  mc_net :: 'n
  mc_migrations :: "Migration list"
  mc_runs :: "migration_run list"
  mc_currentMigration :: "nat option"
  mc_storageConns :: "string list"
  mc_cancelFunc :: "nat option"

definition NewMigrationController :: "MigrationConfig option \<Rightarrow> 's Router \<Rightarrow> 'n \<Rightarrow> ('s, 'n) MigrationController" where
  "NewMigrationController config router n =
     \<lparr>mc_config = (case config of None \<Rightarrow> DefaultMigrationConfig | Some c \<Rightarrow> c), mc_router = router, mc_net = n, mc_migrations = [],
      mc_runs = [], mc_currentMigration = None, mc_storageConns = [], mc_cancelFunc = None\<rparr>"

section \<open>The plan\<close>

definition plan_ring :: "NodeInfo list \<Rightarrow> ConsistentHash" where
  "plan_ring onlineNodes = ring_of (map ni_Addr onlineNodes)"

text \<open>The items of one partition, for the nodes \<open>addrSet\<close> that are online.\<close>

definition plan_partition :: "ConsistentHash \<Rightarrow> string set \<Rightarrow> u32 \<times> PartitionInfo \<Rightarrow> MigrationPlanItem list" where
  "plan_partition hashRing addrSet = (\<lambda>(partitionID, part).
     let (newPrimary, newReplica) = GetNodes hashRing partitionID in
     (if pi_Primary part \<noteq> newPrimary then
        let priority = (if pi_Primary part \<notin> addrSet then PRIORITY_HIGH else PRIORITY_NORMAL) in
        [if pi_Replica part = newPrimary
         then \<lparr>pl_PartitionID = partitionID, pl_SourceNode = pi_Primary part, pl_TargetNode = pi_Replica part,
               pl_IsPrimary = True, pl_Priority = priority\<rparr>
         else \<lparr>pl_PartitionID = partitionID, pl_SourceNode = pi_Primary part, pl_TargetNode = newPrimary,
               pl_IsPrimary = True, pl_Priority = priority\<rparr>]
      else []) @
     (if pi_Replica part \<noteq> newReplica \<and> pi_Primary part \<noteq> newReplica then
        [\<lparr>pl_PartitionID = partitionID, pl_SourceNode = pi_Replica part, pl_TargetNode = newReplica, pl_IsPrimary = False,
          pl_Priority = (if pi_Replica part \<notin> addrSet then PRIORITY_NORMAL else PRIORITY_LOW)\<rparr>]
      else []))"

text \<open>
  \<open>sort.Slice\<close> is not stable: the items are permuted by \<open>perm\<close> before a stable sort, higher
  priorities first.
\<close>

definition sort_plan :: "(MigrationPlanItem list \<Rightarrow> MigrationPlanItem list) \<Rightarrow> MigrationPlanItem list \<Rightarrow> MigrationPlanItem list" where
  "sort_plan perm plan = sort_key (\<lambda>item. - int (priority_number (pl_Priority item))) (perm plan)"

definition is_online :: "NodeInfo \<Rightarrow> bool" where
  "is_online node \<longleftrightarrow> ni_Status node = NodeStatusOnline \<or> ni_Status node = ''online''"

definition calculateMigrationPlan ::
    "(MigrationPlanItem list \<Rightarrow> MigrationPlanItem list) \<Rightarrow> RouteTable \<Rightarrow> NodeInfo list \<Rightarrow> MigrationPlanItem list" where
  "calculateMigrationPlan perm currentTable nodes =
     (if nodes = [] then []
      else
        let onlineNodes = filter is_online nodes in
        if length onlineNodes < MinReplicaNodes then []
        else
          let hashRing = plan_ring onlineNodes; addrSet = set (map ni_Addr onlineNodes)
          in sort_plan perm (concat (map (plan_partition hashRing addrSet) (rt_Partitions currentTable))))"

section \<open>Starting and cancelling\<close>

record TriggerRebalanceRequest =
  trq_force :: bool
  trq_bandwidth_limit :: int
  trq_max_concurrent :: int

record TriggerRebalanceResponse =
  trr_success :: bool
  trr_message :: error_message
  trr_migration_id :: string
  trr_partitions_to_migrate :: i32

definition refused :: "bool \<Rightarrow> error_message \<Rightarrow> TriggerRebalanceResponse" where
  "refused success message =
     \<lparr>trr_success = success, trr_message = message, trr_migration_id = [], trr_partitions_to_migrate = 0\<rparr>"

definition new_state :: "MigrationPlanItem \<Rightarrow> PartitionMigrationState" where
  "new_state item =
     \<lparr>pms_PartitionID = pl_PartitionID item, pms_SourceNode = pl_SourceNode item, pms_TargetNode = pl_TargetNode item,
      pms_State = MIGRATION_PREPARING, pms_BytesCopied = 0, pms_BytesTotal = 0, pms_Error = NoMessage, pms_RetryCount = 0\<rparr>"

definition new_migration :: "string \<Rightarrow> MigrationPlanItem list \<Rightarrow> Migration" where
  "new_migration migrationID plan =
     \<lparr>mg_ID = migrationID, mg_TotalPartitions = of_nat (length plan), mg_CompletedPartitions = 0, mg_FailedPartitions = 0,
      mg_BytesCopied = 0, mg_BytesTotal = 0, mg_Status = ''running'',
      mg_Partitions = fold (\<lambda>item. AList.update (pl_PartitionID item) (new_state item)) plan []\<rparr>"

definition limited :: "TriggerRebalanceRequest \<Rightarrow> MigrationConfig \<Rightarrow> MigrationConfig" where
  "limited req config = config
     \<lparr>mcf_BandwidthLimit := (if trq_bandwidth_limit req > 0 then trq_bandwidth_limit req else mcf_BandwidthLimit config),
      mcf_MaxConcurrent := (if trq_max_concurrent req > 0 then trq_max_concurrent req else mcf_MaxConcurrent config)\<rparr>"

definition new_run :: "MigrationConfig \<Rightarrow> MigrationPlanItem list \<Rightarrow> migration_run" where
  "new_run config plan =
     \<lparr>run_config = config, run_rest = plan, run_active = [], run_cancelled = False, run_paused = False, run_phase = Run_loop\<rparr>"

definition mc_running :: "('s, 'n) MigrationController \<Rightarrow> bool" where
  "mc_running mc \<longleftrightarrow>
     (case mc_currentMigration mc of None \<Rightarrow> False | Some k \<Rightarrow> mg_Status (mc_migrations mc ! k) = ''running'')"

text \<open>\<open>uuid\<close> is the random identifier.\<close>

definition TriggerRebalance ::
    "('s, 'x) Store_scheme \<Rightarrow> (MigrationPlanItem list \<Rightarrow> MigrationPlanItem list) \<Rightarrow> string \<Rightarrow> TriggerRebalanceRequest \<Rightarrow>
     ('s, 'n) MigrationController \<Rightarrow> ('s, 'n) MigrationController \<times> TriggerRebalanceResponse" where
  "TriggerRebalance st perm uuid req mc =
     (if mc_running mc then (mc, refused False (Message ''migration already in progress''))
      else case st_ListNodes st NodeRoleStorage (r_store (mc_router mc)) of
        Inl e \<Rightarrow> (mc, refused False (ErrorText e))
      | Inr nodes \<Rightarrow>
          if length nodes < MinReplicaNodes then (mc, refused False (Message ''need at least 2 storage nodes''))
          else
            let nodes = sort_key ni_ID nodes;
                plan = calculateMigrationPlan perm (r_routeTable (mc_router mc)) nodes
            in if plan = [] \<and> \<not> trq_force req then (mc, refused True (Message ''cluster is already balanced''))
               else
                 let k = length (mc_migrations mc); migrationID = take 8 uuid
                 in (mc\<lparr>mc_migrations := mc_migrations mc @ [new_migration migrationID plan],
                        mc_runs := mc_runs mc @ [new_run (limited req (mc_config mc)) plan],
                        mc_currentMigration := Some k, mc_cancelFunc := Some k\<rparr>,
                     \<lparr>trr_success = True, trr_message = Message ''migration started'', trr_migration_id = migrationID,
                      trr_partitions_to_migrate = of_nat (length plan)\<rparr>))"

definition upd_migration :: "nat \<Rightarrow> (Migration \<Rightarrow> Migration) \<Rightarrow> ('s, 'n) MigrationController \<Rightarrow> ('s, 'n) MigrationController" where
  "upd_migration k f mc = mc\<lparr>mc_migrations := (mc_migrations mc)[k := f (mc_migrations mc ! k)]\<rparr>"

definition upd_run :: "nat \<Rightarrow> (migration_run \<Rightarrow> migration_run) \<Rightarrow> ('s, 'n) MigrationController \<Rightarrow> ('s, 'n) MigrationController" where
  "upd_run k f mc = mc\<lparr>mc_runs := (mc_runs mc)[k := f (mc_runs mc ! k)]\<rparr>"

definition set_status :: "string \<Rightarrow> Migration \<Rightarrow> Migration" where
  "set_status v = mg_Status_update (\<lambda>_. v)"

definition CancelMigration :: "('s, 'n) MigrationController \<Rightarrow> ('s, 'n) MigrationController \<times> bool \<times> string" where
  "CancelMigration mc =
     (if \<not> mc_running mc then (mc, False, ''no migration in progress'')
      else
        let mc = (case mc_cancelFunc mc of None \<Rightarrow> mc | Some k \<Rightarrow> upd_run k (run_cancelled_update (\<lambda>_. True)) mc)
        in (upd_migration (the (mc_currentMigration mc)) (set_status ''cancelled'') mc, True, ''migration cancelled''))"

text \<open>The requested identifier is not read. The result has no status when there never was a migration.\<close>

record GetMigrationStatusResponse =
  gms_in_progress :: bool
  gms_migration_id :: string
  gms_total_partitions :: i32
  gms_completed_partitions :: i32
  gms_failed_partitions :: i32
  gms_bytes_copied :: int
  gms_bytes_total :: int
  gms_partition_status :: "PartitionMigrationState list"

definition GetMigrationStatus :: "('s, 'n) MigrationController \<Rightarrow> GetMigrationStatusResponse" where
  "GetMigrationStatus mc =
     (case mc_currentMigration mc of
        None \<Rightarrow>
          \<lparr>gms_in_progress = False, gms_migration_id = [], gms_total_partitions = 0, gms_completed_partitions = 0,
           gms_failed_partitions = 0, gms_bytes_copied = 0, gms_bytes_total = 0, gms_partition_status = []\<rparr>
      | Some k \<Rightarrow>
          let migration = mc_migrations mc ! k
          in \<lparr>gms_in_progress = (mg_Status migration = ''running''), gms_migration_id = mg_ID migration,
              gms_total_partitions = mg_TotalPartitions migration, gms_completed_partitions = mg_CompletedPartitions migration,
              gms_failed_partitions = mg_FailedPartitions migration, gms_bytes_copied = mg_BytesCopied migration,
              gms_bytes_total = mg_BytesTotal migration, gms_partition_status = map snd (mg_Partitions migration)\<rparr>)"

definition mc_Close :: "('s, 'n) MigrationController \<Rightarrow> ('s, 'n) MigrationController" where
  "mc_Close mc = mc\<lparr>mc_storageConns := []\<rparr>"

section \<open>Moving one partition\<close>

text \<open>
  The state of a partition is a shared object; its entry in the map is never replaced. Both
  moves of a partition use the same one.
\<close>

definition upd_state ::
    "nat \<Rightarrow> u32 \<Rightarrow> (PartitionMigrationState \<Rightarrow> PartitionMigrationState) \<Rightarrow> ('s, 'n) MigrationController \<Rightarrow> ('s, 'n) MigrationController" where
  "upd_state k partitionID f =
     upd_migration k (\<lambda>migration. migration\<lparr>mg_Partitions :=
       map (\<lambda>(i, state). (i, if i = partitionID then f state else state)) (mg_Partitions migration)\<rparr>)"

definition state_of :: "nat \<Rightarrow> u32 \<Rightarrow> ('s, 'n) MigrationController \<Rightarrow> PartitionMigrationState" where
  "state_of k partitionID mc = the (map_of (mg_Partitions (mc_migrations mc ! k)) partitionID)"

definition set_mstate :: "nat \<Rightarrow> u32 \<Rightarrow> MigrationState \<Rightarrow> ('s, 'n) MigrationController \<Rightarrow> ('s, 'n) MigrationController" where
  "set_mstate k partitionID v = upd_state k partitionID (pms_State_update (\<lambda>_. v))"

definition getStorageClient ::
    "('n, 'y) sst_net_scheme \<Rightarrow> string \<Rightarrow> ('s, 'n) MigrationController \<Rightarrow> ('s, 'n) MigrationController \<times> err option" where
  "getStorageClient net addr mc =
     (if addr \<in> set (mc_storageConns mc) then (mc, None)
      else case sx_Dial net addr (mc_net mc) of
        Some e \<Rightarrow> (mc, Some e)
      | None \<Rightarrow> (mc\<lparr>mc_storageConns := addr # mc_storageConns mc\<rparr>, None))"

definition migrate_prepare ::
    "('s, 'x) Store_scheme \<Rightarrow> ('n, 'y) sst_net_scheme \<Rightarrow> nat \<Rightarrow> MigrationPlanItem \<Rightarrow> ('s, 'n) MigrationController \<Rightarrow>
     ('s, 'n) MigrationController \<times> err option" where
  "migrate_prepare st net k item mc =
     (let mc = set_mstate k (pl_PartitionID item) MIGRATION_PREPARING mc;
          (r, e) = SetPartitionMigration st (pl_PartitionID item) (pl_TargetNode item) MIGRATION_COPYING (mc_router mc);
          mc = mc\<lparr>mc_router := r\<rparr>
      in case e of Some e \<Rightarrow> (mc, Some e) | None \<Rightarrow>
         case getStorageClient net (pl_SourceNode item) mc of (mc, Some e) \<Rightarrow> (mc, Some e) | (mc, None) \<Rightarrow>
         (case getStorageClient net (pl_TargetNode item) mc of (mc, Some e) \<Rightarrow> (mc, Some e) | (mc, None) \<Rightarrow>
          (set_mstate k (pl_PartitionID item) MIGRATION_COPYING mc, None)))"

text \<open>
  The loop over the chunks of the export; whatever error \<open>Recv\<close> reports ends it like the end of
  the stream. The result is the chunks that were sent.
\<close>

fun copy_chunks ::
    "(nat \<Rightarrow> err option) \<Rightarrow> nat \<Rightarrow> u32 \<Rightarrow> nat \<Rightarrow> int \<Rightarrow> SSTChunk list \<Rightarrow> SSTChunk list \<Rightarrow> ('s, 'n) MigrationController \<Rightarrow>
     ('s, 'n) MigrationController \<times> (err + SSTChunk list)" where
  "copy_chunks send k partitionID j totalBytes sent [] mc = (mc, Inr sent)"
| "copy_chunks send k partitionID j totalBytes sent (chunk # chunks) mc =
     (let mc = (if sst_total_size chunk > 0 \<and> pms_BytesTotal (state_of k partitionID mc) = 0
                then upd_migration k (\<lambda>migration. migration\<lparr>mg_BytesTotal := mg_BytesTotal migration + sst_total_size chunk\<rparr>)
                  (upd_state k partitionID (pms_BytesTotal_update (\<lambda>_. sst_total_size chunk)) mc)
                else mc)
      in case send j of Some e \<Rightarrow> (mc, Inl e) | None \<Rightarrow>
         let totalBytes = totalBytes + int (length (sst_data chunk));
             mc = upd_migration k (\<lambda>migration. migration\<lparr>mg_BytesCopied := mg_BytesCopied migration + int (length (sst_data chunk))\<rparr>)
               (upd_state k partitionID (pms_BytesCopied_update (\<lambda>_. totalBytes)) mc)
         in if sst_is_last chunk then (mc, Inr (sent @ [chunk]))
            else copy_chunks send k partitionID (Suc j) totalBytes (sent @ [chunk]) chunks mc)"

definition migrate_copy ::
    "('n, 'y) sst_net_scheme \<Rightarrow> nat \<Rightarrow> MigrationPlanItem \<Rightarrow> MigrationConfig \<Rightarrow> ('s, 'n) MigrationController \<Rightarrow>
     ('s, 'n) MigrationController \<times> err option" where
  "migrate_copy net k item config mc =
     (let exportReq = \<lparr>esq_partition_id = pl_PartitionID item, esq_bandwidth_limit = mcf_BandwidthLimit config\<rparr>;
          target = pl_TargetNode item
      in case sx_ExportSST net (pl_SourceNode item) exportReq (mc_net mc) of
           (n, Inl e) \<Rightarrow> (mc\<lparr>mc_net := n\<rparr>, Some e)
         | (n, Inr (chunks, fin)) \<Rightarrow>
             let mc = mc\<lparr>mc_net := n\<rparr> in
             case sx_IngestSST net target n of Some e \<Rightarrow> (mc, Some e) | None \<Rightarrow>
             (case copy_chunks (\<lambda>j. sx_Send net target j n) k (pl_PartitionID item) 0 0 [] chunks mc of
                (mc, Inl e) \<Rightarrow> (mc, Some e)
              | (mc, Inr sent) \<Rightarrow>
                  (case sx_CloseAndRecv net target sent (mc_net mc) of
                     (n, Inl e) \<Rightarrow> (mc\<lparr>mc_net := n\<rparr>, Some e)
                   | (n, Inr resp) \<Rightarrow>
                       (mc\<lparr>mc_net := n\<rparr>, if isr_success resp then None else Some (ErrText ''ingest failed'')))))"

definition migrate_switch ::
    "('s, 'x) Store_scheme \<Rightarrow> nat \<Rightarrow> MigrationPlanItem \<Rightarrow> ('s, 'n) MigrationController \<Rightarrow> ('s, 'n) MigrationController \<times> err option" where
  "migrate_switch st k item mc =
     (let mc = set_mstate k (pl_PartitionID item) MIGRATION_SWITCHING mc;
          (r, e) = CompleteMigration st (pl_PartitionID item) (pl_TargetNode item) (pl_IsPrimary item) (mc_router mc)
      in (mc\<lparr>mc_router := r\<rparr>, e))"

definition migratePartition ::
    "('s, 'x) Store_scheme \<Rightarrow> ('n, 'y) sst_net_scheme \<Rightarrow> nat \<Rightarrow> MigrationPlanItem \<Rightarrow> MigrationConfig \<Rightarrow> ('s, 'n) MigrationController \<Rightarrow>
     ('s, 'n) MigrationController \<times> err option" where
  "migratePartition st net k item config mc =
     (case migrate_prepare st net k item mc of (mc, Some e) \<Rightarrow> (mc, Some e) | (mc, None) \<Rightarrow>
      (case migrate_copy net k item config mc of (mc, Some e) \<Rightarrow> (mc, Some e) | (mc, None) \<Rightarrow>
       migrate_switch st k item mc))"

section \<open>Executing the plan\<close>

text \<open>One turn of the loop up to the semaphore; and the start of the goroutine, once there is room.\<close>

definition exec_loop :: "nat \<Rightarrow> ('s, 'n) MigrationController \<Rightarrow> ('s, 'n) MigrationController" where
  "exec_loop k mc =
     (let run = mc_runs mc ! k in
      if run_rest run = [] then upd_run k (run_phase_update (\<lambda>_. Run_wait)) mc
      else if run_cancelled run
      then upd_run k (run_phase_update (\<lambda>_. Run_returned)) (upd_migration k (set_status ''cancelled'') mc)
      else if mcf_PauseOnError (run_config run) \<and> run_paused run
      then upd_run k (run_phase_update (\<lambda>_. Run_wait)) (upd_migration k (set_status ''paused_on_error'') mc)
      else upd_run k (run_phase_update (\<lambda>_. Run_acquire)) mc)"

definition exec_start :: "nat \<Rightarrow> ('s, 'n) MigrationController \<Rightarrow> ('s, 'n) MigrationController" where
  "exec_start k mc = upd_run k (\<lambda>run. run\<lparr>run_rest := tl (run_rest run),
     run_active := run_active run @ [(hd (run_rest run), Go_prepare)], run_phase := Run_loop\<rparr>) mc"

text \<open>The deferred function: \<open>FailedPartitions > 0\<close> compares signed integers.\<close>

definition exec_return :: "nat \<Rightarrow> ('s, 'n) MigrationController \<Rightarrow> ('s, 'n) MigrationController" where
  "exec_return k mc =
     upd_run k (run_phase_update (\<lambda>_. Run_returned)) (upd_migration k (\<lambda>migration.
       if mg_Status migration = ''running''
       then set_status (if sint (mg_FailedPartitions migration) > 0 then ''completed_with_errors'' else ''completed'') migration
       else migration) mc)"

text \<open>One part of the \<open>j\<close>-th goroutine of the run; the last one counts the result and leaves the semaphore.\<close>

definition go_to :: "nat \<Rightarrow> nat \<Rightarrow> go_phase \<Rightarrow> ('s, 'n) MigrationController \<Rightarrow> ('s, 'n) MigrationController" where
  "go_to k j phase = upd_run k (\<lambda>run. run\<lparr>run_active := (run_active run)[j := (fst (run_active run ! j), phase)]\<rparr>)"

definition count_result :: "nat \<Rightarrow> MigrationPlanItem \<Rightarrow> err option \<Rightarrow> ('s, 'n) MigrationController \<Rightarrow> ('s, 'n) MigrationController" where
  "count_result k item e mc =
     (case e of
        Some e \<Rightarrow>
          upd_run k (\<lambda>run. run\<lparr>run_paused := run_paused run \<or> mcf_PauseOnError (run_config run)\<rparr>)
            (upd_migration k (\<lambda>migration. migration\<lparr>mg_FailedPartitions := mg_FailedPartitions migration + 1\<rparr>)
              (upd_state k (pl_PartitionID item) (\<lambda>state. state\<lparr>pms_State := MIGRATION_FAILED, pms_Error := ErrorText e\<rparr>) mc))
      | None \<Rightarrow>
          upd_migration k (\<lambda>migration. migration\<lparr>mg_CompletedPartitions := mg_CompletedPartitions migration + 1\<rparr>)
            (set_mstate k (pl_PartitionID item) MIGRATION_COMPLETE mc))"

definition remove_at :: "nat \<Rightarrow> 'a list \<Rightarrow> 'a list" where
  "remove_at j xs = take j xs @ drop (Suc j) xs"

definition exec_goroutine ::
    "('s, 'x) Store_scheme \<Rightarrow> ('n, 'y) sst_net_scheme \<Rightarrow> nat \<Rightarrow> nat \<Rightarrow> ('s, 'n) MigrationController \<Rightarrow> ('s, 'n) MigrationController" where
  "exec_goroutine st net k j mc =
     (case run_active (mc_runs mc ! k) ! j of
        (item, Go_prepare) \<Rightarrow>
          (case migrate_prepare st net k item mc of (mc, None) \<Rightarrow> go_to k j Go_copy mc | (mc, Some e) \<Rightarrow> go_to k j (Go_end (Some e)) mc)
      | (item, Go_copy) \<Rightarrow>
          (case migrate_copy net k item (run_config (mc_runs mc ! k)) mc of
             (mc, None) \<Rightarrow> go_to k j Go_switch mc | (mc, Some e) \<Rightarrow> go_to k j (Go_end (Some e)) mc)
      | (item, Go_switch) \<Rightarrow>
          (case migrate_switch st k item mc of (mc, e) \<Rightarrow> go_to k j (Go_end e) mc)
      | (item, Go_end e) \<Rightarrow>
          upd_run k (\<lambda>run. run\<lparr>run_active := remove_at j (run_active run)\<rparr>) (count_result k item e mc))"

text \<open>
  The steps of the controller: requests, the runs with their goroutines in any interleaving, and
  the watch and the storage nodes around it. A route table has at most \<open>TotalPartitions\<close> entries.
\<close>

inductive mc_step ::
    "('s, 'x) Store_scheme \<Rightarrow> ('n, 'y) sst_net_scheme \<Rightarrow> ('s, 'n) MigrationController \<Rightarrow> ('s, 'n) MigrationController \<Rightarrow> bool"
  for st :: "('s, 'x) Store_scheme" and net :: "('n, 'y) sst_net_scheme" where
    Step_Trigger: "(\<And>xs. mset (perm xs) = mset xs) \<Longrightarrow> mc_step st net mc (fst (TriggerRebalance st perm uuid req mc))"
  | Step_Cancel: "mc_step st net mc (fst (CancelMigration mc))"
  | Step_Close: "mc_step st net mc (mc_Close mc)"
  | Step_loop: "k < length (mc_runs mc) \<Longrightarrow> run_phase (mc_runs mc ! k) = Run_loop \<Longrightarrow> mc_step st net mc (exec_loop k mc)"
  | Step_start: "k < length (mc_runs mc) \<Longrightarrow> run_phase (mc_runs mc ! k) = Run_acquire \<Longrightarrow>
      int (length (run_active (mc_runs mc ! k))) < mcf_MaxConcurrent (run_config (mc_runs mc ! k)) \<Longrightarrow> mc_step st net mc (exec_start k mc)"
  | Step_return: "k < length (mc_runs mc) \<Longrightarrow> run_phase (mc_runs mc ! k) = Run_wait \<Longrightarrow> run_active (mc_runs mc ! k) = [] \<Longrightarrow>
      mc_step st net mc (exec_return k mc)"
  | Step_go: "k < length (mc_runs mc) \<Longrightarrow> j < length (run_active (mc_runs mc ! k)) \<Longrightarrow> mc_step st net mc (exec_goroutine st net k j mc)"
  | Step_watch: "length (rt_Partitions table) \<le> metadata_TotalPartitions \<Longrightarrow> mc_step st net mc (mc\<lparr>mc_router := route_event table (mc_router mc)\<rparr>)"
  | Step_nodes: "mc_step st net mc (mc\<lparr>mc_net := n\<rparr>)"

section \<open>What a plan is\<close>

lemma length_plan_partition: "length (plan_partition hashRing addrSet x) \<le> 2"
  by (simp add: plan_partition_def case_prod_beta Let_def)

lemma set_sort_plan [simp]: "mset (perm xs) = mset xs \<Longrightarrow> set (sort_plan perm xs) = set xs"
  by (metis mset_sort set_mset_mset sort_plan_def)

lemma length_calculateMigrationPlan:
  assumes "\<And>xs. mset (perm xs) = mset xs"
  shows "length (calculateMigrationPlan perm table nodes) \<le> 2 * length (rt_Partitions table)"
proof -
  have "length (concat (map (plan_partition hashRing addrSet) xs)) \<le> 2 * length xs" for hashRing addrSet xs
  proof (induction xs)
    case (Cons x xs)
    then show ?case
      using length_plan_partition [of hashRing addrSet x] by simp
  qed simp
  moreover have "length (perm xs) = length xs" for xs
    using assms by (metis size_mset)
  ultimately show ?thesis
    by (simp add: calculateMigrationPlan_def Let_def sort_plan_def)
qed

section \<open>Accounting\<close>

text \<open>The counts and the status of a migration.\<close>

definition core :: "Migration \<Rightarrow> nat \<times> nat \<times> nat \<times> string" where
  "core m = (unat (mg_TotalPartitions m), unat (mg_CompletedPartitions m), unat (mg_FailedPartitions m), mg_Status m)"

definition run_inv :: "migration_run \<Rightarrow> nat \<times> nat \<times> nat \<times> string \<Rightarrow> bool" where
  "run_inv run = (\<lambda>(total, completed, failed, status).
     int (length (run_active run)) \<le> max 0 (mcf_MaxConcurrent (run_config run)) \<and>
     completed + failed + length (run_active run) + length (run_rest run) = total \<and> total \<le> 2 * metadata_TotalPartitions \<and>
     (run_phase run = Run_acquire \<longrightarrow> run_rest run \<noteq> []) \<and>
     (run_phase run = Run_wait \<and> status = ''running'' \<longrightarrow> run_rest run = []) \<and>
     (status = ''running'' \<longrightarrow> run_phase run \<noteq> Run_returned) \<and>
     (status = ''completed'' \<longrightarrow> run_phase run = Run_returned \<and> completed = total) \<and>
     (status = ''completed_with_errors'' \<longrightarrow> run_phase run = Run_returned \<and> completed + failed = total \<and> 0 < failed))"

definition mc_inv :: "('s, 'n) MigrationController \<Rightarrow> bool" where
  "mc_inv mc \<longleftrightarrow> list_all2 run_inv (mc_runs mc) (map core (mc_migrations mc)) \<and>
     (\<forall>k. mc_currentMigration mc = Some k \<longrightarrow> k < length (mc_runs mc)) \<and> mc_cancelFunc mc = mc_currentMigration mc \<and>
     length (rt_Partitions (r_routeTable (mc_router mc))) \<le> metadata_TotalPartitions"

text \<open>The parts of a move touch neither the counts nor the runs nor the local route table.\<close>

definition same_counts :: "('s, 'n) MigrationController \<Rightarrow> ('s, 'n) MigrationController \<Rightarrow> bool" where
  "same_counts mc mc' \<longleftrightarrow> mc_runs mc' = mc_runs mc \<and> map core (mc_migrations mc') = map core (mc_migrations mc) \<and>
     mc_currentMigration mc' = mc_currentMigration mc \<and> mc_cancelFunc mc' = mc_cancelFunc mc \<and>
     r_routeTable (mc_router mc') = r_routeTable (mc_router mc)"

lemma same_counts_inv: "same_counts mc mc' \<Longrightarrow> mc_inv mc \<Longrightarrow> mc_inv mc'"
  by (simp add: same_counts_def mc_inv_def)

lemma same_counts_refl [simp, intro]: "same_counts mc mc"
  by (simp add: same_counts_def)

lemma same_counts_trans: "same_counts a b \<Longrightarrow> same_counts b c \<Longrightarrow> same_counts a c"
  by (simp add: same_counts_def)

lemma same_counts_upd [simp]:
  assumes "\<And>m. core (f m) = core m"
  shows "same_counts mc (upd_migration k f mc)"
proof -
  have "map core ((mc_migrations mc)[k := f (mc_migrations mc ! k)]) = map core (mc_migrations mc)"
    using assms by (cases "k < length (mc_migrations mc)") (simp_all add: map_update list_update_same_conv list_update_beyond)
  then show ?thesis
    by (simp add: same_counts_def upd_migration_def)
qed

lemma same_counts_fields [simp]:
  "same_counts mc (mc\<lparr>mc_net := n\<rparr>)" "same_counts mc (mc\<lparr>mc_storageConns := cs\<rparr>)"
  "r_routeTable r = r_routeTable (mc_router mc) \<Longrightarrow> same_counts mc (mc\<lparr>mc_router := r\<rparr>)"
  by (simp_all add: same_counts_def)

lemma same_counts_state [simp]: "same_counts mc (upd_state k i f mc)" "same_counts mc (set_mstate k i v mc)"
  by (simp_all add: upd_state_def set_mstate_def core_def)

lemma routeTable_frame:
  "SetPartitionMigration st i t v r = (r', e) \<Longrightarrow> r_routeTable r' = r_routeTable r"
  "CompleteMigration st i t b r = (r', e) \<Longrightarrow> r_routeTable r' = r_routeTable r"
  by (auto simp: SetPartitionMigration_def CompleteMigration_def save_table_def Let_def split: option.splits prod.splits)

lemma same_counts_client: "getStorageClient net a mc = (mc', e) \<Longrightarrow> same_counts mc mc'"
  by (auto simp: getStorageClient_def split: if_splits option.splits)

lemma same_counts_prepare: "migrate_prepare st net k item mc = (mc', e) \<Longrightarrow> same_counts mc mc'"
proof -
  let ?i = "pl_PartitionID item"
  define mc1 where "mc1 = set_mstate k ?i MIGRATION_PREPARING mc"
  obtain r e1 where r: "SetPartitionMigration st ?i (pl_TargetNode item) MIGRATION_COPYING (mc_router mc1) = (r, e1)"
    by force
  define mc2 where "mc2 = mc1\<lparr>mc_router := r\<rparr>"
  have 12: "same_counts mc mc2"
    using same_counts_trans [of mc mc1 mc2] routeTable_frame(1) [OF r] by (simp add: mc1_def mc2_def)
  obtain mc3 e3 where 3: "getStorageClient net (pl_SourceNode item) mc2 = (mc3, e3)"
    by force
  obtain mc4 e4 where 4: "getStorageClient net (pl_TargetNode item) mc3 = (mc4, e4)"
    by force
  have 34: "same_counts mc mc3" "same_counts mc mc4"
    using 12 same_counts_client [OF 3] same_counts_client [OF 4] same_counts_trans by blast+
  assume "migrate_prepare st net k item mc = (mc', e)"
  then have "mc' \<in> {mc2, mc3, mc4, set_mstate k ?i MIGRATION_COPYING mc4}"
    using r 3 4 by (auto simp: migrate_prepare_def mc1_def [symmetric] mc2_def [symmetric] split: option.splits)
  then show ?thesis
    using 12 34 same_counts_trans [OF 34(2) same_counts_state(2)] by auto
qed

lemma same_counts_copy_chunks: "copy_chunks send k i j b sent cs mc = (mc', r) \<Longrightarrow> same_counts mc mc'"
proof (induction cs arbitrary: j b sent mc)
  case (Cons c cs)
  define mc1 where "mc1 = (if sst_total_size c > 0 \<and> pms_BytesTotal (state_of k i mc) = 0
                then upd_migration k (\<lambda>migration. migration\<lparr>mg_BytesTotal := mg_BytesTotal migration + sst_total_size c\<rparr>)
                  (upd_state k i (pms_BytesTotal_update (\<lambda>_. sst_total_size c)) mc)
                else mc)"
  define mc2 where "mc2 = upd_migration k (\<lambda>migration. migration\<lparr>mg_BytesCopied := mg_BytesCopied migration + int (length (sst_data c))\<rparr>)
               (upd_state k i (pms_BytesCopied_update (\<lambda>_. b + int (length (sst_data c)))) mc1)"
  have 1: "same_counts mc mc1"
    unfolding mc1_def by (auto intro: same_counts_trans [OF same_counts_state(1) same_counts_upd] simp: core_def)
  have "same_counts mc1 mc2"
    unfolding mc2_def by (rule same_counts_trans [OF same_counts_state(1) same_counts_upd]) (simp add: core_def)
  with 1 have 2: "same_counts mc mc2"
    by (rule same_counts_trans)
  have step: "copy_chunks send k i j b sent (c # cs) mc =
      (case send j of Some e \<Rightarrow> (mc1, Inl e) | None \<Rightarrow>
       if sst_is_last c then (mc2, Inr (sent @ [c])) else copy_chunks send k i (Suc j) (b + int (length (sst_data c))) (sent @ [c]) cs mc2)"
    by (simp add: mc1_def mc2_def Let_def split: option.splits)
  show ?case
  proof (cases "send j = None \<and> \<not> sst_is_last c")
    case True
    then show ?thesis
      using Cons.IH Cons.prems 2 unfolding step by (simp, blast intro: same_counts_trans)
  next
    case False
    then show ?thesis
      using Cons.prems 1 2 unfolding step by (auto split: option.splits)
  qed
qed simp

lemma same_counts_copy: "migrate_copy net k item config mc = (mc', e) \<Longrightarrow> same_counts mc mc'"
proof -
  assume mc': "migrate_copy net k item config mc = (mc', e)"
  obtain n r where ex: "sx_ExportSST net (pl_SourceNode item)
      \<lparr>esq_partition_id = pl_PartitionID item, esq_bandwidth_limit = mcf_BandwidthLimit config\<rparr> (mc_net mc) = (n, r)"
    by force
  show ?thesis
  proof (cases r)
    case (Inl x)
    then show ?thesis
      using mc' ex by (auto simp: migrate_copy_def)
  next
    case (Inr x)
    then obtain cs fin where r: "r = Inr (cs, fin)"
      by force
    obtain mc1 r1 where cc: "copy_chunks (\<lambda>j. sx_Send net (pl_TargetNode item) j n) k (pl_PartitionID item) 0 0 [] cs (mc\<lparr>mc_net := n\<rparr>) = (mc1, r1)"
      by force
    have "same_counts mc mc1"
      using same_counts_trans [OF same_counts_fields(1) same_counts_copy_chunks [OF cc]] .
    moreover have "mc' = mc\<lparr>mc_net := n\<rparr> \<or> mc' = mc1 \<or> (\<exists>n'. mc' = mc1\<lparr>mc_net := n'\<rparr>)"
      using mc' ex r cc by (auto simp: migrate_copy_def Let_def split: option.splits sum.splits prod.splits)
    ultimately show ?thesis
      using same_counts_trans [OF _ same_counts_fields(1)] by auto
  qed
qed

lemma same_counts_switch: "migrate_switch st k item mc = (mc', e) \<Longrightarrow> same_counts mc mc'"
proof -
  define mc1 where "mc1 = set_mstate k (pl_PartitionID item) MIGRATION_SWITCHING mc"
  assume "migrate_switch st k item mc = (mc', e)"
  then obtain r where r: "CompleteMigration st (pl_PartitionID item) (pl_TargetNode item) (pl_IsPrimary item) (mc_router mc1) = (r, e)"
    "mc' = mc1\<lparr>mc_router := r\<rparr>"
    by (auto simp: migrate_switch_def mc1_def Let_def split: prod.splits)
  show ?thesis
    unfolding r(2) by (rule same_counts_trans [of _ mc1]) (simp_all add: mc1_def routeTable_frame(2) [OF r(1), unfolded mc1_def])
qed

text \<open>A step of one run.\<close>

lemma mc_inv_upd:
  assumes inv: "mc_inv mc" and k: "k < length (mc_runs mc)"
    and step: "run_inv (mc_runs mc ! k) (core (mc_migrations mc ! k)) \<Longrightarrow> run_inv (f (mc_runs mc ! k)) (core (g (mc_migrations mc ! k)))"
  shows "mc_inv (upd_run k f (upd_migration k g mc))"
proof -
  have "run_inv (mc_runs mc ! k) (core (mc_migrations mc ! k))"
    using inv k by (auto simp: mc_inv_def list_all2_conv_all_nth)
  then show ?thesis
    using inv step k by (auto simp: mc_inv_def upd_run_def upd_migration_def list_all2_conv_all_nth nth_list_update)
qed

lemma upd_migration_same [simp]: "upd_migration k (\<lambda>m. m) mc = mc"
  by (simp add: upd_migration_def)

lemma mc_inv_upd_run:
  assumes "mc_inv mc" and "k < length (mc_runs mc)"
    and "run_inv (mc_runs mc ! k) (core (mc_migrations mc ! k)) \<Longrightarrow> run_inv (f (mc_runs mc ! k)) (core (mc_migrations mc ! k))"
  shows "mc_inv (upd_run k f mc)"
  using mc_inv_upd [OF assms(1,2), of f "\<lambda>m. m"] assms(3) by simp

lemma mc_inv_Trigger:
  assumes "mc_inv mc" and "\<And>xs. mset (perm xs) = mset xs"
  shows "mc_inv (fst (TriggerRebalance st perm uuid req mc))"
proof -
  have "run_inv (new_run config plan) (core (new_migration i plan))" if "length plan \<le> 2 * metadata_TotalPartitions" for config plan i
  proof -
    have "unat (of_nat (length plan) :: 32 word) = length plan"
      using that by (intro unat_of_nat_u32) (simp add: metadata_TotalPartitions_def)
    then show ?thesis
      using that by (simp add: run_inv_def new_run_def core_def new_migration_def)
  qed
  moreover have "length (calculateMigrationPlan perm (r_routeTable (mc_router mc)) nodes) \<le> 2 * metadata_TotalPartitions" for nodes
    using length_calculateMigrationPlan [of perm "r_routeTable (mc_router mc)" nodes] assms by (auto simp: mc_inv_def)
  ultimately show ?thesis
    using assms(1) by (auto simp: TriggerRebalance_def Let_def mc_inv_def list_all2_lengthD intro!: list_all2_appendI split: sum.splits)
qed

lemma run_inv_count:
  assumes "run_inv run (core m)" and "j < length (run_active run)"
  shows "run_inv (run\<lparr>run_active := remove_at j (run_active run)\<rparr>) (core (m\<lparr>mg_CompletedPartitions := mg_CompletedPartitions m + 1\<rparr>))"
    and "run_inv (run\<lparr>run_paused := b, run_active := remove_at j (run_active run)\<rparr>) (core (m\<lparr>mg_FailedPartitions := mg_FailedPartitions m + 1\<rparr>))"
proof -
  have bounds: "unat (mg_CompletedPartitions m) < 2 ^ 16" "unat (mg_FailedPartitions m) < 2 ^ 16"
    using assms by (auto simp: run_inv_def core_def metadata_TotalPartitions_def)
  have plus: "unat (x + 1) = Suc (unat x)" if "unat x < 2 ^ 16" for x :: i32
  proof -
    have "x \<noteq> -1"
      using that by (auto simp: unsigned_minus_1_eq_mask mask_eq_exp_minus_1)
    then show ?thesis
      by (rule unat_add_1)
  qed
  obtain l where "length (run_active run) = Suc l" "length (remove_at j (run_active run)) = l"
    using assms(2) by (cases "length (run_active run)") (auto simp: remove_at_def)
  then show "run_inv (run\<lparr>run_active := remove_at j (run_active run)\<rparr>) (core (m\<lparr>mg_CompletedPartitions := mg_CompletedPartitions m + 1\<rparr>))"
    "run_inv (run\<lparr>run_paused := b, run_active := remove_at j (run_active run)\<rparr>) (core (m\<lparr>mg_FailedPartitions := mg_FailedPartitions m + 1\<rparr>))"
    using assms(1) bounds by (auto simp: run_inv_def core_def plus)
qed

lemma upd_run_twice: "k < length (mc_runs mc) \<Longrightarrow> upd_run k f (upd_run k g mc) = upd_run k (\<lambda>run. f (g run)) mc"
  by (simp add: upd_run_def)

lemma mc_runs_upd_migration [simp]: "mc_runs (upd_migration k f mc) = mc_runs mc"
  by (simp add: upd_migration_def)

lemma mc_inv_go_to:
  assumes "mc_inv mc" and "k < length (mc_runs mc)" and "j < length (run_active (mc_runs mc ! k))"
  shows "mc_inv (go_to k j phase mc)"
  unfolding go_to_def by (rule mc_inv_upd_run [OF assms(1,2)]) (simp add: run_inv_def)

lemma mc_inv_exec_loop:
  assumes "mc_inv mc" and "k < length (mc_runs mc)" and "run_phase (mc_runs mc ! k) = Run_loop"
  shows "mc_inv (exec_loop k mc)"
  using assms(3) unfolding exec_loop_def Let_def
  by (auto intro!: mc_inv_upd [OF assms(1,2)] mc_inv_upd_run [OF assms(1,2)] simp: run_inv_def core_def set_status_def)

lemma mc_inv_exec_return:
  assumes "mc_inv mc" and "k < length (mc_runs mc)" and "run_phase (mc_runs mc ! k) = Run_wait" and "run_active (mc_runs mc ! k) = []"
  shows "mc_inv (exec_return k mc)"
  unfolding exec_return_def
proof (rule mc_inv_upd [OF assms(1,2)])
  let ?m = "mc_migrations mc ! k"
  assume inv: "run_inv (mc_runs mc ! k) (core ?m)"
  have "unat (mg_FailedPartitions ?m) < 2 ^ 31"
    using inv by (auto simp: run_inv_def core_def metadata_TotalPartitions_def)
  then have "int (unat (mg_FailedPartitions ?m)) < int (2 ^ 31)"
    by (simp only: of_nat_less_iff)
  then have "sint (mg_FailedPartitions ?m) = uint (mg_FailedPartitions ?m)"
    using signed_take_bit_int_eq_self [of 31 "uint (mg_FailedPartitions ?m)"] order_trans [OF _ uint_ge_0, of "- (2 ^ 31)" "mg_FailedPartitions ?m"]
    by (simp add: sint_uint)
  then have "sint (mg_FailedPartitions ?m) > 0 \<longleftrightarrow> unat (mg_FailedPartitions ?m) > 0"
    by (simp only: uint_nat of_nat_0_less_iff)
  with inv assms(3,4) show "run_inv (run_phase_update (\<lambda>_. Run_returned) (mc_runs mc ! k))
      (core (if mg_Status ?m = ''running''
        then set_status (if sint (mg_FailedPartitions ?m) > 0 then ''completed_with_errors'' else ''completed'') ?m else ?m))"
    by (auto simp: run_inv_def core_def set_status_def)
qed

lemma mc_inv_count_result:
  assumes inv: "mc_inv mc" and k: "k < length (mc_runs mc)" and j: "j < length (run_active (mc_runs mc ! k))"
  shows "mc_inv (upd_run k (\<lambda>run. run\<lparr>run_active := remove_at j (run_active run)\<rparr>) (count_result k item e mc))"
proof (cases e)
  case None
  let ?mc = "set_mstate k (pl_PartitionID item) MIGRATION_COMPLETE mc"
  have mc: "mc_inv ?mc" "mc_runs ?mc = mc_runs mc"
    using same_counts_inv [OF same_counts_state(2) inv] same_counts_state(2) [of mc k] by (simp_all add: same_counts_def)
  show ?thesis
    unfolding count_result_def None option.case
    using run_inv_count(1) [of "mc_runs ?mc ! k" _ j] k j mc by (auto intro!: mc_inv_upd)
next
  case (Some x)
  let ?mc = "upd_state k (pl_PartitionID item) (\<lambda>state. state\<lparr>pms_State := MIGRATION_FAILED, pms_Error := ErrorText x\<rparr>) mc"
  have mc: "mc_inv ?mc" "mc_runs ?mc = mc_runs mc"
    using same_counts_inv [OF same_counts_state(1) inv] same_counts_state(1) [of mc k] by (simp_all add: same_counts_def)
  have "mc_inv (upd_run k (\<lambda>run. run\<lparr>run_paused := run_paused run \<or> mcf_PauseOnError (run_config run), run_active := remove_at j (run_active run)\<rparr>)
      (upd_migration k (\<lambda>migration. migration\<lparr>mg_FailedPartitions := mg_FailedPartitions migration + 1\<rparr>) ?mc))"
    using run_inv_count(2) [of "mc_runs ?mc ! k" _ j] k j mc by (intro mc_inv_upd) auto
  then show ?thesis
    using k mc by (simp add: count_result_def Some upd_run_twice)
qed

lemma mc_inv_goroutine:
  assumes inv: "mc_inv mc" and k: "k < length (mc_runs mc)" and j: "j < length (run_active (mc_runs mc ! k))"
  shows "mc_inv (exec_goroutine st net k j mc)"
proof -
  have go: "mc_inv (go_to k j phase mc')" if "same_counts mc mc'" for mc' phase
    using same_counts_inv [OF that inv] that k j by (intro mc_inv_go_to) (simp_all add: same_counts_def)
  obtain item phase where at: "run_active (mc_runs mc ! k) ! j = (item, phase)"
    by force
  show ?thesis
  proof (cases phase)
    case Go_prepare
    then show ?thesis
      using go at by (auto simp: exec_goroutine_def dest: same_counts_prepare split: prod.splits option.splits)
  next
    case Go_copy
    then show ?thesis
      using go at by (auto simp: exec_goroutine_def dest: same_counts_copy split: prod.splits option.splits)
  next
    case Go_switch
    then show ?thesis
      using go at by (auto simp: exec_goroutine_def dest: same_counts_switch split: prod.splits option.splits)
  next
    case (Go_end e)
    then show ?thesis
      using mc_inv_count_result [OF assms] at by (simp add: exec_goroutine_def)
  qed
qed

lemma mc_inv_Cancel:
  assumes "mc_inv mc"
  shows "mc_inv (fst (CancelMigration mc))"
proof (cases "mc_running mc")
  case True
  then obtain k where cur: "mc_currentMigration mc = Some k" "mg_Status (mc_migrations mc ! k) = ''running''"
    by (auto simp: mc_running_def split: option.splits)
  then have k: "k < length (mc_runs mc)" "mc_cancelFunc mc = Some k"
    using assms by (auto simp: mc_inv_def)
  have "mc_inv (upd_run k (run_cancelled_update (\<lambda>_. True)) (upd_migration k (set_status ''cancelled'') mc))"
    using cur by (intro mc_inv_upd [OF assms k(1)]) (auto simp: run_inv_def core_def set_status_def)
  moreover have "fst (CancelMigration mc) = upd_run k (run_cancelled_update (\<lambda>_. True)) (upd_migration k (set_status ''cancelled'') mc)"
    using True cur k by (simp add: CancelMigration_def upd_run_def upd_migration_def Let_def)
  ultimately show ?thesis
    by simp
qed (use assms in \<open>simp add: CancelMigration_def\<close>)

lemma mc_inv_step: "mc_step st net mc mc' \<Longrightarrow> mc_inv mc \<Longrightarrow> mc_inv mc'"
proof (induction rule: mc_step.induct)
  case (Step_start k mc)
  then show ?case
    unfolding exec_start_def by (intro mc_inv_upd_run) (auto simp: run_inv_def neq_Nil_conv)
next
  case (Step_watch table mc)
  then show ?case
    by (simp add: mc_inv_def)
qed (simp_all add: mc_inv_Trigger mc_inv_Cancel mc_inv_exec_loop mc_inv_exec_return mc_inv_goroutine same_counts_inv [of _ "_\<lparr>mc_net := _\<rparr>"]
    same_counts_inv [OF same_counts_fields(2)] mc_Close_def same_counts_inv [OF same_counts_fields(1)])

section \<open>The effect of a plan\<close>

text \<open>The moves of a plan one after the other, with the watch after each.\<close>

definition apply_plan :: "('s, 'x) Store_scheme \<Rightarrow> ('s Router \<Rightarrow> 's Router) \<Rightarrow> MigrationPlanItem list \<Rightarrow> 's Router \<Rightarrow> 's Router" where
  "apply_plan st watch = fold (\<lambda>item r.
     watch (fst (CompleteMigration st (pl_PartitionID item) (pl_TargetNode item) (pl_IsPrimary item) r)))"

definition move_item :: "MigrationPlanItem \<Rightarrow> PartitionInfo \<Rightarrow> PartitionInfo" where
  "move_item item = moved (pl_IsPrimary item) (pl_TargetNode item)"

context meta_store
begin

lemma apply_plan_effect:
  assumes "serves st ok" and "keeps_up holds watch" and "in_sync holds r" and "ok (r_store r)"
    and "\<forall>item \<in> set plan. ptab r (pl_PartitionID item) \<noteq> None"
  shows "in_sync holds (apply_plan st watch plan r) \<and> ok (r_store (apply_plan st watch plan r)) \<and>
    ptab (apply_plan st watch plan r) = (\<lambda>i. map_option (fold move_item (filter (\<lambda>item. pl_PartitionID item = i) plan)) (ptab r i))"
  using assms(3-5)
proof (induction plan arbitrary: r)
  case Nil
  then show ?case
    by (simp add: apply_plan_def option.map_ident)
next
  case (Cons item plan)
  let ?i = "pl_PartitionID item"
  obtain r1 e where cm: "CompleteMigration st ?i (pl_TargetNode item) (pl_IsPrimary item) r = (r1, e)"
    by force
  obtain p where p: "ptab r ?i = Some (plain p)"
    using Cons.prems(3) ptab_SomeD [of r ?i] by fastforce
  note step = complete_step [OF assms(1) Cons.prems(2) assms(2) Cons.prems(1) p cm]
  have tab: "ptab (watch r1) = (ptab r)(?i \<mapsto> move_item item (plain p))"
    using step by (simp add: move_item_def)
  have "\<forall>item \<in> set plan. ptab (watch r1) (pl_PartitionID item) \<noteq> None"
    using Cons.prems(3) by (simp add: tab)
  from Cons.IH [OF _ _ this] step have IH: "in_sync holds (apply_plan st watch plan (watch r1)) \<and> ok (r_store (apply_plan st watch plan (watch r1))) \<and>
    ptab (apply_plan st watch plan (watch r1)) = (\<lambda>i. map_option (fold move_item (filter (\<lambda>item. pl_PartitionID item = i) plan)) (ptab (watch r1) i))"
    by blast
  have "apply_plan st watch (item # plan) r = apply_plan st watch plan (watch r1)"
    by (simp add: apply_plan_def cm)
  then show ?case
    using IH p by (auto simp: tab fun_eq_iff)
qed

end

text \<open>The items of one partition in a plan.\<close>

lemma plan_partition_ID: "item \<in> set (plan_partition ring A (i, p)) \<Longrightarrow> pl_PartitionID item = i"
  by (auto simp: plan_partition_def Let_def split: prod.splits if_splits)

lemma filter_plan_partition:
  assumes "distinct (map fst table)"
  shows "filter (\<lambda>item. pl_PartitionID item = i) (concat (map (plan_partition ring A) table)) =
    (case map_of table i of None \<Rightarrow> [] | Some p \<Rightarrow> plan_partition ring A (i, p))"
  using assms
proof (induction table)
  case (Cons x table)
  obtain j p where x: "x = (j, p)"
    by force
  have "filter (\<lambda>item. pl_PartitionID item = i) (plan_partition ring A (j, p)) = (if j = i then plan_partition ring A (j, p) else [])"
    using plan_partition_ID [of _ ring A j p] by (auto simp: filter_id_conv filter_empty_conv)
  moreover have "map_of table j = None" if "j = i"
    using Cons.prems x by (simp add: map_of_eq_None_iff)
  ultimately show ?case
    using Cons by (auto simp: x)
qed simp

lemma filter_sort_plan:
  assumes "\<And>xs. mset (perm xs) = mset xs" and "distinct (map fst table)"
  shows "mset (filter (\<lambda>item. pl_PartitionID item = i) (sort_plan perm (concat (map (plan_partition ring A) table)))) =
    mset (case map_of table i of None \<Rightarrow> [] | Some p \<Rightarrow> plan_partition ring A (i, p))"
  using assms(1) by (simp add: sort_plan_def mset_filter flip: filter_plan_partition [OF assms(2)])

lemma plan_partition_plain [simp]: "plan_partition ring A (i, plain p) = plan_partition ring A (i, p)"
  by (simp add: plan_partition_def cong: if_cong split: prod.split)

lemma moves_of_partition:
  assumes xs: "mset xs = mset (plan_partition ring A (i, p))" and ring: "GetNodes ring i = (np, nr)" and "nr \<noteq> np"
  shows "pi_Primary (fold move_item xs p) = np"
    and "pi_Primary p = np \<Longrightarrow> pi_Replica (fold move_item xs p) = nr"
    and "pi_Primary p \<noteq> np \<Longrightarrow> pi_Primary p \<noteq> nr \<Longrightarrow> pi_Replica p = nr \<Longrightarrow> pi_Replica (fold move_item xs p) = pi_Primary p"
    and "pi_Epoch (fold move_item xs p) = (if pi_Primary p = np then pi_Epoch p else pi_Epoch p + 1)"
proof -
  let ?prim = "pi_Primary p \<noteq> np" and ?repl = "pi_Replica p \<noteq> nr \<and> pi_Primary p \<noteq> nr"
  define x where "x = \<lparr>pl_PartitionID = i, pl_SourceNode = pi_Primary p, pl_TargetNode = np, pl_IsPrimary = True,
    pl_Priority = (if pi_Primary p \<notin> A then PRIORITY_HIGH else PRIORITY_NORMAL)\<rparr>"
  define y where "y = \<lparr>pl_PartitionID = i, pl_SourceNode = pi_Replica p, pl_TargetNode = nr, pl_IsPrimary = False,
    pl_Priority = (if pi_Replica p \<notin> A then PRIORITY_NORMAL else PRIORITY_LOW)\<rparr>"
  have items: "plan_partition ring A (i, p) = (if ?prim then [x] else []) @ (if ?repl then [y] else [])"
    unfolding plan_partition_def case_prod_conv ring x_def y_def Let_def by (cases "pi_Replica p = np") simp_all
  have "xs = plan_partition ring A (i, p) \<or> xs = rev (plan_partition ring A (i, p))"
  proof (cases "?prim \<and> ?repl")
    case True
    then have two: "mset xs = {#x, y#}"
      using xs items by simp
    then have "length xs = 2"
      by (metis size_mset size_add_mset size_empty numeral_2_eq_2)
    with two show ?thesis
      using True items by (auto simp: length_Suc_conv numeral_2_eq_2 add_eq_conv_ex)
  next
    case False
    then show ?thesis
      using xs items by (auto split: if_splits)
  qed
  then show "pi_Primary (fold move_item xs p) = np"
    and "pi_Primary p = np \<Longrightarrow> pi_Replica (fold move_item xs p) = nr"
    and "pi_Primary p \<noteq> np \<Longrightarrow> pi_Primary p \<noteq> nr \<Longrightarrow> pi_Replica p = nr \<Longrightarrow> pi_Replica (fold move_item xs p) = pi_Primary p"
    and "pi_Epoch (fold move_item xs p) = (if pi_Primary p = np then pi_Epoch p else pi_Epoch p + 1)"
    using assms(3) unfolding items by (auto simp: x_def y_def move_item_def moved_def)
qed

context meta_store
begin

lemma rebalance_round:
  assumes "serves st ok" and "keeps_up holds watch" and sync: "in_sync holds r" and "ok (r_store r)"
    and perm: "\<And>xs. mset (perm xs) = mset xs" and "MinReplicaNodes \<le> length (filter is_online nodes)"
  defines "r1 \<equiv> apply_plan st watch (calculateMigrationPlan perm (r_routeTable r) nodes) r"
  shows "in_sync holds r1" and "ok (r_store r1)"
    and "parts r i = Some p \<Longrightarrow> \<exists>xs p1. mset xs = mset (plan_partition (plan_ring (filter is_online nodes)) (ni_Addr ` set (filter is_online nodes)) (i, p)) \<and>
      parts r1 i = Some p1 \<and> plain p1 = fold move_item xs (plain p)"
    and "parts r1 i \<noteq> None \<Longrightarrow> parts r i \<noteq> None"
proof -
  let ?ring = "plan_ring (filter is_online nodes)" and ?A = "ni_Addr ` set (filter is_online nodes)"
  let ?plan = "sort_plan perm (concat (map (plan_partition ?ring ?A) (rt_Partitions (r_routeTable r))))"
  have plan: "calculateMigrationPlan perm (r_routeTable r) nodes = ?plan"
    using assms(6) by (auto simp: calculateMigrationPlan_def MinReplicaNodes_def Let_def)
  have dist: "distinct (map fst (rt_Partitions (r_routeTable r)))"
    by (rule sync [unfolded in_sync_def, THEN conjunct2])
  have "ptab r (pl_PartitionID item) \<noteq> None" if item: "item \<in> set ?plan" for item
  proof -
    obtain j q where "(j, q) \<in> set (rt_Partitions (r_routeTable r))" "item \<in> set (plan_partition ?ring ?A (j, q))"
      using item perm by auto
    then show ?thesis
      using plan_partition_ID [of item ?ring ?A j q] dist by (simp add: ptab_def)
  qed
  then have eff: "in_sync holds r1 \<and> ok (r_store r1) \<and>
      ptab r1 = (\<lambda>i. map_option (fold move_item (filter (\<lambda>item. pl_PartitionID item = i) ?plan)) (ptab r i))"
    unfolding r1_def plan using apply_plan_effect [OF assms(1,2) sync assms(4)] by blast
  then show "in_sync holds r1" "ok (r_store r1)"
    by blast+
  have "(ptab r1 i = None) = (ptab r i = None)"
    using eff by simp
  then show "parts r1 i \<noteq> None \<Longrightarrow> parts r i \<noteq> None"
    unfolding ptab_def by (simp only: option.map_disc_iff) blast
  show "\<exists>xs p1. mset xs = mset (plan_partition ?ring ?A (i, p)) \<and> parts r1 i = Some p1 \<and> plain p1 = fold move_item xs (plain p)"
    if p: "parts r i = Some p"
  proof -
    have "mset (filter (\<lambda>item. pl_PartitionID item = i) ?plan) = mset (plan_partition ?ring ?A (i, p))"
      using filter_sort_plan [OF perm dist, of i ?ring ?A] p by simp
    moreover have "ptab r1 i = Some (fold move_item (filter (\<lambda>item. pl_PartitionID item = i) ?plan) (plain p))"
      using eff p by (simp add: ptab_def)
    ultimately show ?thesis
      using ptab_SomeD by metis
  qed
qed

end

lemma plan_empty:
  assumes "\<And>xs. mset (perm xs) = mset xs"
    and "\<And>i p. (i, p) \<in> set (rt_Partitions table) \<Longrightarrow> GetNodes (plan_ring (filter is_online nodes)) i = (pi_Primary p, pi_Replica p)"
  shows "calculateMigrationPlan perm table nodes = []"
proof -
  have "concat (map (plan_partition (plan_ring (filter is_online nodes)) A) (rt_Partitions table)) = []" for A
    using assms(2) by (auto simp: plan_partition_def)
  moreover have "perm [] = []"
    using assms(1) [of "[]"] by simp
  ultimately have "sort_plan perm (concat (map (plan_partition (plan_ring (filter is_online nodes)) A) (rt_Partitions table))) = []" for A
    unfolding sort_plan_def by (metis list.size(3) length_0_conv length_sort)
  then show ?thesis
    by (simp add: calculateMigrationPlan_def Let_def)
qed

section \<open>Properties\<close>





text \<open>
  C35. The controller takes every error of the export stream for its end. When the source does
  not hold the partition, its handler answers \<open>NotFound\<close> and no data is sent; the empty stream is
  ingested with success, and the partition is switched to a target that got nothing.
\<close>

theorem failed_export_still_switches:
  assumes "sst_service eng view net servers" and "meta_store st holds" and "serves st ok" and "keeps_up holds watch"
    and prep: "migrate_prepare st net k item mc = (mc1, None)" and "ok (r_store (mc_router mc1))" and "in_sync holds (mc_router mc1)"
    and p: "parts (mc_router mc1) (pl_PartitionID item) = Some p"
    and lacks: "\<not> HasPartition (srv_pm (servers (mc_net mc1) (pl_SourceNode item))) (pl_PartitionID item)"
    and ex: "sx_ExportSST net (pl_SourceNode item)
      \<lparr>esq_partition_id = pl_PartitionID item, esq_bandwidth_limit = mcf_BandwidthLimit config\<rparr> (mc_net mc1) = (n1, Inr stream)"
    and ing: "sx_IngestSST net (pl_TargetNode item) n1 = None" and cl: "sx_CloseAndRecv net (pl_TargetNode item) [] n1 = (n2, Inr resp)"
  shows "\<exists>mc' p'. migratePartition st net k item config mc = (mc', None) \<and> servers (mc_net mc') = servers (mc_net mc1) \<and>
    parts (watch (mc_router mc')) (pl_PartitionID item) = Some p' \<and>
    (if pl_IsPrimary item then pi_Primary p' else pi_Replica p') = pl_TargetNode item"
proof -
  let ?i = "pl_PartitionID item"
  obtain cs fin where stream: "stream = (cs, fin)"
    by force
  from sst_service.Export_stream [OF assms(1) ex [unfolded stream]] obtain io send now s' cs0 e where
    "ExportSST eng io send now \<lparr>esq_partition_id = ?i, esq_bandwidth_limit = mcf_BandwidthLimit config\<rparr> (servers (mc_net mc1) (pl_SourceNode item)) = (s', cs0, e)"
    and n1: "servers n1 = (servers (mc_net mc1))(pl_SourceNode item := s')" and pre: "prefix cs cs0"
    by blast
  then have "s' = servers (mc_net mc1) (pl_SourceNode item)" "cs0 = []"
    using lacks by (auto simp: ExportSST_def)
  with n1 pre have n1: "servers n1 = servers (mc_net mc1)" and cs: "cs = []"
    by simp_all
  from sst_service.Ingest_answer [OF assms(1) cl] have n2: "servers n2 = servers n1" "isr_success resp"
    by (auto simp: IngestSST_def)
  have copy: "migrate_copy net k item config mc1 = (mc1\<lparr>mc_net := n2\<rparr>, None)"
    using ex stream cs ing cl n2(2) by (simp add: migrate_copy_def)
  define mc2 where "mc2 = set_mstate k ?i MIGRATION_SWITCHING (mc1\<lparr>mc_net := n2\<rparr>)"
  have mc2: "mc_router mc2 = mc_router mc1" "mc_net mc2 = n2"
    by (simp_all add: mc2_def set_mstate_def upd_state_def upd_migration_def)
  obtain r1 e where cm: "CompleteMigration st ?i (pl_TargetNode item) (pl_IsPrimary item) (mc_router mc1) = (r1, e)"
    by force
  have "ptab (mc_router mc1) ?i = Some (plain p)"
    using p by (simp add: ptab_def)
  note step = meta_store.complete_step [OF assms(2,3,6,4,7) this cm]
  then have "ptab (watch r1) ?i = Some (moved (pl_IsPrimary item) (pl_TargetNode item) p)"
    by simp
  then obtain p' where p': "parts (watch r1) ?i = Some p'" "moved (pl_IsPrimary item) (pl_TargetNode item) p = plain p'"
    using ptab_SomeD by metis
  have "(if pl_IsPrimary item then pi_Primary p' else pi_Replica p') = pl_TargetNode item"
    using arg_cong [OF p'(2), of pi_Primary] arg_cong [OF p'(2), of pi_Replica] by (simp add: moved_def split: if_splits)
  moreover have "migratePartition st net k item config mc = (mc2\<lparr>mc_router := r1\<rparr>, None)"
    using step by (simp add: migratePartition_def prep copy migrate_switch_def mc2_def [symmetric] mc2 cm)
  ultimately show ?thesis
    using p'(1) n1 n2(1) mc2 by simp
qed

definition example_item :: MigrationPlanItem where
  "example_item = \<lparr>pl_PartitionID = 1, pl_SourceNode = ''a'', pl_TargetNode = ''b'', pl_IsPrimary = True, pl_Priority = PRIORITY_NORMAL\<rparr>"

theorem failed_export_still_switches_witness:
  "let mc = (NewMigrationController None failover_router example_nodes)\<lparr>mc_migrations := [new_migration ''m'' [example_item]]\<rparr>;
       mc' = fst (migratePartition (EtcdStore (mem_etcd None)) (node_net (mem_sst None) quiet_io (\<lambda>_. None)) 0 example_item DefaultMigrationConfig mc)
   in \<exists>p'. parts (mem_watch (mc_router mc')) 1 = Some p' \<and> pi_Primary p' = ''b'' \<and> mc_net mc' = example_nodes"
proof -
  let ?st = "EtcdStore (mem_etcd None)" and ?net = "node_net (mem_sst None) quiet_io (\<lambda>_. None)"
  define mc where "mc = (NewMigrationController None failover_router example_nodes)\<lparr>mc_migrations := [new_migration ''m'' [example_item]]\<rparr>"
  define mc1 where "mc1 = fst (migrate_prepare ?st ?net 0 example_item mc)"
  let ?r = "fst (SetPartitionMigration ?st 1 ''b'' MIGRATION_COPYING failover_router)"
  have r: "snd (SetPartitionMigration ?st 1 ''b'' MIGRATION_COPYING failover_router) = None" "r_routeTable ?r = example_table"
    "r_store ?r = AList.update (migrationPrefix @ digits 1)
       (JMigration \<lparr>mi_PartitionID = 1, mi_Target = ''b'', mi_State = MIGRATION_COPYING, mi_IsPrimaryMove = True\<rparr>) failover_store"
    by (simp_all add: SetPartitionMigration_def failover_router_def NewRouter_def example_table_def example_partition_def EtcdStore_def
        es_SetMigrationState_def mem_etcd_def)
  have prep: "migrate_prepare ?st ?net 0 example_item mc = (mc1, None)" "mc_router mc1 = ?r" "mc_net mc1 = example_nodes"
    using r(1) by (auto simp: mc1_def migrate_prepare_def mc_def NewMigrationController_def set_mstate_def upd_state_def upd_migration_def
        example_item_def getStorageClient_def node_net_def split: prod.splits)
  have store: "well_kinded (r_store ?r)" "in_sync (\<lambda>s. etcd_abs (map_of s)) ?r"
    using r(2) by (simp_all add: r(3) well_kinded_def in_sync_def etcd_abs_def failover_store_def example_table_def update_conv')
  have item: "pl_PartitionID example_item = 1" "pl_SourceNode example_item = ''a''" "pl_TargetNode example_item = ''b''" "pl_IsPrimary example_item"
    by (simp_all add: example_item_def)
  have part: "parts ?r 1 = Some (example_partition 1)"
    by (simp add: r(2) example_table_def)
  have lacks: "\<not> HasPartition (srv_pm (example_nodes ''a'')) 1"
    by (simp add: HasPartition_def example_nodes_def example_server_def)
  then have ex: "sx_ExportSST ?net ''a'' \<lparr>esq_partition_id = 1, esq_bandwidth_limit = mcf_BandwidthLimit DefaultMigrationConfig\<rparr> example_nodes =
      (example_nodes, Inr ([], ErrStatus Code_Internal (ErrStatus Code_NotFound (ErrPartitionNotFound 1))))"
    by (simp add: node_net_def ExportSST_def)
  have cl: "sx_CloseAndRecv ?net ''b'' [] example_nodes = (example_nodes, Inr \<lparr>isr_success = True, isr_keys_ingested = 0\<rparr>)"
    "sx_IngestSST ?net ''b'' example_nodes = None"
    by (simp_all add: node_net_def IngestSST_def)
  have "\<exists>mc' p'. migratePartition ?st ?net 0 example_item DefaultMigrationConfig mc = (mc', None) \<and> id (mc_net mc') = id (mc_net mc1) \<and>
      parts (mem_watch (mc_router mc')) 1 = Some p' \<and> (if True then pi_Primary p' else pi_Replica p') = ''b''"
    using failed_export_still_switches [OF mem_nodes.sst_service_axioms failover_example(1) well_kinded_serves failover_example(2) prep(1),
        of "example_partition 1" DefaultMigrationConfig example_nodes _ example_nodes, unfolded prep(2,3) item id_apply, OF store part lacks ex cl(2,1)] item(4) prep(3)
    by simp
  then show ?thesis
    by (auto simp: Let_def mc_def [symmetric] prep(3))
qed

end
