(* ===== verification/Meta_Server.thy ===== *)
theory Meta_Server
  imports Meta_Migration Compute
begin

text \<open>
  The metadata service, \<open>src/pkg/metadata/server.go\<close>, with the leader election and the
  highly available server of \<open>leader.go\<close> and \<open>ha_server.go\<close>; and what its route tables mean for
  the storage and the compute nodes that get them.

  The router, with the store in it, is part of the migration controller's state. The metric of the
  number of nodes is a function; logging and the metrics of requests are not represented.
\<close>

section \<open>State\<close>

record ('s, 'n) meta_Server =
  msv_NodeID :: NodeID
  msv_controller :: "('s, 'n) MigrationController"
  msv_subscribers :: "NodeID list"
  msv_nodeCount :: "string \<Rightarrow> int"
  msv_rebalances :: nat

text \<open>\<open>msv_rebalances\<close> is the number of rebalancing goroutines that forced shutdowns have started.\<close>

abbreviation msv_router :: "('s, 'n) meta_Server \<Rightarrow> 's Router" where
  "msv_router s \<equiv> mc_router (msv_controller s)"

abbreviation msv_store :: "('s, 'n) meta_Server \<Rightarrow> 's" where
  "msv_store s \<equiv> r_store (msv_router s)"

definition set_router :: "'s Router \<Rightarrow> ('s, 'n) meta_Server \<Rightarrow> ('s, 'n) meta_Server" where
  "set_router r s = s\<lparr>msv_controller := (msv_controller s)\<lparr>mc_router := r\<rparr>\<rparr>"

definition set_store :: "'s \<Rightarrow> ('s, 'n) meta_Server \<Rightarrow> ('s, 'n) meta_Server" where
  "set_store store s = set_router ((msv_router s)\<lparr>r_store := store\<rparr>) s"

text \<open>\<open>store\<close> is the result of connecting to etcd, \<open>n\<close> the storage nodes.\<close>

definition meta_NewServer :: "NodeID \<Rightarrow> err + 's \<Rightarrow> 'n \<Rightarrow> (string \<Rightarrow> int) \<Rightarrow> err + ('s, 'n) meta_Server" where
  "meta_NewServer nodeID store n gauge =
     (case store of
        Inl e \<Rightarrow> Inl e
      | Inr store \<Rightarrow>
          Inr \<lparr>msv_NodeID = nodeID, msv_controller = NewMigrationController None (NewRouter store) n, msv_subscribers = [],
               msv_nodeCount = gauge, msv_rebalances = 0\<rparr>)"

section \<open>Nodes\<close>

fun role_name :: "NodeRole \<Rightarrow> string" where
  "role_name STORAGE = NodeRoleStorage"
| "role_name COMPUTE = NodeRoleCompute"
| "role_name METADATA = NodeRoleMetadata"

definition tryInitializePartitions :: "('s, 'x) Store_scheme \<Rightarrow> ('s, 'n) meta_Server \<Rightarrow> ('s, 'n) meta_Server" where
  "tryInitializePartitions st s =
     (if rt_Partitions (r_routeTable (msv_router s)) \<noteq> [] then s
      else set_router (fst (InitializePartitions st (msv_router s))) s)"

definition meta_RegisterNode ::
    "('s, 'x) Store_scheme \<Rightarrow> int \<Rightarrow> NodeID \<Rightarrow> string \<Rightarrow> NodeRole \<Rightarrow> ('s, 'n) meta_Server \<Rightarrow> ('s, 'n) meta_Server \<times> bool" where
  "meta_RegisterNode st now node_id addr role s =
     (let node = \<lparr>ni_ID = node_id, ni_Addr = addr, ni_Role = role_name role, ni_Status = [], ni_LastHeartbeat = 0, ni_Partitions = []\<rparr>
      in case st_RegisterNode st now node (msv_store s) of
           (store, Some e) \<Rightarrow> (set_store store s, False)
         | (store, None) \<Rightarrow>
             let s = (set_store store s)\<lparr>msv_nodeCount := (msv_nodeCount s)(role_name role := msv_nodeCount s (role_name role) + 1)\<rparr>
             in (if role_name role = NodeRoleStorage then tryInitializePartitions st s else s, True))"

text \<open>The result is \<open>Success\<close> and \<open>RouteVersion\<close>.\<close>

definition meta_Heartbeat ::
    "('s, 'x) Store_scheme \<Rightarrow> int \<Rightarrow> NodeID \<Rightarrow> ('s, 'n) meta_Server \<Rightarrow> ('s, 'n) meta_Server \<times> bool \<times> u64" where
  "meta_Heartbeat st now node_id s =
     (case st_UpdateNodeHeartbeat st now node_id (msv_store s) of
        (store, Some e) \<Rightarrow> (set_store store s, False, 0)
      | (store, None) \<Rightarrow> (set_store store s, True, rt_Version (r_routeTable (msv_router s))))"

record GetNodeStatusResponse =
  gns_node_id :: NodeID
  gns_status :: NodeStatus
  gns_addr :: string
  gns_last_heartbeat :: int
  gns_primary_partition_count :: i32
  gns_replica_partition_count :: i32
  gns_is_draining :: bool
  gns_draining_partitions_remaining :: i32

definition node_status_of :: "string \<Rightarrow> NodeStatus" where
  "node_status_of v =
     (if v = NodeStatusOnline then NODE_ONLINE
      else if v = NodeStatusOffline then NODE_OFFLINE
      else if v = NodeStatusDraining then NODE_DRAINING
      else if v = NodeStatusRemoved then NODE_REMOVED
      else if v = ''online'' then NODE_ONLINE
      else NODE_OFFLINE)"

definition meta_GetNodeStatus :: "('s, 'x) Store_scheme \<Rightarrow> NodeID \<Rightarrow> ('s, 'n) meta_Server \<Rightarrow> err + GetNodeStatusResponse" where
  "meta_GetNodeStatus st node_id s =
     (case st_GetNode st node_id (msv_store s) of
        Inl e \<Rightarrow> Inl e
      | Inr None \<Rightarrow> Inl (ErrNodeNotFound node_id)
      | Inr (Some node) \<Rightarrow>
          let (primaryCount, replicaCount) = GetNodePartitionCounts (msv_router s) (ni_Addr node);
              status = node_status_of (ni_Status node);
              isDraining = (status = NODE_DRAINING)
          in Inr \<lparr>gns_node_id = ni_ID node, gns_status = status, gns_addr = ni_Addr node,
                  gns_last_heartbeat = ni_LastHeartbeat node, gns_primary_partition_count = of_nat primaryCount,
                  gns_replica_partition_count = of_nat replicaCount, gns_is_draining = isDraining,
                  gns_draining_partitions_remaining = (if isDraining then of_nat (primaryCount + replicaCount) else 0)\<rparr>)"

section \<open>Route tables\<close>

definition convertPartitionStatus :: "string \<Rightarrow> PartitionStatus" where
  "convertPartitionStatus status =
     (if status = PartitionStatusNormal then NORMAL
      else if status = PartitionStatusMigratingOut then MIGRATING_OUT
      else if status = PartitionStatusMigratingIn then MIGRATING_IN
      else if status = PartitionStatusOffline then OFFLINE
      else NORMAL)"

text \<open>The message of a partition; the field \<open>Epoch\<close> is not set and has its zero value.\<close>

definition to_pb :: "PartitionInfo \<Rightarrow> pb_PartitionInfo" where
  "to_pb part =
     \<lparr>pbi_partition_id = pi_ID part, pbi_primary = pi_Primary part, pbi_replica = pi_Replica part,
      pbi_status = convertPartitionStatus (pi_Status part), pbi_migration_target = pi_MigrationTarget part,
      pbi_migration_state = pi_MigrationState part, pbi_epoch = 0\<rparr>"

definition meta_GetRouteTable :: "u64 \<Rightarrow> ('s, 'n) meta_Server \<Rightarrow> pb_RouteTable" where
  "meta_GetRouteTable version s =
     (let table = r_routeTable (msv_router s) in
      if version \<ge> rt_Version table then \<lparr>pbt_partitions = [], pbt_version = rt_Version table\<rparr>
      else \<lparr>pbt_partitions = map (\<lambda>(i, part). to_pb part) (rt_Partitions table), pbt_version = rt_Version table\<rparr>)"

definition sendRouteUpdate :: "RouteTable \<Rightarrow> RouteUpdate" where
  "sendRouteUpdate table =
     \<lparr>pbu_version = rt_Version table, pbu_partitions = map (\<lambda>(i, part). to_pb part) (rt_Partitions table)\<rparr>"

text \<open>
  \<open>SubscribeRouteUpdates\<close> in its three parts: the start, which sends the current table, one turn of
  the loop, which sends a table from the node's channel, and the end. \<open>sent\<close> is whether
  the stream took the message; the handler returns after a failure in the loop, and
  then the node stays in the map of subscribers.
\<close>

definition subscribe_open :: "NodeID \<Rightarrow> ('s, 'n) meta_Server \<Rightarrow> ('s, 'n) meta_Server \<times> RouteUpdate" where
  "subscribe_open nodeID s =
     (let update = sendRouteUpdate (r_routeTable (msv_router s));
          s = s\<lparr>msv_subscribers := List.insert nodeID (msv_subscribers s)\<rparr>
      in (set_router (Subscribe nodeID (msv_router s)) s, update))"

definition subscribe_turn :: "NodeID \<Rightarrow> bool \<Rightarrow> ('s, 'n) meta_Server \<Rightarrow> ('s, 'n) meta_Server \<times> RouteUpdate option" where
  "subscribe_turn nodeID sent s =
     (case map_of (r_subscribers (msv_router s)) nodeID of
        Some (table # tables) \<Rightarrow>
          let r = (msv_router s)\<lparr>r_subscribers := AList.update nodeID tables (r_subscribers (msv_router s))\<rparr>
          in if sent then (set_router r s, Some (sendRouteUpdate table)) else (set_router (Unsubscribe nodeID r) s, None)
      | _ \<Rightarrow> (s, None))"

definition subscribe_done :: "NodeID \<Rightarrow> ('s, 'n) meta_Server \<Rightarrow> ('s, 'n) meta_Server" where
  "subscribe_done nodeID s =
     (let s = s\<lparr>msv_subscribers := removeAll nodeID (msv_subscribers s)\<rparr>
      in set_router (Unsubscribe nodeID (msv_router s)) s)"

section \<open>The cluster\<close>

definition convertClusterState :: "string \<Rightarrow> ClusterState" where
  "convertClusterState state =
     (if state = ClusterStatePending then CLUSTER_PENDING
      else if state = ClusterStateInitializing then CLUSTER_INITIALIZING
      else if state = ClusterStateRunning then CLUSTER_RUNNING
      else CLUSTER_PENDING)"

record GetClusterInfoResponse =
  gci_state :: ClusterState
  gci_replica_count :: i32
  gci_storage_node_count :: i32
  gci_partition_count :: i32

definition meta_GetClusterInfo :: "('s, 'x) Store_scheme \<Rightarrow> ('s, 'n) meta_Server \<Rightarrow> err + GetClusterInfoResponse" where
  "meta_GetClusterInfo st s =
     (case st_GetClusterInfo st (msv_store s) of Inl e \<Rightarrow> Inl e | Inr info \<Rightarrow>
      case st_ListNodes st NodeRoleStorage (msv_store s) of Inl e \<Rightarrow> Inl e | Inr nodes \<Rightarrow>
      Inr \<lparr>gci_state = convertClusterState (ci_State info), gci_replica_count = of_int (ci_ReplicaCount info),
           gci_storage_node_count = of_nat (length nodes),
           gci_partition_count = of_nat (length (rt_Partitions (r_routeTable (msv_router s))))\<rparr>)"

record InitClusterResponse =
  icr_success :: bool
  icr_message :: error_message
  icr_partition_count :: i32
  icr_node_count :: i32

definition meta_InitCluster :: "('s, 'x) Store_scheme \<Rightarrow> ('s, 'n) meta_Server \<Rightarrow> ('s, 'n) meta_Server \<times> InitClusterResponse" where
  "meta_InitCluster st s =
     (case InitCluster st (msv_router s) of
        (r, Some e) \<Rightarrow> (set_router r s, \<lparr>icr_success = False, icr_message = ErrorText e, icr_partition_count = 0, icr_node_count = 0\<rparr>)
      | (r, None) \<Rightarrow>
          (set_router r s,
           \<lparr>icr_success = True, icr_message = Message ''cluster initialized successfully'',
            icr_partition_count = of_nat (length (rt_Partitions (r_routeTable r))),
            icr_node_count = (case st_ListNodes st NodeRoleStorage (r_store r) of Inl _ \<Rightarrow> 0 | Inr nodes \<Rightarrow> of_nat (length nodes))\<rparr>))"

definition meta_InitializeCluster :: "('s, 'x) Store_scheme \<Rightarrow> ('s, 'n) meta_Server \<Rightarrow> ('s, 'n) meta_Server \<times> err option" where
  "meta_InitializeCluster st s = (let (r, e) = InitializePartitions st (msv_router s) in (set_router r s, e))"

definition meta_TriggerRebalance ::
    "('s, 'x) Store_scheme \<Rightarrow> (MigrationPlanItem list \<Rightarrow> MigrationPlanItem list) \<Rightarrow> string \<Rightarrow> TriggerRebalanceRequest \<Rightarrow>
     ('s, 'n) meta_Server \<Rightarrow> ('s, 'n) meta_Server \<times> TriggerRebalanceResponse" where
  "meta_TriggerRebalance st perm uuid req s =
     (let (mc, resp) = TriggerRebalance st perm uuid req (msv_controller s) in (s\<lparr>msv_controller := mc\<rparr>, resp))"

definition meta_GetMigrationStatus :: "('s, 'n) meta_Server \<Rightarrow> GetMigrationStatusResponse" where
  "meta_GetMigrationStatus s = GetMigrationStatus (msv_controller s)"

definition meta_CancelMigration :: "('s, 'n) meta_Server \<Rightarrow> ('s, 'n) meta_Server \<times> bool \<times> string" where
  "meta_CancelMigration s = (let (mc, resp) = CancelMigration (msv_controller s) in (s\<lparr>msv_controller := mc\<rparr>, resp))"

record ShutdownNodeResponse =
  snr_success :: bool
  snr_message :: error_message
  snr_partitions_migrated :: i32
  snr_partitions_failed :: i32

text \<open>
  A scheduler of its own for the request, unless it is forced. \<open>env\<close> and \<open>wait\<close> are what happens
  between the calls of the store and while the scheduler runs.
\<close>

definition meta_ShutdownNode ::
    "('s, 'x) Store_scheme \<Rightarrow> ('s MigrationScheduler \<Rightarrow> 's MigrationScheduler) \<Rightarrow> ('s MigrationScheduler \<Rightarrow> 's MigrationScheduler) \<Rightarrow>
     (task_ref \<Rightarrow> MigrationTask) \<Rightarrow> NodeID \<Rightarrow> bool \<Rightarrow> ('s, 'n) meta_Server \<Rightarrow> ('s, 'n) meta_Server \<times> ShutdownNodeResponse" where
  "meta_ShutdownNode st env wait heap node_id force s =
     (let scheduler = NewMigrationScheduler heap (msv_router s);
          scheduler = (if force then scheduler else ms_Start scheduler);
          ((scheduler, rebalance), (migrated, failed), e) = ShutdownNode st env wait (\<not> force) node_id force scheduler;
          scheduler = (if force then scheduler else ms_Stop scheduler);
          s = (set_router (ms_router scheduler) s)\<lparr>msv_rebalances := msv_rebalances s + (if rebalance then 1 else 0)\<rparr>
      in (s, case e of
               Some e \<Rightarrow> \<lparr>snr_success = False, snr_message = ErrorText e, snr_partitions_migrated = migrated, snr_partitions_failed = failed\<rparr>
             | None \<Rightarrow> \<lparr>snr_success = True, snr_message = Message ''node shutdown completed successfully'',
                        snr_partitions_migrated = migrated, snr_partitions_failed = failed\<rparr>))"

section \<open>Leader election, \<open>src/pkg/metadata/leader.go\<close>\<close>

text \<open>
  The election itself is etcd's. \<open>le_phase\<close> is the place of the goroutine \<open>runElection\<close>; the goroutines
  \<open>go cb(...)\<close> that were started and have not run yet are \<open>le_pending\<close>, and they run in any order.
\<close>

datatype le_phase = Le_new | Le_campaign | Le_leading | Le_ended

record LeaderElection =
  le_nodeID :: NodeID
  le_isLeader :: bool
  le_leaderID :: string
  le_callbacks :: nat
  le_cancelled :: bool
  le_phase :: le_phase
  le_pending :: "bool list"

text \<open>\<open>client\<close> is the error of connecting to etcd, if any.\<close>

definition NewLeaderElection :: "NodeID option \<Rightarrow> err option \<Rightarrow> err + LeaderElection" where
  "NewLeaderElection config client =
     (case config of
        None \<Rightarrow> Inl (ErrText ''config cannot be nil'')
      | Some nodeID \<Rightarrow>
          if nodeID = [] then Inl (ErrText ''node ID cannot be empty'')
          else case client of
            Some e \<Rightarrow> Inl e
          | None \<Rightarrow> Inr \<lparr>le_nodeID = nodeID, le_isLeader = False, le_leaderID = [], le_callbacks = 0, le_cancelled = False,
                        le_phase = Le_new, le_pending = []\<rparr>)"

definition OnLeaderChange :: "LeaderElection \<Rightarrow> LeaderElection" where
  "OnLeaderChange le = le\<lparr>le_callbacks := le_callbacks le + 1\<rparr>"

text \<open>\<open>session\<close> is the error of creating the session.\<close>

definition le_Start :: "err option \<Rightarrow> LeaderElection \<Rightarrow> LeaderElection \<times> err option" where
  "le_Start session le = (case session of Some e \<Rightarrow> (le, Some e) | None \<Rightarrow> (le\<lparr>le_phase := Le_campaign\<rparr>, None))"

definition becomeLeader :: "LeaderElection \<Rightarrow> LeaderElection" where
  "becomeLeader le = le\<lparr>le_isLeader := True, le_leaderID := le_nodeID le,
     le_pending := le_pending le @ replicate (le_callbacks le) True\<rparr>"

definition loseLeadership :: "LeaderElection \<Rightarrow> LeaderElection" where
  "loseLeadership le = le\<lparr>le_isLeader := False, le_pending := le_pending le @ replicate (le_callbacks le) False\<rparr>"

text \<open>Whether \<open>Resign\<close> fails or not.\<close>

definition resignLeadership :: "LeaderElection \<Rightarrow> LeaderElection" where
  "resignLeadership le = (if \<not> le_isLeader le then le else le\<lparr>le_isLeader := False\<rparr>)"

datatype election_event = Campaign_won | Campaign_failed | Session_expired | Context_done | Observed string

text \<open>What the two goroutines make of an event; \<open>None\<close> when they do not wait for it.\<close>

fun runElection :: "election_event \<Rightarrow> LeaderElection \<Rightarrow> LeaderElection option" where
  "runElection Campaign_won le =
     (if le_phase le = Le_campaign then Some ((becomeLeader le)\<lparr>le_phase := Le_leading\<rparr>) else None)"
| "runElection Campaign_failed le =
     (if le_phase le = Le_campaign then Some (le\<lparr>le_phase := (if le_cancelled le then Le_ended else Le_campaign)\<rparr>) else None)"
| "runElection Session_expired le =
     (if le_phase le = Le_leading then Some ((loseLeadership le)\<lparr>le_phase := Le_campaign\<rparr>) else None)"
| "runElection Context_done le =
     (if \<not> le_cancelled le then None
      else if le_phase le = Le_leading then Some ((resignLeadership le)\<lparr>le_phase := Le_ended\<rparr>)
      else if le_phase le = Le_campaign then Some (le\<lparr>le_phase := Le_ended\<rparr>)
      else None)"
| "runElection (Observed leaderID) le =
     (if le_phase le = Le_new then None else Some (le\<lparr>le_leaderID := leaderID\<rparr>))"

definition le_Stop :: "LeaderElection \<Rightarrow> LeaderElection" where
  "le_Stop le = (let le = le\<lparr>le_cancelled := True\<rparr> in if le_isLeader le then resignLeadership le else le)"

section \<open>The highly available server, \<open>src/pkg/metadata/ha_server.go\<close>\<close>

record ('s, 'n) HAServer =
  ha_server :: "('s, 'n) meta_Server"
  ha_haEnabled :: bool
  ha_leaderElection :: "LeaderElection option"
  ha_isLeader :: bool

definition NewHAServer ::
    "bool \<Rightarrow> NodeID \<Rightarrow> err + 's \<Rightarrow> 'n \<Rightarrow> (string \<Rightarrow> int) \<Rightarrow> err option \<Rightarrow> err + ('s, 'n) HAServer" where
  "NewHAServer haEnabled nodeID store n gauge client =
     (case meta_NewServer nodeID store n gauge of
        Inl e \<Rightarrow> Inl e
      | Inr server \<Rightarrow>
          if haEnabled then
            (case NewLeaderElection (Some nodeID) client of
               Inl e \<Rightarrow> Inl e
             | Inr le \<Rightarrow> Inr \<lparr>ha_server = server, ha_haEnabled = True, ha_leaderElection = Some (OnLeaderChange le), ha_isLeader = False\<rparr>)
          else Inr \<lparr>ha_server = server, ha_haEnabled = False, ha_leaderElection = None, ha_isLeader = True\<rparr>)"

definition onLeadershipChange :: "bool \<Rightarrow> ('s, 'n) HAServer \<Rightarrow> ('s, 'n) HAServer" where
  "onLeadershipChange isLeader s = s\<lparr>ha_isLeader := isLeader\<rparr>"

definition ha_IsLeader :: "('s, 'n) HAServer \<Rightarrow> bool" where
  "ha_IsLeader s = (if \<not> ha_haEnabled s then True else ha_isLeader s)"

definition ha_GetLeaderID :: "('s, 'n) HAServer \<Rightarrow> string" where
  "ha_GetLeaderID s =
     (if \<not> ha_haEnabled s then msv_NodeID (ha_server s)
      else case ha_leaderElection s of None \<Rightarrow> [] | Some le \<Rightarrow> le_leaderID le)"

definition checkLeaderForWrite :: "('s, 'n) HAServer \<Rightarrow> err option" where
  "checkLeaderForWrite s =
     (if \<not> ha_haEnabled s then None
      else if ha_IsLeader s then None
      else Some (ErrStatus Code_FailedPrecondition (ErrText (''not the leader, current leader is: '' @ ha_GetLeaderID s))))"

text \<open>A write handler: the check, then the handler of the server. The response of a refused request
  is not looked at by the client, which gets the error.\<close>

definition ha_write ::
    "(('s, 'n) meta_Server \<Rightarrow> ('s, 'n) meta_Server \<times> 'r) \<Rightarrow> ('s, 'n) HAServer \<Rightarrow> ('s, 'n) HAServer \<times> (err + 'r)" where
  "ha_write handler s =
     (case checkLeaderForWrite s of
        Some e \<Rightarrow> (s, Inl e)
      | None \<Rightarrow> let (server, resp) = handler (ha_server s) in (s\<lparr>ha_server := server\<rparr>, Inr resp))"

definition ha_RegisterNode :: "('s, 'x) Store_scheme \<Rightarrow> int \<Rightarrow> NodeID \<Rightarrow> string \<Rightarrow> NodeRole \<Rightarrow> ('s, 'n) HAServer \<Rightarrow> ('s, 'n) HAServer \<times> (err + bool)" where
  "ha_RegisterNode st now node_id addr role = ha_write (meta_RegisterNode st now node_id addr role)"

definition ha_InitCluster :: "('s, 'x) Store_scheme \<Rightarrow> ('s, 'n) HAServer \<Rightarrow> ('s, 'n) HAServer \<times> (err + InitClusterResponse)" where
  "ha_InitCluster st = ha_write (meta_InitCluster st)"

definition ha_TriggerRebalance ::
    "('s, 'x) Store_scheme \<Rightarrow> (MigrationPlanItem list \<Rightarrow> MigrationPlanItem list) \<Rightarrow> string \<Rightarrow> TriggerRebalanceRequest \<Rightarrow>
     ('s, 'n) HAServer \<Rightarrow> ('s, 'n) HAServer \<times> (err + TriggerRebalanceResponse)" where
  "ha_TriggerRebalance st perm uuid req = ha_write (meta_TriggerRebalance st perm uuid req)"

definition ha_CancelMigration :: "('s, 'n) HAServer \<Rightarrow> ('s, 'n) HAServer \<times> (err + bool \<times> string)" where
  "ha_CancelMigration = ha_write meta_CancelMigration"

definition ha_ShutdownNode ::
    "('s, 'x) Store_scheme \<Rightarrow> ('s MigrationScheduler \<Rightarrow> 's MigrationScheduler) \<Rightarrow> ('s MigrationScheduler \<Rightarrow> 's MigrationScheduler) \<Rightarrow>
     (task_ref \<Rightarrow> MigrationTask) \<Rightarrow> NodeID \<Rightarrow> bool \<Rightarrow> ('s, 'n) HAServer \<Rightarrow> ('s, 'n) HAServer \<times> (err + ShutdownNodeResponse)" where
  "ha_ShutdownNode st env wait heap node_id force = ha_write (meta_ShutdownNode st env wait heap node_id force)"

record GetLeaderInfoResponse =
  gli_leader_id :: string
  gli_leader_addr :: string
  gli_is_leader :: bool
  gli_ha_enabled :: bool

definition GetLeaderInfo :: "('s, 'x) Store_scheme \<Rightarrow> ('s, 'n) HAServer \<Rightarrow> GetLeaderInfoResponse" where
  "GetLeaderInfo st s =
     (let leaderID = ha_GetLeaderID s
      in \<lparr>gli_leader_id = leaderID,
          gli_leader_addr = (if leaderID = [] then []
            else case st_GetNode st leaderID (msv_store (ha_server s)) of Inr (Some node) \<Rightarrow> ni_Addr node | _ \<Rightarrow> []),
          gli_is_leader = ha_IsLeader s, gli_ha_enabled = ha_haEnabled s\<rparr>)"

definition ha_Stop :: "('s, 'n) HAServer \<Rightarrow> ('s, 'n) HAServer" where
  "ha_Stop s = s\<lparr>ha_leaderElection := map_option le_Stop (ha_leaderElection s)\<rparr>"

text \<open>The election under the server: its goroutines, and the callbacks in any order.\<close>

inductive ha_step :: "('s, 'n) HAServer \<Rightarrow> ('s, 'n) HAServer \<Rightarrow> bool" where
  Ha_start: "ha_leaderElection s = Some le \<Longrightarrow> le_phase le = Le_new \<Longrightarrow> ha_step s (s\<lparr>ha_leaderElection := Some (fst (le_Start session le))\<rparr>)"
| Ha_election: "ha_leaderElection s = Some le \<Longrightarrow> runElection ev le = Some le' \<Longrightarrow> ha_step s (s\<lparr>ha_leaderElection := Some le'\<rparr>)"
| Ha_callback: "ha_leaderElection s = Some le \<Longrightarrow> j < length (le_pending le) \<Longrightarrow>
    ha_step s (onLeadershipChange (le_pending le ! j) (s\<lparr>ha_leaderElection := Some (le\<lparr>le_pending := remove_at j (le_pending le)\<rparr>)\<rparr>))"
| Ha_stop: "ha_step s (ha_Stop s)"
| Ha_request: "ha_step s (s\<lparr>ha_server := server\<rparr>)"

section \<open>Well-formed route tables\<close>

text \<open>
  A route table has one entry per partition, under the partition's own number, which is below
  \<open>TotalPartitions\<close>.
\<close>

definition route_wf :: "RouteTable \<Rightarrow> bool" where
  "route_wf t \<longleftrightarrow> distinct (map fst (rt_Partitions t)) \<and>
     (\<forall>(i, p) \<in> set (rt_Partitions t). pi_ID p = i \<and> unat i < metadata_TotalPartitions)"

lemma route_wf_New [simp]: "route_wf NewRouteTable"
  by (simp add: route_wf_def NewRouteTable_def)

lemma route_wf_version [simp]: "route_wf (t\<lparr>rt_Version := v\<rparr>) = route_wf t"
  by (simp add: route_wf_def)

lemma route_wf_copy: "route_wf t \<Longrightarrow> route_wf (copy_table t)"
  using distinct_set_partition(2) [of t] by (auto simp: route_wf_def copy_table_def)

lemma route_wf_set:
  assumes "route_wf t" and "map_of (rt_Partitions t) i = Some q" and "pi_ID p = pi_ID q"
  shows "route_wf (set_partition i p t)"
  using assms distinct_set_partition(1) [of t i p] map_of_SomeD [OF assms(2)]
  by (auto simp: route_wf_def set_partition_def dest!: set_update_cases)

lemma route_wf_set_copy:
  assumes "route_wf t" and "map_of (rt_Partitions t) i = Some q" and "pi_ID p = pi_ID q"
  shows "route_wf (set_partition i p (copy_table t))"
  using assms by (intro route_wf_set [OF route_wf_copy, where q = "plain q"]) auto

lemma route_wf_rebalanced:
  "route_wf t \<Longrightarrow> route_wf (t\<lparr>rt_Partitions := map (\<lambda>(i, p). (i, rebalanced ring i p)) (rt_Partitions t)\<rparr>)"
  by (auto simp: route_wf_def rebalanced_def case_prod_beta comp_def split: prod.splits)

lemma route_wf_allocated:
  "route_wf (NewRouteTable\<lparr>rt_Partitions := map (\<lambda>i. (of_nat i, allocated ring (of_nat i))) [0..<metadata_TotalPartitions]\<rparr>)"
proof -
  have small: "unat (of_nat x :: u32) = x" if "x < metadata_TotalPartitions" for x
    using that by (intro unat_of_nat_u32) (simp add: metadata_TotalPartitions_def)
  then have "inj_on (of_nat :: nat \<Rightarrow> u32) {0..<metadata_TotalPartitions}"
    by (intro inj_on_inverseI [of _ unat]) simp
  with small show ?thesis
    by (auto simp: route_wf_def distinct_map comp_def allocated_def split: prod.splits)
qed

context meta_store
begin

lemma save_table_wf:
  assumes "save_table st t r = ((r', t'), e)" and "route_wf t" and "route_wf (ma_table (holds (r_store r)))"
  shows "route_wf (ma_table (holds (r_store r'))) \<and> r_routeTable r' = r_routeTable r \<and> (e = None \<longrightarrow> route_wf t')"
  using save_table_stored [OF assms(1)] assms(2,3) by auto

lemma DeleteMigrationState_table:
  "ma_table (holds (fst (st_DeleteMigrationState st i s))) = ma_table (holds s)"
proof -
  obtain s' d where "st_DeleteMigrationState st i s = (s', d)"
    by force
  then show ?thesis
    using DeleteMigrationState_ok [of i s s'] DeleteMigrationState_failed [of i s s'] by (cases d) auto
qed

lemma run_op_wf:
  assumes "run_op st oper r = (r', e)" and wf: "route_wf (r_routeTable r)" "route_wf (ma_table (holds (r_store r)))"
  shows "route_wf (ma_table (holds (r_store r'))) \<and> r_routeTable r' = r_routeTable r"
proof (cases oper)
  case Op_Rebalance
  then show ?thesis
    using assms route_wf_rebalanced [OF wf(1)]
    by (auto simp: RebalancePartitions_def Let_def split: sum.splits if_splits prod.splits dest!: save_table_wf)
next
  case (Op_Promote i)
  then show ?thesis
    using assms
    by (auto simp: PromoteReplica_def Let_def route_wf_set_copy split: option.splits prod.splits dest!: save_table_wf)
next
  case (Op_SetStatus i v)
  then show ?thesis
    using assms
    by (auto simp: router_SetPartitionStatus_def Let_def route_wf_set split: option.splits prod.splits dest!: save_table_wf)
next
  case (Op_Complete i node prim)
  then show ?thesis
    using assms
    by (cases prim) (auto simp: CompleteMigration_def Let_def route_wf_set_copy DeleteMigrationState_table
        split: option.splits prod.splits dest!: save_table_wf)
qed

lemma allocatePartitions_wf:
  assumes "allocatePartitions st nodes r = (r', e)" and "route_wf (r_routeTable r)" and "route_wf (ma_table (holds (r_store r)))"
  shows "route_wf (ma_table (holds (r_store r'))) \<and> route_wf (r_routeTable r')"
  using assms route_wf_allocated [of "ring_of (map ni_Addr nodes)"]
  by (auto simp: allocatePartitions_def Let_def updateRouteTable_def split: prod.splits option.splits dest!: save_table_wf)

lemma set_state_table: "set_state st v r = (r', e) \<Longrightarrow> ma_table (holds (r_store r')) = ma_table (holds (r_store r)) \<and> r_routeTable r' = r_routeTable r"
  using SetClusterState_ok [of v "r_store r"] SetClusterState_failed [of v "r_store r"]
  by (cases e) (fastforce simp: set_state_def split: prod.splits)+

lemma InitializePartitions_wf:
  assumes "InitializePartitions st r = (r', e)" and "route_wf (r_routeTable r)" and "route_wf (ma_table (holds (r_store r)))"
  shows "route_wf (ma_table (holds (r_store r'))) \<and> route_wf (r_routeTable r')"
  using assms by (auto simp: InitializePartitions_def split: sum.splits if_splits dest: allocatePartitions_wf)

lemma InitCluster_wf:
  assumes "InitCluster st r = (r', e)" and "route_wf (r_routeTable r)" and "route_wf (ma_table (holds (r_store r)))"
  shows "route_wf (ma_table (holds (r_store r'))) \<and> route_wf (r_routeTable r')"
proof -
  have set: "route_wf (ma_table (holds (r_store (fst (set_state st v q))))) = route_wf (ma_table (holds (r_store q)))"
    "r_routeTable (fst (set_state st v q)) = r_routeTable q" for v q
    using set_state_table [OF prod.collapse [symmetric], of v q] by simp_all
  have "\<exists>v nodes. r' = r \<or> r' = fst (set_state st v r) \<or>
      r' = fst (set_state st v (fst (allocatePartitions st nodes (fst (set_state st ClusterStateInitializing r)))))"
    using assms(1) by (auto simp: InitCluster_def split: sum.splits if_splits option.splits prod.splits) (metis fst_conv)+
  then show ?thesis
    using assms(2,3) allocatePartitions_wf [OF prod.collapse [symmetric], where r = "fst (set_state st ClusterStateInitializing r)"]
    by (auto simp: set)
qed

end

text \<open>
  The service: its handlers, the operations on the route table that the failover manager, the
  schedulers and the migrations run, and the watch, which delivers any table that was stored.
  \<open>hist\<close> is the tables stored so far.
\<close>

inductive meta_step ::
    "('s, 'x) Store_scheme \<Rightarrow> ('s \<Rightarrow> RouteTable) \<Rightarrow> ('s, 'n) meta_Server \<times> RouteTable list \<Rightarrow> ('s, 'n) meta_Server \<times> RouteTable list \<Rightarrow> bool"
  for st :: "('s, 'x) Store_scheme" and stored :: "'s \<Rightarrow> RouteTable" where
  Meta_register: "meta_RegisterNode st now node_id addr role s = (s', ok) \<Longrightarrow> meta_step st stored (s, hist) (s', stored (msv_store s') # hist)"
| Meta_heartbeat: "meta_Heartbeat st now node_id s = (s', resp) \<Longrightarrow> meta_step st stored (s, hist) (s', stored (msv_store s') # hist)"
| Meta_init: "meta_InitCluster st s = (s', icr) \<Longrightarrow> meta_step st stored (s, hist) (s', stored (msv_store s') # hist)"
| Meta_initialize: "meta_InitializeCluster st s = (s', e) \<Longrightarrow> meta_step st stored (s, hist) (s', stored (msv_store s') # hist)"
| Meta_trigger: "meta_step st stored (s, hist) (fst (meta_TriggerRebalance st perm uuid req s), hist)"
| Meta_cancel: "meta_step st stored (s, hist) (fst (meta_CancelMigration s), hist)"
| Meta_open: "meta_step st stored (s, hist) (fst (subscribe_open nodeID s), hist)"
| Meta_turn: "meta_step st stored (s, hist) (fst (subscribe_turn nodeID sent s), hist)"
| Meta_done: "meta_step st stored (s, hist) (subscribe_done nodeID s, hist)"
| Meta_table: "run_op st oper (msv_router s) = (r, e) \<Longrightarrow> meta_step st stored (s, hist) (set_router r s, stored (r_store r) # hist)"
| Meta_watch: "t \<in> set hist \<Longrightarrow> meta_step st stored (s, hist) (set_router (route_event t (msv_router s)) s, hist)"

lemma set_router_simps [simp]:
  "msv_router (set_router r s) = r" "msv_store (set_store store s) = store" "r_routeTable (msv_router (set_store store s)) = r_routeTable (msv_router s)"
  by (simp_all add: set_router_def set_store_def)

lemma frame_routes [simp]:
  "mc_router (fst (TriggerRebalance st perm uuid req mc)) = mc_router mc" "mc_router (fst (CancelMigration mc)) = mc_router mc"
  "r_routeTable (Subscribe nodeID r) = r_routeTable r" "r_store (Subscribe nodeID r) = r_store r"
  "r_routeTable (Unsubscribe nodeID r) = r_routeTable r" "r_store (Unsubscribe nodeID r) = r_store r"
  by (auto simp: TriggerRebalance_def CancelMigration_def Subscribe_def Unsubscribe_def Let_def upd_run_def upd_migration_def
      split: sum.splits option.splits)

definition meta_wf :: "('s \<Rightarrow> RouteTable) \<Rightarrow> ('s, 'n) meta_Server \<times> RouteTable list \<Rightarrow> bool" where
  "meta_wf stored = (\<lambda>(s, hist). route_wf (r_routeTable (msv_router s)) \<and> route_wf (stored (msv_store s)) \<and> (\<forall>t \<in> set hist. route_wf t))"

lemma meta_step_wf:
  assumes "meta_step st stored x y" and store: "meta_store st holds" and stored: "stored = (\<lambda>s. ma_table (holds s))" and "meta_wf stored x"
  shows "meta_wf stored y"
  using assms(1,4)
proof (induction rule: meta_step.induct)
  case (Meta_register now node_id addr role s s' ok hist)
  obtain store' e where reg: "st_RegisterNode st now \<lparr>ni_ID = node_id, ni_Addr = addr, ni_Role = role_name role, ni_Status = [],
      ni_LastHeartbeat = 0, ni_Partitions = []\<rparr> (msv_store s) = (store', e)"
    by force
  have same: "stored store' = stored (msv_store s)"
    using meta_store.RegisterNode_frame [OF store reg] by (simp add: stored)
  obtain r1 e1 where init: "InitializePartitions st ((msv_router s)\<lparr>r_store := store'\<rparr>) = (r1, e1)"
    by force
  have "route_wf (ma_table (holds (r_store r1))) \<and> route_wf (r_routeTable r1)"
    using meta_store.InitializePartitions_wf [OF store init] Meta_register.prems same by (simp add: meta_wf_def stored)
  then show ?case
    using Meta_register same init
    by (auto simp: meta_RegisterNode_def meta_wf_def stored reg tryInitializePartitions_def set_store_def set_router_def Let_def split: option.splits if_splits)
next
  case (Meta_heartbeat now node_id s s' resp hist)
  then show ?case
    using meta_store.UpdateNodeHeartbeat_same [OF store]
    by (auto simp: meta_Heartbeat_def meta_wf_def stored split: prod.splits option.splits)
next
  case (Meta_init s s' icr hist)
  then show ?case
    using meta_store.InitCluster_wf [OF store]
    by (auto simp: meta_InitCluster_def meta_wf_def stored split: prod.splits option.splits)
next
  case (Meta_initialize s s' e hist)
  then show ?case
    using meta_store.InitializePartitions_wf [OF store]
    by (auto simp: meta_InitializeCluster_def meta_wf_def stored split: prod.splits)
next
  case (Meta_turn s hist nodeID sent)
  then show ?case
    by (auto simp: subscribe_turn_def meta_wf_def Let_def split: option.splits list.splits)
next
  case (Meta_table oper s r e hist)
  then show ?case
    using meta_store.run_op_wf [OF store] by (auto simp: meta_wf_def stored)
qed (auto simp: meta_wf_def meta_TriggerRebalance_def meta_CancelMigration_def subscribe_open_def subscribe_done_def case_prod_beta Let_def set_router_def)

section \<open>Epochs on the way to the nodes\<close>

text \<open>A storage node and a compute node that get route tables from the metadata service.\<close>

definition node_epochs_0 :: "'db Server \<Rightarrow> bool" where
  "node_epochs_0 s \<longleftrightarrow> (\<forall>i part. map_of (pm_partitions (srv_pm s)) i = Some part \<longrightarrow> p_Epoch part = 0)"

definition router_epochs_0 :: "compute_Router \<Rightarrow> bool" where
  "router_epochs_0 r \<longleftrightarrow> (\<forall>i part. map_of (crt_Partitions (cr_routeTable r)) i = Some part \<longrightarrow> cpi_Epoch part = 0)"

lemma to_pb_epoch [simp]: "pbi_epoch (to_pb part) = 0"
  by (simp add: to_pb_def)

lemma subscribe_table_epochs_0:
  assumes "\<forall>part \<in> ran (map_of (pm_partitions pm)). p_Epoch part = 0" and "pbi_epoch p = 0"
  shows "\<forall>part \<in> ran (map_of (pm_partitions (subscribe_table myAddr p pm))). p_Epoch part = 0"
  using assms by (auto simp: subscribe_table_def HasPartition_def UpdatePartitionEpoch_def AddPartitionWithEpoch_def ran_def update_conv'
      split: option.splits if_splits)

lemma fold_subscribe_epochs_0:
  assumes "\<forall>part \<in> ran (map_of (pm_partitions pm)). p_Epoch part = 0" and "\<forall>p \<in> set ps. pbi_epoch p = 0"
  shows "\<forall>part \<in> ran (map_of (pm_partitions (fold (subscribe_table myAddr) ps pm))). p_Epoch part = 0"
  using assms
proof (induction ps arbitrary: pm)
  case (Cons p ps)
  then have 0: "pbi_epoch p = 0" "\<forall>p \<in> set ps. pbi_epoch p = 0"
    by simp_all
  show ?case
    using Cons.IH [OF subscribe_table_epochs_0 [OF Cons.prems(1) 0(1)] 0(2)] by simp
qed simp

lemma route_update_epochs_0:
  assumes "node_epochs_0 s" and upd: "updatePartitionsFromRoute out (pbu_partitions (sendRouteUpdate t)) myAddr s r = (s', r')"
  shows "node_epochs_0 s'"
proof -
  let ?ps = "pbu_partitions (sendRouteUpdate t)"
  obtain s1 r1 sh where f: "fold (subscribe_step out myAddr) ?ps (s, r, []) = (s1, r1, sh)"
    by (metis prod_cases3)
  have "fold (remove_step out sh) (ListPartitions (srv_pm s1)) (s1, r1) = (s', r')"
    using upd by (simp add: updatePartitionsFromRoute_def f)
  note rem = remove_fold [OF this]
  have "\<forall>part \<in> ran (map_of (pm_partitions (srv_pm s1))). p_Epoch part = 0"
    unfolding subscribe_fold(1) [OF f] using assms(1)
    by (intro fold_subscribe_epochs_0) (auto simp: node_epochs_0_def ran_def sendRouteUpdate_def)
  then show ?thesis
    using rem by (auto simp: node_epochs_0_def ran_def restrict_map_def split: if_splits)
qed

lemma store_partitions_epochs_0:
  assumes "\<forall>(i, part) \<in> set table. cpi_Epoch part = 0" and "\<forall>p \<in> set ps. pbi_epoch p = 0"
  shows "\<forall>(i, part) \<in> set (store_partitions ps table). cpi_Epoch part = 0"
  using assms unfolding store_partitions_def
proof (induction ps arbitrary: table)
  case (Cons p ps)
  have "\<forall>(i, part) \<in> set (AList.update (pbi_partition_id p) (from_pb p) table). cpi_Epoch part = 0"
    using Cons.prems by (auto simp: from_pb_def dest!: set_update_cases)
  then show ?case
    using Cons by simp
qed simp

text \<open>What the nodes do with a table of the service: a compute node refreshes its table or gets an update, a storage node gets an update.\<close>

datatype ('s, 'n) route_message = Refreshed "('s, 'n) meta_Server" | Updated RouteTable

fun compute_receive :: "('s, 'n) route_message \<Rightarrow> compute_Router \<Rightarrow> compute_Router" where
  "compute_receive (Refreshed ms) r = fst (refreshRouteTable (\<lambda>version. Inr (Some (meta_GetRouteTable version ms))) r)"
| "compute_receive (Updated t) r = updateRouteTableFromUpdate (sendRouteUpdate t) r"

definition storage_receive :: "'r outside \<Rightarrow> string \<Rightarrow> RouteTable \<Rightarrow> 'db Server \<times> 'r \<Rightarrow> 'db Server \<times> 'r" where
  "storage_receive out myAddr t = (\<lambda>(s, r). updatePartitionsFromRoute out (pbu_partitions (sendRouteUpdate t)) myAddr s r)"

lemma compute_receive_epochs_0:
  assumes "\<forall>(i, part) \<in> set (crt_Partitions (cr_routeTable r)). cpi_Epoch part = 0"
  shows "\<forall>(i, part) \<in> set (crt_Partitions (cr_routeTable (compute_receive msg r))). cpi_Epoch part = 0"
proof (cases msg)
  case (Refreshed ms)
  have "\<forall>p \<in> set (pbt_partitions (meta_GetRouteTable v ms)). pbi_epoch p = 0" for v
    by (auto simp: meta_GetRouteTable_def Let_def)
  from store_partitions_epochs_0 [OF _ this, of "[]"] show ?thesis
    using assms unfolding Refreshed
    by (simp add: refreshRouteTable_def compute_updateRouteTable_def)
next
  case (Updated t)
  have "\<forall>p \<in> set (pbu_partitions (sendRouteUpdate t)). pbi_epoch p = 0"
    by (auto simp: sendRouteUpdate_def)
  from store_partitions_epochs_0 [OF assms this] show ?thesis
    using assms unfolding Updated by (simp add: updateRouteTableFromUpdate_def Let_def)
qed

lemma fold_compute_receive_epochs_0:
  assumes "\<forall>(i, part) \<in> set (crt_Partitions (cr_routeTable r)). cpi_Epoch part = 0"
  shows "\<forall>(i, part) \<in> set (crt_Partitions (cr_routeTable (fold compute_receive msgs r))). cpi_Epoch part = 0"
  using assms
proof (induction msgs arbitrary: r)
  case (Cons msg msgs)
  then show ?case
    using Cons.IH [OF compute_receive_epochs_0 [OF Cons.prems]] by simp
qed simp

lemma fold_storage_receive_epochs_0:
  assumes "node_epochs_0 (fst x)"
  shows "node_epochs_0 (fst (fold (storage_receive out myAddr) ts x))"
  using assms
proof (induction ts arbitrary: x)
  case (Cons t ts)
  obtain s r s' r' where x: "x = (s, r)" and step: "storage_receive out myAddr t (s, r) = (s', r')"
    by (metis prod.collapse)
  have "node_epochs_0 s'"
    using route_update_epochs_0 [of s out t myAddr r s' r'] Cons.prems step x by (simp add: storage_receive_def)
  then show ?case
    using Cons.IH [of "(s', r')"] x step by simp
qed simp

section \<open>Properties\<close>



text \<open>
  C15. The fencing epoch never reaches the nodes. The metadata service sends neither in a full table
  nor in an update the epoch of a partition: whatever tables a fresh storage node and a fresh compute
  node got, however old, the compute node sends its requests with epoch 0, the storage node
  has epoch 0 for all its partitions, and no write is refused with \<open>EPOCH_FENCED\<close>.
\<close>

theorem epochs_never_arrive:
  assumes "pm_partitions (srv_pm s0) = []"
    and "GetPartitionNodesByID (fold compute_receive msgs (compute_NewRouter nodeID metadataAddr)) i = Inr (primary, replica, j, epoch)"
  shows "epoch = 0 \<and> write_checks (fst (fold (storage_receive out myAddr) ts (s0, r))) k epoch \<noteq> Some EPOCH_FENCED"
proof -
  let ?s = "fst (fold (storage_receive out myAddr) ts (s0, r))"
  have "\<forall>(i, part) \<in> set (crt_Partitions (cr_routeTable (fold compute_receive msgs (compute_NewRouter nodeID metadataAddr)))). cpi_Epoch part = 0"
    by (rule fold_compute_receive_epochs_0) (simp add: compute_NewRouter_def)
  then have "epoch = 0"
    using assms(2) by (auto simp: GetPartitionNodesByID_def split: option.splits dest!: map_of_SomeD)
  moreover have "node_epochs_0 ?s"
    using assms(1) by (intro fold_storage_receive_epochs_0) (simp add: node_epochs_0_def)
  then have "ValidateEpoch (srv_pm ?s) k 0 = None \<or> map_of (pm_partitions (srv_pm ?s)) k = None"
    by (auto simp: ValidateEpoch_def node_epochs_0_def split: option.splits)
  ultimately show ?thesis
    by (auto simp: write_checks_def HasPartition_def)
qed

theorem epochs_never_arrive_witness:
  "let t = example_table; out = \<lparr>out_dial = (\<lambda>_. None), out_rpc = (\<lambda>_ r _. (r, Inl ErrEOF)), out_fault = (\<lambda>_. None), out_now = (\<lambda>_. 0)\<rparr>;
       s0 = (example_server True)\<lparr>srv_pm := NewPartitionManager ''n1'' [] (\<lambda>_. 0)\<rparr>
   in pi_Epoch (example_partition 1) = 1 \<and>
      write_checks (fst (fold (storage_receive out ''a'') [t] (s0, ()))) 1 0 \<noteq> Some EPOCH_FENCED"
proof -
  let ?r = "fold compute_receive [Updated example_table :: (unit, unit) route_message] (compute_NewRouter ''c1'' ''m1'')"
  have "GetPartitionNodesByID ?r 1 = Inr (''a'', ''b'', 1, 0)"
    by code_simp
  from epochs_never_arrive [OF _ this, of "(example_server True)\<lparr>srv_pm := NewPartitionManager ''n1'' [] (\<lambda>_. 0)\<rparr>"
      "\<lparr>out_dial = (\<lambda>_. None), out_rpc = (\<lambda>_ r _. (r, Inl ErrEOF)), out_fault = (\<lambda>_. None), out_now = (\<lambda>_. 0)\<rparr>" "''a''" "[example_table]" "()" 1] show ?thesis
    by (simp add: Let_def NewPartitionManager_def example_partition_def)
qed

text \<open>
  C36. A server that lost its leadership can take writes for good: the callbacks of the election run as
  goroutines in any order, so that the one of winning may run after the one of losing. Then nothing
  is pending, the election knows that the server is not the leader, and the check of the write handlers passes.
\<close>

theorem stale_leader_takes_writes:
  assumes "nodeID \<noteq> []"
  shows "\<exists>s0 s le. NewHAServer True nodeID (Inr store) n gauge None = Inr s0 \<and> ha_step\<^sup>*\<^sup>* s0 s \<and>
    ha_leaderElection s = Some le \<and> \<not> le_isLeader le \<and> le_pending le = [] \<and> checkLeaderForWrite s = None"
proof -
  define le0 where "le0 = \<lparr>le_nodeID = nodeID, le_isLeader = False, le_leaderID = [], le_callbacks = 1, le_cancelled = False,
    le_phase = Le_new, le_pending = []\<rparr>"
  define le where "le = le0\<lparr>le_leaderID := nodeID, le_phase := Le_campaign\<rparr>"
  obtain server where server: "meta_NewServer nodeID (Inr store) n gauge = Inr server"
    by (simp add: meta_NewServer_def)
  define s where "s b le = \<lparr>ha_server = server, ha_haEnabled = True, ha_leaderElection = Some le, ha_isLeader = b\<rparr>" for b le
  have new: "NewHAServer True nodeID (Inr store) n gauge None = Inr (s False le0)"
    using assms by (simp add: NewHAServer_def server NewLeaderElection_def OnLeaderChange_def s_def le0_def)
  have 1: "ha_step (s False le0) (s False (le0\<lparr>le_phase := Le_campaign\<rparr>))"
    using Ha_start [of "s False le0" le0 None] by (simp add: s_def le0_def le_Start_def)
  have 2: "ha_step (s False (le0\<lparr>le_phase := Le_campaign\<rparr>)) (s False (le\<lparr>le_isLeader := True, le_pending := [True], le_phase := Le_leading\<rparr>))"
    using Ha_election [of "s False (le0\<lparr>le_phase := Le_campaign\<rparr>)" _ Campaign_won] by (simp add: s_def le_def le0_def becomeLeader_def)
  have 3: "ha_step (s False (le\<lparr>le_isLeader := True, le_pending := [True], le_phase := Le_leading\<rparr>)) (s False (le\<lparr>le_pending := [True, False]\<rparr>))"
    using Ha_election [of "s False (le\<lparr>le_isLeader := True, le_pending := [True], le_phase := Le_leading\<rparr>)" _ Session_expired]
    by (simp add: s_def le_def le0_def loseLeadership_def)
  have 4: "ha_step (s False (le\<lparr>le_pending := [True, False]\<rparr>)) (s False (le\<lparr>le_pending := [True]\<rparr>))"
    using Ha_callback [of "s False (le\<lparr>le_pending := [True, False]\<rparr>)" _ 1] by (simp add: s_def le_def le0_def onLeadershipChange_def remove_at_def)
  have 5: "ha_step (s False (le\<lparr>le_pending := [True]\<rparr>)) (s True le)"
    using Ha_callback [of "s False (le\<lparr>le_pending := [True]\<rparr>)" _ 0] by (simp add: s_def le_def le0_def onLeadershipChange_def remove_at_def)
  have "ha_step\<^sup>*\<^sup>* (s False le0) (s True le)"
    using 1 2 3 4 5 by (meson converse_rtranclp_into_rtranclp rtranclp.rtrancl_refl)
  then show ?thesis
    using new by (intro exI [of _ "s False le0"] exI [of _ "s True le"] exI [of _ le])
      (simp add: s_def le_def le0_def checkLeaderForWrite_def ha_IsLeader_def)
qed

theorem stale_leader_takes_writes_witness:
  "\<exists>s0 s le. NewHAServer True ''m1'' (Inr (r_store example_fresh)) () (\<lambda>_. 0) None = Inr s0 \<and> ha_step\<^sup>*\<^sup>* s0 s \<and>
    ha_leaderElection s = Some le \<and> \<not> le_isLeader le \<and> le_pending le = [] \<and> checkLeaderForWrite s = None"
  by (rule stale_leader_takes_writes) simp

end
